(* ===== verification/Prelude.thy ===== *)
theory Prelude
  imports Main "HOL-Library.Word"
begin

text \<open>
  Shared vocabulary of the development: the machine-integer synonyms, the six-byte MAC key,
  the reading of C's narrowing casts, and generic facts on lists that several components use.

  C integers are modelled as follows. Unsigned fields whose wrap-around matters are words of
  their width (\<open>uint8_t\<close> is \<open>8 word\<close>, \<open>uint16_t\<close> is \<open>16 word\<close>, \<open>uint32_t\<close> is
  \<open>32 word\<close>). Signed fields (\<open>int32_t\<close>, \<open>int64_t\<close>) are \<open>int\<close>; where the code casts
  into a signed type the cast is written out with \<open>to_i32\<close>, and where a signed operation
  could overflow the model makes it a failure or the theorem states the range.
  A pointer argument that the code compares with NULL is an \<open>option\<close>.
\<close>

type_synonym u8 = "8 word"
type_synonym u16 = "16 word"
type_synonym u32 = "32 word"

text \<open>The proof automation collections of the development.\<close>

named_theorems zero_defs \<open>the all-zero images that memset and calloc leave\<close>
named_theorems wei_inv \<open>invariant introduction and preservation facts\<close>

section \<open>MAC keys\<close>

text \<open>
  A station key is \<open>uint8_t mac[6]\<close>; \<open>memcmp(a, b, 6) == 0\<close> is equality of the six bytes.
\<close>

datatype mac = Mac u8 u8 u8 u8 u8 u8

definition mac_bytes :: "mac \<Rightarrow> u8 list" where
  "mac_bytes m = (case m of Mac a b c d e f \<Rightarrow> [a, b, c, d, e, f])"

definition zero_mac :: mac where
  "zero_mac = Mac 0 0 0 0 0 0"

lemma length_mac_bytes [simp]: "length (mac_bytes m) = 6"
  by (cases m) (simp add: mac_bytes_def)

lemma mac_bytes_inject [simp]: "mac_bytes m = mac_bytes m' \<longleftrightarrow> m = m'"
  by (cases m; cases m') (simp add: mac_bytes_def)

section \<open>Casts\<close>

text \<open>\<open>(int32_t)w\<close> for an unsigned 32-bit value: two's complement, as every supported compiler does.\<close>

definition to_i32 :: "u32 \<Rightarrow> int" where
  "to_i32 w = (if uint w < 2 ^ 31 then uint w else uint w - 2 ^ 32)"

lemma to_i32_small: "uint w < 2 ^ 31 \<Longrightarrow> to_i32 w = uint w"
  by (simp add: to_i32_def)

lemma to_i32_range: "- (2 ^ 31) \<le> to_i32 w" "to_i32 w < 2 ^ 31"
  using uint_bounded [of w] by (simp_all add: to_i32_def order_trans [OF _ uint_nonnegative])

text \<open>Negation of an \<open>int32_t\<close>: undefined for the least value.\<close>

definition neg_i32 :: "int \<Rightarrow> int option" where
  "neg_i32 x = (if x = - (2 ^ 31) then None else Some (- x))"

section \<open>Clock readings\<close>

text \<open>A \<open>struct timespec\<close> as \<open>clock_gettime\<close> fills it; it reports 0 to 999999999 nanoseconds.\<close>

record c_timespec =
  tv_sec :: int
  tv_nsec :: int

section \<open>Lists addressed by index\<close>

text \<open>Index of the first element that satisfies \<open>P\<close>: what a bounded \<open>for\<close> scan finds.\<close>

fun find_index :: "('a \<Rightarrow> bool) \<Rightarrow> 'a list \<Rightarrow> nat option" where
  "find_index P [] = None"
| "find_index P (x # xs) = (if P x then Some 0 else map_option Suc (find_index P xs))"

lemma find_index_None_iff: "find_index P xs = None \<longleftrightarrow> (\<forall>x \<in> set xs. \<not> P x)"
  by (induction xs) auto

lemma find_index_SomeD:
  assumes "find_index P xs = Some i"
  shows "i < length xs" and "P (xs ! i)" and "\<forall>j < i. \<not> P (xs ! j)"
proof -
  have "i < length xs \<and> P (xs ! i) \<and> (\<forall>j < i. \<not> P (xs ! j))"
    using assms
    by (induction xs arbitrary: i) (auto split: if_splits simp: less_Suc_eq_0_disj)
  then show "i < length xs" and "P (xs ! i)" and "\<forall>j < i. \<not> P (xs ! j)" by auto
qed

lemma find_index_Some_iff:
  "find_index P xs = Some i \<longleftrightarrow> i < length xs \<and> P (xs ! i) \<and> (\<forall>j < i. \<not> P (xs ! j))"
  by (induction xs arbitrary: i)
    (auto split: if_splits simp: less_Suc_eq_0_disj nth_Cons split: nat.splits)

lemma find_index_cong:
  assumes "length xs = length ys" "\<And>j. j < length xs \<Longrightarrow> P (xs ! j) = Q (ys ! j)"
  shows "find_index P xs = find_index Q ys"
  using assms
proof (induction xs ys rule: list_induct2)
  case (Cons x xs y ys)
  have "P x = Q y" using Cons.prems [of 0] by simp
  moreover have "find_index P xs = find_index Q ys"
    using Cons.prems [of "Suc j" for j] by (intro Cons.IH) auto
  ultimately show ?case by simp
qed simp

lemma length_filter_update:
  assumes "i < length xs"
  shows "length (filter P (xs[i := x])) + (if P (xs ! i) then 1 else 0) =
    length (filter P xs) + (if P x then 1 else 0)"
  using assms
proof (induction xs arbitrary: i)
  case (Cons y xs)
  then show ?case by (cases i) auto
qed simp

lemma find_index_exists: "x \<in> set xs \<Longrightarrow> P x \<Longrightarrow> \<exists>i. find_index P xs = Some i"
  by (cases "find_index P xs") (auto simp: find_index_None_iff)

lemma list_all_update: "list_all P xs \<Longrightarrow> P x \<Longrightarrow> list_all P (xs[i := x])"
  by (auto simp: list_all_iff dest: set_update_subset_insert [THEN subsetD])

lemma nth_list_update_if: "i < length xs \<Longrightarrow> xs[i := x] ! j = (if i = j then x else xs ! j)"
  by simp

end
