(* ===== verification/Platform_Cap.thy ===== *)
theory Platform_Cap
  imports Prelude
begin

text \<open>
  The supported-platform descriptor (source/wei_platform_cap.c): a constant table of rows and a
  bounded scan. A C enumeration object can hold any integer of its underlying type, so the query
  takes the raw value; the enumerators are the datatype and \<open>wei_plat_tier_val\<close> is their value.
\<close>

datatype wei_plat_tier =
    WEI_PLAT_TIER_UNKNOWN
  | WEI_PLAT_TIER_XB8
  | WEI_PLAT_TIER_XB7
  | WEI_PLAT_TIER_MAX

fun wei_plat_tier_val :: "wei_plat_tier \<Rightarrow> int" where
  "wei_plat_tier_val WEI_PLAT_TIER_UNKNOWN = 0"
| "wei_plat_tier_val WEI_PLAT_TIER_XB8 = 1"
| "wei_plat_tier_val WEI_PLAT_TIER_XB7 = 2"
| "wei_plat_tier_val WEI_PLAT_TIER_MAX = 3"

record wei_plat_tier_desc =
  tier :: wei_plat_tier
  supported :: bool

definition wei_plat_tier_table :: "wei_plat_tier_desc list" where
  "wei_plat_tier_table =
     [\<lparr>tier = WEI_PLAT_TIER_UNKNOWN, supported = False\<rparr>,
      \<lparr>tier = WEI_PLAT_TIER_XB8, supported = True\<rparr>,
      \<lparr>tier = WEI_PLAT_TIER_XB7, supported = False\<rparr>]"

fun plat_scan :: "wei_plat_tier_desc list \<Rightarrow> int \<Rightarrow> bool" where
  "plat_scan [] t = False"
| "plat_scan (r # rs) t = (if wei_plat_tier_val (tier r) = t then supported r else plat_scan rs t)"

definition wei_plat_tier_supported :: "int \<Rightarrow> bool" where
  "wei_plat_tier_supported t = plat_scan wei_plat_tier_table t"

text \<open>
  Of every integer a caller can pass, XB8 alone is supported.
\<close>

lemma plat_supported_iff: "wei_plat_tier_supported t \<longleftrightarrow> t = 1"
  by (auto simp: wei_plat_tier_supported_def wei_plat_tier_table_def)

end
