(* ===== verification/Util.thy ===== *)
theory Util
  imports Prelude
begin

text \<open>
  The daemon's logger (source/wei_util.c): level and zone names, the composition of one line in
  the 1024-byte stack buffer, and the size-capped debug file on tmpfs. What the C library
  returns (the time stamp, the formatted message, whether a stream opens, how many bytes
  \<open>fwrite\<close> accepts) is the parameter \<open>util_env\<close>. The state is the stream pointer, the byte
  counter and the bytes in the file. The copy of the line that goes to stdout is not modelled;
  the mutex makes each write one atomic step (Log_Lock).
\<close>

datatype wei_dbg_type = WEI_CONNECTED | WEI_AFF | WEI_APPS

datatype wei_log_level =
  WEI_LOG_LVL_DEBUG | WEI_LOG_LVL_INFO | WEI_LOG_LVL_ERROR | WEI_LOG_LVL_MAX

fun wei_log_level_val :: "wei_log_level \<Rightarrow> nat" where
  "wei_log_level_val WEI_LOG_LVL_DEBUG = 0"
| "wei_log_level_val WEI_LOG_LVL_INFO = 1"
| "wei_log_level_val WEI_LOG_LVL_ERROR = 2"
| "wei_log_level_val WEI_LOG_LVL_MAX = 3"

lemma wei_log_level_val_inject [simp]: "wei_log_level_val a = wei_log_level_val b \<longleftrightarrow> a = b"
  by (cases a; cases b) simp_all

text \<open>C compares enumerators by value: the levels are linearly ordered.\<close>

instantiation wei_log_level :: linorder
begin

definition less_eq_wei_log_level :: "wei_log_level \<Rightarrow> wei_log_level \<Rightarrow> bool" where
  "less_eq_wei_log_level a b \<longleftrightarrow> wei_log_level_val a \<le> wei_log_level_val b"

definition less_wei_log_level :: "wei_log_level \<Rightarrow> wei_log_level \<Rightarrow> bool" where
  "less_wei_log_level a b \<longleftrightarrow> wei_log_level_val a < wei_log_level_val b"

instance
  by standard (auto simp: less_eq_wei_log_level_def less_wei_log_level_def dest: antisym)

end

definition wei_lvl_str :: "wei_log_level \<Rightarrow> string" where
  "wei_lvl_str l =
     (case l of WEI_LOG_LVL_DEBUG \<Rightarrow> ''DBG'' | WEI_LOG_LVL_INFO \<Rightarrow> ''INF''
      | WEI_LOG_LVL_ERROR \<Rightarrow> ''ERR'' | _ \<Rightarrow> ''LOG'')"

definition wei_zone_str :: "wei_dbg_type \<Rightarrow> string" where
  "wei_zone_str m =
     (case m of WEI_CONNECTED \<Rightarrow> ''CONNECTED'' | WEI_AFF \<Rightarrow> ''AFFINITY'' | WEI_APPS \<Rightarrow> ''APPS'')"

definition WEI_LOG_MIN_LEVEL :: wei_log_level where "WEI_LOG_MIN_LEVEL = WEI_LOG_LVL_DEBUG"
definition WEI_LOG_FILE_MAX_BYTES :: int where "WEI_LOG_FILE_MAX_BYTES = 8 * 1024 * 1024"
definition LINE_SIZE :: int where "LINE_SIZE = 1024"

section \<open>The capped file\<close>

record util_env =
  ue_stamp :: "string option"
  ue_nsec :: int
  ue_message :: "string option"
  fopen_ok :: bool
  freopen_ok :: bool
  fwrite_count :: nat

record log_state =
  wei_log_fp :: bool
  wei_log_bytes :: int
  log_file :: string

text \<open>Opening with mode \<open>w\<close> truncates the file when it succeeds.\<close>

definition wei_util_file_write :: "util_env \<Rightarrow> string \<Rightarrow> log_state \<Rightarrow> log_state" where
  "wei_util_file_write env line s =
     (let s = (if \<not> wei_log_fp s
               then \<lparr>wei_log_fp = fopen_ok env, wei_log_bytes = 0,
                     log_file = (if fopen_ok env then [] else log_file s)\<rparr>
               else if wei_log_bytes s \<ge> WEI_LOG_FILE_MAX_BYTES
               then \<lparr>wei_log_fp = freopen_ok env, wei_log_bytes = 0,
                     log_file = (if freopen_ok env then [] else log_file s)\<rparr>
               else s)
      in if wei_log_fp s \<and> length line > 0
         then s\<lparr>wei_log_bytes := wei_log_bytes s + int (fwrite_count env),
                log_file := log_file s @ take (fwrite_count env) line\<rparr>
         else s)"

section \<open>One line\<close>

fun dec_str :: "nat \<Rightarrow> string" where
  "dec_str n = (if n < 10 then [char_of (48 + n)] else dec_str (n div 10) @ [char_of (48 + n mod 10)])"

text \<open>\<open>%03ld\<close> of a value that is not negative.\<close>

definition dec3 :: "int \<Rightarrow> string" where
  "dec3 i = (let d = dec_str (nat i) in replicate (3 - length d) (CHR ''0'') @ d)"

definition line_header :: "util_env \<Rightarrow> wei_log_level \<Rightarrow> wei_dbg_type \<Rightarrow> string" where
  "line_header env level module =
     (let tail = ''[wei]['' @ wei_lvl_str level @ ''][''  @ wei_zone_str module @ ''] ''
      in case ue_stamp env of
           Some stamp \<Rightarrow> stamp @ ''.'' @ dec3 (ue_nsec env div 1000000) @ '' '' @ tail
         | None \<Rightarrow> tail)"

text \<open>
  The buffer contents and the offset after both \<open>printf\<close> calls: each stores at most the room
  minus one characters and returns the untruncated length; a formatting error returns a negative
  number and the second one adds nothing to the offset.
\<close>

definition print_line :: "util_env \<Rightarrow> wei_log_level \<Rightarrow> wei_dbg_type \<Rightarrow> string \<times> int" where
  "print_line env level module =
     (let hdr = line_header env level module;
          line = take (nat (LINE_SIZE - 1)) hdr;
          off = int (length hdr);
          off = (if off < 0 then 0 else off);
          off = (if off > LINE_SIZE - 1 then LINE_SIZE - 1 else off);
          avail = LINE_SIZE - off
      in case ue_message env of
           None \<Rightarrow> (line, off)
         | Some msg \<Rightarrow>
             let n = int (length msg);
                 line = take (nat off) line @ take (nat (avail - 1)) msg
             in (line, if n > 0 then off + (if n < avail then n else avail - 1) else off))"

definition wei_util_print ::
    "util_env \<Rightarrow> wei_log_level \<Rightarrow> wei_dbg_type \<Rightarrow> string option \<Rightarrow> log_state \<Rightarrow> log_state" where
  "wei_util_print env level module format s =
     (if format = None \<or> level < WEI_LOG_MIN_LEVEL then s
      else let (line, off) = print_line env level module
           in wei_util_file_write env (take (nat off) line) s)"

section \<open>Properties\<close>

lemma no_level_filtered: "\<not> level < WEI_LOG_MIN_LEVEL"
  by (cases level) (simp_all add: WEI_LOG_MIN_LEVEL_def less_wei_log_level_def)

text \<open>The offset is the length of what is in the buffer, and the buffer is the joined text cut at 1023.\<close>

lemma print_line_eq:
  "print_line env level module =
     (let text = line_header env level module @ (case ue_message env of None \<Rightarrow> [] | Some m \<Rightarrow> m)
      in (take 1023 text, int (length (take 1023 text))))"
  by (auto simp: print_line_def LINE_SIZE_def Let_def min_def nat_diff_distrib' split: option.splits)

definition log_ok :: "log_state \<Rightarrow> bool" where
  "log_ok s \<longleftrightarrow>
     (wei_log_fp s \<longrightarrow> int (length (log_file s)) = wei_log_bytes s \<and>
                      wei_log_bytes s < WEI_LOG_FILE_MAX_BYTES + LINE_SIZE)"

lemma file_write_ok [wei_inv]:
  "log_ok s \<Longrightarrow> length line < 1024 \<Longrightarrow> fwrite_count env \<le> length line \<Longrightarrow> log_ok (wei_util_file_write env line s)"
  by (auto simp: log_ok_def wei_util_file_write_def Let_def WEI_LOG_FILE_MAX_BYTES_def LINE_SIZE_def)

datatype print_op = PRINT util_env wei_log_level wei_dbg_type "string option"

definition print_step :: "log_state \<Rightarrow> print_op \<Rightarrow> log_state" where
  "print_step s op = (case op of PRINT env level module format \<Rightarrow> wei_util_print env level module format s)"

text \<open>The line an operation submits to the file.\<close>

definition print_text :: "print_op \<Rightarrow> string" where
  "print_text op =
     (case op of PRINT env level module format \<Rightarrow>
        if format = None then [] else fst (print_line env level module))"

text \<open>\<open>fwrite\<close> accepts at most what it is given; a healthy filesystem accepts all of it.\<close>

definition print_sane :: "print_op \<Rightarrow> bool" where
  "print_sane op = (case op of PRINT env level module format \<Rightarrow>
     fwrite_count env \<le> length (print_text op))"

definition print_healthy :: "print_op \<Rightarrow> bool" where
  "print_healthy op = (case op of PRINT env level module format \<Rightarrow>
     fopen_ok env \<and> freopen_ok env \<and> fwrite_count env = length (print_text op))"

lemma print_line_whole: "take (nat (snd (print_line env level module))) (fst (print_line env level module)) =
    fst (print_line env level module)"
  by (simp only: print_line_eq Let_def fst_conv snd_conv nat_int take_all order_refl)

lemma print_step_eq:
  "print_step s (PRINT env level module format) =
     (if format = None then s
      else wei_util_file_write env (print_text (PRINT env level module format)) s)"
  using print_line_whole [of env level module]
  by (simp add: print_step_def wei_util_print_def no_level_filtered print_text_def case_prod_beta)

lemma print_text_length: "length (print_text op) < 1024"
  by (cases op) (auto simp: print_text_def print_line_eq Let_def min_def)

lemma print_step_ok [wei_inv]: "log_ok s \<Longrightarrow> print_sane op \<Longrightarrow> log_ok (print_step s op)"
  by (cases op) (auto simp: print_step_eq print_sane_def intro!: file_write_ok print_text_length)

lemma print_run_ok: "log_ok s \<Longrightarrow> list_all print_sane ops \<Longrightarrow> log_ok (foldl print_step s ops)"
  by (induction ops arbitrary: s) (auto intro: print_step_ok)

lemma healthy_sane: "print_healthy op \<Longrightarrow> print_sane op"
  by (cases op) (simp add: print_healthy_def print_sane_def)

text \<open>What the file holds of the texts submitted so far: a final run of them, and all before the cap.\<close>

definition log_keeps :: "string list \<Rightarrow> log_state \<Rightarrow> bool" where
  "log_keeps ts s \<longleftrightarrow>
     (if wei_log_fp s
      then \<exists>k. log_file s = concat (drop k ts) \<and>
               (int (length (concat ts)) < WEI_LOG_FILE_MAX_BYTES \<longrightarrow> log_file s = concat ts)
      else concat ts = [])"

lemma keeps_last: "log_keeps (ts @ [t]) \<lparr>wei_log_fp = True, wei_log_bytes = b, log_file = t\<rparr>"
  if "concat ts = [] \<or> \<not> int (length (concat ts)) < WEI_LOG_FILE_MAX_BYTES"
  using that by (auto simp: log_keeps_def intro!: exI [of _ "length ts"])

lemma keeps_more:
  assumes "log_keeps ts s" "wei_log_fp s"
  shows "log_keeps (ts @ [t]) \<lparr>wei_log_fp = True, wei_log_bytes = b, log_file = log_file s @ t\<rparr>"
proof -
  obtain k where k: "log_file s = concat (drop k ts)" "k \<le> length ts"
    using assms by (simp add: log_keeps_def) (metis drop_all linear order_refl)
  then show ?thesis using assms by (auto simp: log_keeps_def intro!: exI [of _ k])
qed

lemma keeps_length: "log_keeps ts s \<Longrightarrow> length (log_file s) \<le> length (concat ts) \<or> \<not> wei_log_fp s"
  by (auto simp: log_keeps_def)
    (metis append_take_drop_id concat_append le_add2 length_append)

lemma print_step_keeps:
  assumes "print_healthy op" "log_keeps ts s" "log_ok s"
  shows "log_keeps (ts @ [print_text op]) (print_step s op)"
proof -
  obtain env level module format where op: "op = PRINT env level module format" by (cases op)
  let ?t = "print_text op"
  have full: "\<not> int (length (concat ts)) < WEI_LOG_FILE_MAX_BYTES"
    if "wei_log_fp s" "wei_log_bytes s \<ge> WEI_LOG_FILE_MAX_BYTES"
    using that assms(3) keeps_length [OF assms(2)] by (auto simp: log_ok_def)
  have step: "print_step s op =
      (if format = None then s
       else if \<not> wei_log_fp s \<or> wei_log_bytes s \<ge> WEI_LOG_FILE_MAX_BYTES
       then \<lparr>wei_log_fp = True, wei_log_bytes = int (length ?t), log_file = ?t\<rparr>
       else \<lparr>wei_log_fp = True, wei_log_bytes = wei_log_bytes s + int (length ?t), log_file = log_file s @ ?t\<rparr>)"
    using assms(1) by (cases s) (auto simp: op print_step_eq print_healthy_def wei_util_file_write_def Let_def)
  show ?thesis
  proof (cases "format = None")
    case True
    then show ?thesis using step assms(2) keeps_more [OF assms(2), of "[]"]
      by (cases s) (auto simp: op print_text_def log_keeps_def)
  next
    case False
    show ?thesis
    proof (cases "\<not> wei_log_fp s \<or> wei_log_bytes s \<ge> WEI_LOG_FILE_MAX_BYTES")
      case True
      then have "concat ts = [] \<or> \<not> int (length (concat ts)) < WEI_LOG_FILE_MAX_BYTES"
        using full assms(2) by (auto simp: log_keeps_def split: if_splits)
      then show ?thesis using step False True by (simp add: keeps_last)
    next
      case open_below: False
      then show ?thesis using step False keeps_more [OF assms(2)] by simp
    qed
  qed
qed

lemma print_run_keeps:
  "list_all print_healthy ops \<Longrightarrow> log_keeps ts s \<Longrightarrow> log_ok s \<Longrightarrow>
     log_keeps (ts @ map print_text ops) (foldl print_step s ops)"
proof (induction ops arbitrary: ts s)
  case (Cons op ops)
  then show ?case
    using Cons.IH [of "ts @ [print_text op]" "print_step s op"] print_step_keeps [of op ts s]
      print_step_ok [of s op] healthy_sane [of op]
    by simp
qed simp

definition log_start :: log_state where
  "log_start = \<lparr>wei_log_fp = False, wei_log_bytes = 0, log_file = []\<rparr>"

text \<open>
  C22. The debug file can never exhaust the tmpfs. Whatever the file system does (streams that do
  not open or reopen, short writes), after any sequence of prints of any length the open file
  holds exactly the counted bytes and stays below the 8 MiB cap plus one line buffer. On a
  healthy file system it holds, in order, the last lines printed, each line cut at 1023 bytes, and
  all of them as long as their total is below the cap.
\<close>

theorem log_file_bounded:
  assumes "list_all print_sane ops"
  defines "s \<equiv> foldl print_step log_start ops"
  shows "(wei_log_fp s \<longrightarrow> int (length (log_file s)) = wei_log_bytes s \<and>
            length (log_file s) < 8 * 1024 * 1024 + 1024) \<and>
    (list_all print_healthy ops \<and> wei_log_fp s \<longrightarrow>
       (\<exists>k. log_file s = concat (drop k (map print_text ops))) \<and>
       (int (length (concat (map print_text ops))) < WEI_LOG_FILE_MAX_BYTES \<longrightarrow>
          log_file s = concat (map print_text ops)))"
proof -
  have start: "log_ok log_start" "log_keeps [] log_start" by (simp_all add: log_ok_def log_keeps_def log_start_def)
  have "log_ok s" unfolding s_def by (rule print_run_ok [OF start(1) assms(1)])
  moreover have "log_keeps (map print_text ops) s" if "list_all print_healthy ops"
    using print_run_keeps [OF that start(2,1)] by (simp add: s_def)
  ultimately show ?thesis
    by (auto simp: log_ok_def log_keeps_def WEI_LOG_FILE_MAX_BYTES_def LINE_SIZE_def)
qed

definition sample_print :: print_op where
  "sample_print = PRINT \<lparr>ue_stamp = Some ''2026-01-01 00:00:00'', ue_nsec = 7000000, ue_message = Some ''hi'',
     fopen_ok = True, freopen_ok = True, fwrite_count = 48\<rparr> WEI_LOG_LVL_INFO WEI_CONNECTED (Some ''%s'')"

lemma sample_print_text: "print_text sample_print = ''2026-01-01 00:00:00.007 [wei][INF][CONNECTED] hi''"
  by code_simp

theorem log_file_bounded_witness:
  "log_file (foldl print_step log_start [sample_print, sample_print]) =
     print_text sample_print @ print_text sample_print"
proof -
  have healthy: "print_healthy sample_print" "print_sane sample_print" by code_simp+
  have "wei_log_fp (foldl print_step log_start [sample_print, sample_print])" by code_simp
  then show ?thesis
    using log_file_bounded [of "[sample_print, sample_print]"] healthy
    by (simp add: sample_print_text WEI_LOG_FILE_MAX_BYTES_def)
qed

end
