(* ===== verification/Float64.thy ===== *)
theory Float64
  imports Complex_Main Prelude
begin

text \<open>
  C's \<open>double\<close>. A finite binary64 value is the real number it denotes, and every operation
  of the code is the exact real operation followed by one rounding \<open>fl\<close>: to nearest, ties
  to even, 53 significant bits, smallest exponent -1074 (subnormals included). The two values
  the type does not hold, infinities and NaN, arise from overflow and from division by zero;
  the code's divisors are nonzero where it divides, and the magnitudes it meets stay far below
  the largest double, which the bounds proved for each operation show. Signed zeros are one
  value here: no operation the code applies tells them apart.

  Conversions from double to an integer type are partial in C (out of range is undefined
  behaviour), so \<open>c_int32_of\<close> and \<open>c_uint8_of\<close> return an \<open>option\<close>.
\<close>

type_synonym double = real

section \<open>Rounding a real to an integer, ties to even\<close>

definition rne :: "real \<Rightarrow> int" where
  "rne y =
     (let n = \<lfloor>y\<rfloor>; d = y - of_int n
      in if d < 1 / 2 then n else if d > 1 / 2 then n + 1 else if even n then n else n + 1)"

lemma rne_of_int [simp]: "rne (of_int n) = n"
  by (simp add: rne_def)

lemma rne_bounds: "\<lfloor>y\<rfloor> \<le> rne y" "rne y \<le> \<lfloor>y\<rfloor> + 1"
  by (auto simp: rne_def Let_def)

lemma rne_error: "\<bar>of_int (rne y) - y\<bar> \<le> 1 / 2"
  unfolding rne_def Let_def by (auto split: if_splits simp: abs_if) linarith+

lemma rne_mono:
  assumes "x \<le> y"
  shows "rne x \<le> rne y"
proof (cases "\<lfloor>x\<rfloor> = \<lfloor>y\<rfloor>")
  case True
  with assms show ?thesis by (auto simp: rne_def Let_def)
next
  case False
  with assms have "\<lfloor>x\<rfloor> + 1 \<le> \<lfloor>y\<rfloor>" using floor_mono [OF assms] by linarith
  with rne_bounds(2) [of x] rne_bounds(1) [of y] show ?thesis by linarith
qed

lemma rne_le_of_int: "x \<le> of_int n \<Longrightarrow> rne x \<le> n"
  using rne_mono [of x "of_int n"] by simp

lemma rne_ge_of_int: "of_int n \<le> x \<Longrightarrow> n \<le> rne x"
  using rne_mono [of "of_int n" x] by simp

lemma rne_minus [simp]: "rne (- y) = - rne y"
proof (cases "y = of_int \<lfloor>y\<rfloor>")
  case True
  then show ?thesis by (metis of_int_minus rne_of_int)
next
  case False
  then have "\<lfloor>- y\<rfloor> = - \<lfloor>y\<rfloor> - 1" by linarith
  then show ?thesis by (auto simp: rne_def Let_def)
qed

section \<open>Rounding to binary64\<close>

text \<open>Exponent of the unit in the last place of \<open>x\<close>.\<close>

definition ulp_exp :: "real \<Rightarrow> int" where
  "ulp_exp x = max (\<lfloor>log 2 \<bar>x\<bar>\<rfloor> - 52) (- 1074)"

definition fl :: "real \<Rightarrow> double" where
  "fl x =
     (if x = 0 then 0
      else of_int (rne (x / 2 powi ulp_exp x)) * 2 powi ulp_exp x)"

text \<open>The finite binary64 values (no upper exponent bound, see the header).\<close>

definition representable :: "real \<Rightarrow> bool" where
  "representable x \<longleftrightarrow> (\<exists>m e. x = of_int m * 2 powi e \<and> \<bar>m\<bar> \<le> 2 ^ 53 \<and> - 1074 \<le> e)"

lemma powi_pos [simp]: "0 < (2::real) powi e"
  by (simp add: zero_less_power_int)

lemma ulp_exp_ge: "- 1074 \<le> ulp_exp x"
  by (simp add: ulp_exp_def)

lemma ulp_exp_minus [simp]: "ulp_exp (- x) = ulp_exp x"
  by (simp add: ulp_exp_def)

lemma fl_0 [simp]: "fl 0 = 0"
  by (simp add: fl_def)

lemma fl_minus [simp]: "fl (- x) = - fl x"
  by (simp add: fl_def)

lemma log2_floor_bounds:
  assumes "x \<noteq> 0"
  shows "2 powi \<lfloor>log 2 \<bar>x\<bar>\<rfloor> \<le> \<bar>x\<bar>" and "\<bar>x\<bar> < 2 powi (\<lfloor>log 2 \<bar>x\<bar>\<rfloor> + 1)"
proof -
  let ?k = "\<lfloor>log 2 \<bar>x\<bar>\<rfloor>"
  have "2 powr ?k \<le> \<bar>x\<bar>"
    using assms by (metis le_log_iff of_int_floor_le one_less_numeral_iff semiring_norm(76) zero_less_abs_iff)
  then show "2 powi ?k \<le> \<bar>x\<bar>" by (simp add: powr_real_of_int')
  have "log 2 \<bar>x\<bar> < real_of_int (?k + 1)" by linarith
  then have "\<bar>x\<bar> < 2 powr real_of_int (?k + 1)"
    using assms by (subst (asm) log_less_iff) auto
  then show "\<bar>x\<bar> < 2 powi (?k + 1)" by (simp add: powr_real_of_int' del: of_int_add)
qed

lemma scaled_lt: "\<bar>x\<bar> < 2 powi (ulp_exp x + 53)"
proof (cases "x = 0")
  case False
  have "\<lfloor>log 2 \<bar>x\<bar>\<rfloor> + 1 \<le> ulp_exp x + 53" by (simp add: ulp_exp_def)
  then have "(2::real) powi (\<lfloor>log 2 \<bar>x\<bar>\<rfloor> + 1) \<le> 2 powi (ulp_exp x + 53)"
    by (intro power_int_increasing) auto
  with log2_floor_bounds(2) [OF False] show ?thesis by linarith
qed simp

lemma scaled_ge:
  assumes "x \<noteq> 0" and "ulp_exp x > - 1074"
  shows "2 powi (ulp_exp x + 52) \<le> \<bar>x\<bar>"
proof -
  have "ulp_exp x + 52 = \<lfloor>log 2 \<bar>x\<bar>\<rfloor>" using assms(2) by (simp add: ulp_exp_def)
  with log2_floor_bounds(1) [OF assms(1)] show ?thesis by simp
qed

lemma ulp_exp_le:
  assumes "\<bar>x\<bar> < 2 powi (e + 53)" and "- 1074 \<le> e" and "x \<noteq> 0"
  shows "ulp_exp x \<le> e"
proof -
  have "(2::real) powi \<lfloor>log 2 \<bar>x\<bar>\<rfloor> < 2 powi (e + 53)"
    using log2_floor_bounds(1) [OF assms(3)] assms(1) by linarith
  then have "\<lfloor>log 2 \<bar>x\<bar>\<rfloor> < e + 53"
    by (metis leI linorder_not_le one_le_numeral power_int_increasing)
  with assms(2) show ?thesis by (simp add: ulp_exp_def)
qed

lemma ulp_exp_mono:
  assumes "x \<noteq> 0" and "\<bar>x\<bar> \<le> \<bar>y\<bar>"
  shows "ulp_exp x \<le> ulp_exp y"
proof -
  have "log 2 \<bar>x\<bar> \<le> log 2 \<bar>y\<bar>" using assms by simp
  then have "\<lfloor>log 2 \<bar>x\<bar>\<rfloor> \<le> \<lfloor>log 2 \<bar>y\<bar>\<rfloor>" by (rule floor_mono)
  then show ?thesis by (simp add: ulp_exp_def)
qed

text \<open>A value on the grid of its own last place is a fixed point.\<close>

lemma fl_on_grid:
  assumes "x = of_int m * 2 powi e" and "ulp_exp x \<le> e"
  shows "fl x = x"
proof (cases "x = 0")
  case False
  let ?u = "ulp_exp x"
  have "x / 2 powi ?u = of_int m * 2 powi (e - ?u)"
    using assms(1) by (simp add: power_int_diff)
  also have "\<dots> = of_int (m * 2 ^ nat (e - ?u))"
    using assms(2) by (simp add: power_int_def)
  finally have grid: "x / 2 powi ?u = of_int (m * 2 ^ nat (e - ?u))" .
  then have "of_int (rne (x / 2 powi ?u)) = x / 2 powi ?u" by (metis rne_of_int)
  with False show ?thesis by (simp add: fl_def)
qed simp

lemma fl_exact:
  assumes "x = of_int m * 2 powi e" and "\<bar>m\<bar> \<le> 2 ^ 53" and "- 1074 \<le> e"
  shows "fl x = x"
proof (cases "x = 0")
  case False
  have strict: "fl x = x" if "x = of_int m' * 2 powi e'" "\<bar>m'\<bar> < 2 ^ 53" "- 1074 \<le> e'" for m' e'
  proof -
    have "real_of_int \<bar>m'\<bar> < of_int (2 ^ 53)" using that(2) by (simp only: of_int_less_iff)
    then have "\<bar>real_of_int m'\<bar> < 2 ^ 53" by simp
    then have "\<bar>x\<bar> < 2 ^ 53 * 2 powi e'"
      using that(1) by (simp add: abs_mult)
    then have "\<bar>x\<bar> < 2 powi (e' + 53)" by (simp add: power_int_add mult.commute)
    then show ?thesis using that False by (intro fl_on_grid [OF that(1)] ulp_exp_le) auto
  qed
  show ?thesis
  proof (cases "\<bar>m\<bar> < 2 ^ 53")
    case True
    with assms show ?thesis by (intro strict) auto
  next
    case False
    then have "m = sgn m * 2 ^ 53" using assms(2) by (auto simp: sgn_if abs_if split: if_splits)
    then have "real_of_int m = of_int (sgn m) * 2 ^ 53" by (metis of_int_mult of_int_power of_int_numeral)
    then have "x = of_int (sgn m) * 2 powi (e + 53)"
      using assms(1) by (simp add: power_int_add)
    then show ?thesis using assms(3) by (intro strict [of "sgn m" "e + 53"]) (auto simp: sgn_if)
  qed
qed simp

lemma fl_representable_id: "representable x \<Longrightarrow> fl x = x"
  using fl_exact unfolding representable_def by blast

lemma fl_representable [simp]: "representable (fl x)"
proof (cases "x = 0")
  case True
  then show ?thesis by (auto simp: representable_def intro: exI [of _ 0])
next
  case False
  let ?u = "ulp_exp x" and ?n = "rne (x / 2 powi ulp_exp x)"
  have "\<bar>x / 2 powi ?u\<bar> < 2 ^ 53"
    using scaled_lt [of x] by (simp add: power_int_add field_simps)
  then have "x / 2 powi ?u < 2 ^ 53" "- (2 ^ 53) < x / 2 powi ?u"
    unfolding abs_less_iff by linarith+
  then have "?n \<le> 2 ^ 53" "- (2 ^ 53) \<le> ?n"
    by (intro rne_le_of_int rne_ge_of_int; simp)+
  then show ?thesis
    using False ulp_exp_ge [of x] unfolding representable_def fl_def
    by (intro exI [of _ ?n] exI [of _ ?u]) auto
qed

lemma fl_idem [simp]: "fl (fl x) = fl x"
  by (simp add: fl_representable_id)

section \<open>Monotonicity\<close>

lemma fl_nonneg [simp, intro]: "0 \<le> x \<Longrightarrow> 0 \<le> fl x"
  using rne_ge_of_int [of 0 "x / 2 powi ulp_exp x"] by (simp add: fl_def)

lemma fl_mono_pos:
  assumes "0 < x" and "x \<le> y"
  shows "fl x \<le> fl y"
proof (cases "ulp_exp x = ulp_exp y")
  case True
  have "rne (x / 2 powi ulp_exp y) \<le> rne (y / 2 powi ulp_exp y)"
    using assms by (intro rne_mono divide_right_mono) auto
  with True assms show ?thesis by (simp add: fl_def mult_right_mono)
next
  case False
  let ?a = "ulp_exp x" and ?b = "ulp_exp y"
  have "?a < ?b" using False ulp_exp_mono [of x y] assms by simp
  have "x / 2 powi ?a \<le> of_int (2 ^ 53)"
    using scaled_lt [of x] assms by (simp add: power_int_add field_simps)
  then have "real_of_int (rne (x / 2 powi ?a)) \<le> 2 ^ 53"
    using rne_le_of_int by fastforce
  then have "fl x \<le> 2 ^ 53 * 2 powi ?a" using assms by (simp add: fl_def mult_right_mono)
  also have "\<dots> = 2 powi (?a + 53)" by (simp add: power_int_add)
  also have "\<dots> \<le> 2 powi (?b + 52)" using \<open>?a < ?b\<close> by (intro power_int_increasing) auto
  also have "\<dots> = 2 ^ 52 * 2 powi ?b" by (simp add: power_int_add)
  also have "\<dots> \<le> fl y"
  proof -
    have "?b > - 1074" using \<open>?a < ?b\<close> ulp_exp_ge [of x] by linarith
    then have "of_int (2 ^ 52) \<le> y / 2 powi ?b"
      using scaled_ge [of y] assms by (simp add: power_int_add field_simps)
    then have "2 ^ 52 \<le> real_of_int (rne (y / 2 powi ?b))"
      using rne_ge_of_int by fastforce
    then show ?thesis using assms by (simp add: fl_def mult_right_mono)
  qed
  finally show ?thesis .
qed

lemma fl_mono: "x \<le> y \<Longrightarrow> fl x \<le> fl y"
proof -
  assume le: "x \<le> y"
  consider "0 < x" | "x \<le> 0" "0 \<le> y" | "y < 0" by linarith
  then show "fl x \<le> fl y"
  proof cases
    case 1
    with le show ?thesis by (rule fl_mono_pos [rotated -1]) 
  next
    case 2
    then have "0 \<le> fl (- x)" "0 \<le> fl y" by (auto simp del: fl_minus)
    then show ?thesis by simp
  next
    case 3
    with le have "fl (- y) \<le> fl (- x)" by (intro fl_mono_pos) auto
    then show ?thesis by simp
  qed
qed

lemma fl_le_repr: "x \<le> y \<Longrightarrow> representable y \<Longrightarrow> fl x \<le> y"
  using fl_mono [of x y] by (simp add: fl_representable_id)

lemma fl_ge_repr: "y \<le> x \<Longrightarrow> representable y \<Longrightarrow> y \<le> fl x"
  using fl_mono [of y x] by (simp add: fl_representable_id)

section \<open>Values that are exact\<close>

lemma representable_int: "\<bar>n\<bar> \<le> 2 ^ 53 \<Longrightarrow> representable (of_int n)"
  unfolding representable_def by (intro exI [of _ n] exI [of _ 0]) auto

lemma representable_minus:
  assumes "representable x"
  shows "representable (- x)"
proof -
  from assms obtain m e where "x = of_int m * 2 powi e" "\<bar>m\<bar> \<le> 2 ^ 53" "- 1074 \<le> e"
    unfolding representable_def by blast
  then have "- x = of_int (- m) * 2 powi e \<and> \<bar>- m\<bar> \<le> 2 ^ 53 \<and> - 1074 \<le> e" by simp
  then show ?thesis unfolding representable_def by blast
qed

lemma representable_0 [simp]: "representable 0"
  using representable_int [of 0] by simp

lemma representable_1 [simp]: "representable 1"
  using representable_int [of 1] by simp

lemma representable_numeral [simp]:
  "numeral k \<le> (2 ^ 53 :: int) \<Longrightarrow> representable (numeral k)"
  using representable_int [of "numeral k"] by simp

lemma representable_half [simp]: "representable (1 / 2)"
  unfolding representable_def by (intro exI [of _ 1] exI [of _ "-1"]) (simp add: power_int_def)

lemma fl_int: "\<bar>n\<bar> \<le> 2 ^ 53 \<Longrightarrow> fl (of_int n) = of_int n"
  by (simp add: fl_representable_id representable_int)

lemma fl_unit_interval: "0 \<le> x \<Longrightarrow> x \<le> 1 \<Longrightarrow> 0 \<le> fl x \<and> fl x \<le> 1"
  by (auto intro: fl_le_repr)

section \<open>Conversions to integer types\<close>

text \<open>Truncation toward zero, and \<open>lround\<close> (half away from zero).\<close>

definition c_trunc :: "double \<Rightarrow> int" where
  "c_trunc x = (if 0 \<le> x then \<lfloor>x\<rfloor> else \<lceil>x\<rceil>)"

definition c_lround :: "double \<Rightarrow> int" where
  "c_lround x = (if 0 \<le> x then \<lfloor>x + 1 / 2\<rfloor> else \<lceil>x - 1 / 2\<rceil>)"

definition c_int32_of :: "double \<Rightarrow> int option" where
  "c_int32_of x = (if - (2 ^ 31) \<le> c_trunc x \<and> c_trunc x < 2 ^ 31 then Some (c_trunc x) else None)"

definition c_uint8_of :: "double \<Rightarrow> u8 option" where
  "c_uint8_of x = (if 0 \<le> c_trunc x \<and> c_trunc x < 2 ^ 8 then Some (word_of_int (c_trunc x)) else None)"

lemma c_uint8_of_range:
  assumes "0 \<le> x" and "x < 256"
  shows "c_uint8_of x = Some (word_of_int \<lfloor>x\<rfloor>)"
proof -
  have "\<lfloor>x\<rfloor> < 256" using assms by linarith
  then show ?thesis using assms by (simp add: c_uint8_of_def c_trunc_def)
qed

lemma c_lround_bounds:
  assumes "0 \<le> x" and "x \<le> of_int n"
  shows "0 \<le> c_lround x" and "c_lround x \<le> n"
  using assms by (auto simp: c_lround_def) linarith

section \<open>The operations of the code\<close>

abbreviation dadd :: "double \<Rightarrow> double \<Rightarrow> double" where "dadd x y \<equiv> fl (x + y)"
abbreviation dsub :: "double \<Rightarrow> double \<Rightarrow> double" where "dsub x y \<equiv> fl (x - y)"
abbreviation dmul :: "double \<Rightarrow> double \<Rightarrow> double" where "dmul x y \<equiv> fl (x * y)"
abbreviation ddiv :: "double \<Rightarrow> double \<Rightarrow> double" where "ddiv x y \<equiv> fl (x / y)"
abbreviation dsqrt :: "double \<Rightarrow> double" where "dsqrt x \<equiv> fl (sqrt x)"

text \<open>\<open>(double)w\<close> for an unsigned value of at most 32 bits is exact.\<close>

definition d_of_u32 :: "u32 \<Rightarrow> double" where "d_of_u32 w = of_int (uint w)"
definition d_of_u8 :: "u8 \<Rightarrow> double" where "d_of_u8 w = of_int (uint w)"

lemma uint_u32_bounds: "0 \<le> uint (w :: u32)" "uint (w :: u32) \<le> 4294967295"
  using uint_lt2p [of w] by simp_all

lemma uint_u8_bounds: "0 \<le> uint (w :: u8)" "uint (w :: u8) \<le> 255"
  using uint_lt2p [of w] by simp_all

lemma representable_u32 [simp]: "representable (d_of_u32 w)"
  using uint_u32_bounds [of w] unfolding d_of_u32_def by (intro representable_int) simp

lemma representable_u8 [simp]: "representable (d_of_u8 w)"
  using uint_u8_bounds [of w] unfolding d_of_u8_def by (intro representable_int) simp

lemma d_of_u32_mono [simp]: "d_of_u32 v \<le> d_of_u32 w \<longleftrightarrow> uint v \<le> uint w"
  unfolding d_of_u32_def by (simp only: of_int_le_iff)

lemma d_of_u8_mono [simp]: "d_of_u8 v \<le> d_of_u8 w \<longleftrightarrow> uint v \<le> uint w"
  unfolding d_of_u8_def by (simp only: of_int_le_iff)

lemma d_of_u32_nonneg [simp]: "0 \<le> d_of_u32 w"
  unfolding d_of_u32_def by (simp only: of_int_0_le_iff uint_u32_bounds)

lemma d_of_u8_nonneg [simp]: "0 \<le> d_of_u8 w"
  unfolding d_of_u8_def by (simp only: of_int_0_le_iff uint_u8_bounds)

lemma d_of_u32_numeral [simp]: "d_of_u32 0 = 0" "d_of_u32 1 = 1" "d_of_u32 (numeral k) = of_int (uint (numeral k :: u32))"
  by (simp_all add: d_of_u32_def)

lemma d_of_u8_numeral [simp]: "d_of_u8 0 = 0" "d_of_u8 1 = 1" "d_of_u8 (numeral k) = of_int (uint (numeral k :: u8))"
  by (simp_all add: d_of_u8_def)

lemma c_trunc_mono: "x \<le> y \<Longrightarrow> c_trunc x \<le> c_trunc y"
  unfolding c_trunc_def
  by (auto intro: floor_mono ceiling_mono) (smt (verit) ceiling_le_zero zero_le_floor)

lemma c_lround_mono:
  assumes "x \<le> y"
  shows "c_lround x \<le> c_lround y"
proof -
  have "\<lceil>x - 1 / 2\<rceil> \<le> \<lfloor>y + 1 / 2\<rfloor>" if "x < 0" "0 \<le> y"
    using that by linarith
  with assms show ?thesis
    unfolding c_lround_def by (auto intro: floor_mono ceiling_mono)
qed

end
