(* ===== verification/Conn_Metric.thy ===== *)
theory Conn_Metric
  imports Prelude
begin

text \<open>
  The shared per-client metric record (include/wei_conn_metric.h): the one contract every
  other component reads by name. \<open>zero_metric_record\<close> is the all-zero image that calloc and
  memset leave; its enumeration fields are the enumerators of value 0.
\<close>

datatype wei_conn_metric_state =
    WEI_CONN_METRIC_STATE_ACTIVE
  | WEI_CONN_METRIC_STATE_IDLE
  | WEI_CONN_METRIC_STATE_SLEEPING

datatype wei_conn_metric_status =
    WEI_CONN_METRIC_STATUS_OK
  | WEI_CONN_METRIC_STATUS_NO_CLIENT_DATA
  | WEI_CONN_METRIC_STATUS_STALE
  | WEI_CONN_METRIC_STATUS_SCORE_SUPPRESSED

definition WEI_CONN_METRIC_VERSION :: u8 where
  "WEI_CONN_METRIC_VERSION = 3"

fun wei_conn_metric_state_val :: "wei_conn_metric_state \<Rightarrow> int" where
  "wei_conn_metric_state_val WEI_CONN_METRIC_STATE_ACTIVE = 0"
| "wei_conn_metric_state_val WEI_CONN_METRIC_STATE_IDLE = 1"
| "wei_conn_metric_state_val WEI_CONN_METRIC_STATE_SLEEPING = 2"

fun wei_conn_metric_status_val :: "wei_conn_metric_status \<Rightarrow> int" where
  "wei_conn_metric_status_val WEI_CONN_METRIC_STATUS_OK = 0"
| "wei_conn_metric_status_val WEI_CONN_METRIC_STATUS_NO_CLIENT_DATA = 1"
| "wei_conn_metric_status_val WEI_CONN_METRIC_STATUS_STALE = 2"
| "wei_conn_metric_status_val WEI_CONN_METRIC_STATUS_SCORE_SUPPRESSED = 3"

record wei_conn_metric_record =
  version :: u8
  activity_state :: wei_conn_metric_state
  status :: wei_conn_metric_status
  link_snr_db :: int
  phy_rate_kbps :: u32
  tx_frames :: u32
  tx_err_frames :: u32
  chan_util_pct :: u8

definition zero_metric_record :: wei_conn_metric_record where [zero_defs]:
  "zero_metric_record =
     \<lparr>version = 0, activity_state = WEI_CONN_METRIC_STATE_ACTIVE,
      status = WEI_CONN_METRIC_STATUS_OK, link_snr_db = 0, phy_rate_kbps = 0,
      tx_frames = 0, tx_err_frames = 0, chan_util_pct = 0\<rparr>"

text \<open>The gate both scorers apply before they read a metric.\<close>

definition metric_scoreable :: "wei_conn_metric_record \<Rightarrow> bool" where
  "metric_scoreable rec \<longleftrightarrow>
     activity_state rec = WEI_CONN_METRIC_STATE_ACTIVE \<and> status rec = WEI_CONN_METRIC_STATUS_OK"

end
