(* ===== verification/Conn_Scorer.thy ===== *)
theory Conn_Scorer
  imports Float64 Conn_Metric
begin

text \<open>
  The stateless scoring kernel (source/wei_conn_scorer.c): normalise, reduce, weight,
  standardise, and the public per-record score. The model is parametric in what the file takes
  from elsewhere: the two coefficients of run_qmgr.h and the C library's \<open>exp\<close>. What the
  theorems rely on of \<open>exp\<close> is \<open>libm_exp_ok\<close>: on the clamped range [-50, 50] it is within
  one unit in the last place of the real exponential.
\<close>

record scorer_env =
  LINK_QTY_B0 :: double
  LINK_QTY_B1 :: double
  libm_exp :: "double \<Rightarrow> double"

definition libm_exp_ok :: "scorer_env \<Rightarrow> bool" where
  "libm_exp_ok env \<longleftrightarrow>
     (\<forall>x. - 50 \<le> x \<and> x \<le> 50 \<longrightarrow> \<bar>libm_exp env x - exp x\<bar> \<le> exp x / 2 ^ 52)"

definition CSCORE_SCALE_MIN :: double where "CSCORE_SCALE_MIN = 0"
definition CSCORE_SCALE_MAX :: double where "CSCORE_SCALE_MAX = 100"

text \<open>A concrete instance: neutral coefficients and the real exponential.\<close>

definition exact_env :: scorer_env where
  "exact_env = \<lparr>LINK_QTY_B0 = 0, LINK_QTY_B1 = 0, libm_exp = exp\<rparr>"

lemma exact_env_ok [simp]: "libm_exp_ok exact_env"
  by (simp add: libm_exp_ok_def exact_env_def)

section \<open>The four stages\<close>

definition cscore_normalize_metric :: "double \<Rightarrow> double \<Rightarrow> double \<Rightarrow> double" where
  "cscore_normalize_metric value lo hi =
     (let span = dsub hi lo
      in if span \<le> 0 then 0
         else let unit = ddiv (dsub value lo) span;
                  unit = (if unit < 0 then 0 else unit);
                  unit = (if unit > 1 then 1 else unit)
              in unit)"

fun rms_accum :: "double \<Rightarrow> double list \<Rightarrow> double" where
  "rms_accum accum [] = accum"
| "rms_accum accum (c # cs) = rms_accum (dadd accum c) cs"

definition cscore_rms_reduce :: "double list option \<Rightarrow> double" where
  "cscore_rms_reduce contributions =
     (case contributions of
        None \<Rightarrow> 0
      | Some cs \<Rightarrow>
          if length cs = 0 then 0
          else let accum = ddiv (rms_accum 0 cs) (fl (of_nat (length cs)))
               in if accum < 0 then 0 else dsqrt accum)"

definition clamp50 :: "double \<Rightarrow> double" where
  "clamp50 e = (let e = (if e < - 50 then - 50 else e) in if e > 50 then 50 else e)"

definition cscore_chanutil_weight :: "scorer_env \<Rightarrow> double \<Rightarrow> double \<Rightarrow> double" where
  "cscore_chanutil_weight env reduced chan_util =
     (let exponent = clamp50 (- dadd (LINK_QTY_B0 env) (dmul (LINK_QTY_B1 env) chan_util));
          weight = ddiv 1 (dadd 1 (libm_exp env exponent))
      in dmul reduced weight)"

definition cscore_standardize :: "double \<Rightarrow> double" where
  "cscore_standardize weighted =
     (let scaled = dadd CSCORE_SCALE_MIN
                     (dmul weighted (dsub CSCORE_SCALE_MAX CSCORE_SCALE_MIN));
          scaled = (if scaled < CSCORE_SCALE_MIN then CSCORE_SCALE_MIN else scaled);
          scaled = (if scaled > CSCORE_SCALE_MAX then CSCORE_SCALE_MAX else scaled)
      in scaled)"

section \<open>The per-record score\<close>

text \<open>Loss percent from the cumulative counters; the sum is 32-bit unsigned and wraps.\<close>

definition cscore_instant_per :: "wei_conn_metric_record \<Rightarrow> double" where
  "cscore_instant_per rec =
     (if tx_frames rec + tx_err_frames rec \<noteq> 0
      then dmul (ddiv (d_of_u32 (tx_err_frames rec))
                      (d_of_u32 (tx_frames rec + tx_err_frames rec))) 100
      else 0)"

text \<open>Reward metrics contribute \<open>norm^2\<close>, the loss penalty \<open>1 - norm^2\<close>.\<close>

definition cscore_contribs :: "double \<Rightarrow> double \<Rightarrow> double \<Rightarrow> double list" where
  "cscore_contribs n0 n1 n2 = [dmul n0 n0, dmul n1 n1, dsub 1 (dmul n2 n2)]"

definition wei_conn_scorer_score :: "scorer_env \<Rightarrow> wei_conn_metric_record option \<Rightarrow> u8" where
  "wei_conn_scorer_score env record =
     (case record of
        None \<Rightarrow> 0
      | Some rec \<Rightarrow>
          if activity_state rec \<noteq> WEI_CONN_METRIC_STATE_ACTIVE \<or>
             status rec \<noteq> WEI_CONN_METRIC_STATUS_OK
          then 0
          else
            let per_pct = cscore_instant_per rec;
                n0 = cscore_normalize_metric (of_int (link_snr_db rec)) 0 40;
                n1 = cscore_normalize_metric (d_of_u32 (phy_rate_kbps rec)) 0 866000;
                n2 = cscore_normalize_metric per_pct 0 100;
                reduced = cscore_rms_reduce (Some (cscore_contribs n0 n1 n2));
                weighted = cscore_chanutil_weight env reduced (d_of_u8 (chan_util_pct rec))
            in word_of_int (c_lround (cscore_standardize weighted)))"

section \<open>The contract the inference engine relies on\<close>

text \<open>
  The engine drives the four stages over its own bands. What it needs of them is the interface
  \<open>score_kernel\<close>: each stage keeps the unit interval, and each is monotone.
\<close>

locale score_kernel =
  fixes ok :: "'env \<Rightarrow> bool"
    and normalize :: "double \<Rightarrow> double \<Rightarrow> double \<Rightarrow> double"
    and reduce :: "double list option \<Rightarrow> double"
    and weight :: "'env \<Rightarrow> double \<Rightarrow> double \<Rightarrow> double"
    and standardize :: "double \<Rightarrow> double"
  assumes normalize_unit: "0 \<le> normalize v lo hi \<and> normalize v lo hi \<le> 1"
    and normalize_mono: "v \<le> v' \<Longrightarrow> normalize v lo hi \<le> normalize v' lo hi"
    and reduce_unit: "\<lbrakk>length cs \<le> 2 ^ 52; list_all (\<lambda>c. 0 \<le> c \<and> c \<le> 1) cs\<rbrakk>
          \<Longrightarrow> 0 \<le> reduce (Some cs) \<and> reduce (Some cs) \<le> 1"
    and reduce_mono: "list_all2 (\<le>) cs cs' \<Longrightarrow> reduce (Some cs) \<le> reduce (Some cs')"
    and weight_unit: "\<lbrakk>ok env; 0 \<le> r; r \<le> 1\<rbrakk> \<Longrightarrow> 0 \<le> weight env r u \<and> weight env r u \<le> 1"
    and weight_mono: "\<lbrakk>ok env; r \<le> r'\<rbrakk> \<Longrightarrow> weight env r u \<le> weight env r' u"
    and standardize_range: "0 \<le> standardize w \<and> standardize w \<le> 100"
    and standardize_mono: "w \<le> w' \<Longrightarrow> standardize w \<le> standardize w'"
begin

lemma contribs_unit:
  assumes "0 \<le> n0" "n0 \<le> 1" "0 \<le> n1" "n1 \<le> 1" "0 \<le> n2" "n2 \<le> 1"
  shows "list_all (\<lambda>c. 0 \<le> c \<and> c \<le> 1) (cscore_contribs n0 n1 n2)"
proof -
  have sq: "0 \<le> dmul n n \<and> dmul n n \<le> 1" if "0 \<le> n" "n \<le> 1" for n
    using that by (intro fl_unit_interval) (auto intro: mult_le_one)
  then have "0 \<le> dsub 1 (dmul n2 n2) \<and> dsub 1 (dmul n2 n2) \<le> 1"
    using assms(5,6) by (intro fl_unit_interval) auto
  with sq assms show ?thesis by (simp add: cscore_contribs_def)
qed

lemma contribs_mono:
  assumes "0 \<le> n0" "n0 \<le> n0'" "0 \<le> n1" "n1 \<le> n1'" "0 \<le> n2'" "n2' \<le> n2"
  shows "list_all2 (\<le>) (cscore_contribs n0 n1 n2) (cscore_contribs n0' n1' n2')"
proof -
  have sq: "dmul n n \<le> dmul n' n'" if "0 \<le> n" "n \<le> n'" for n n'
    using that by (intro fl_mono mult_mono) auto
  then have "dsub 1 (dmul n2 n2) \<le> dsub 1 (dmul n2' n2')"
    using assms(5,6) by (intro fl_mono) auto
  with sq assms show ?thesis by (simp add: cscore_contribs_def)
qed

text \<open>The whole pipeline is monotone in each reward and antitone in the penalty.\<close>

lemma pipeline_mono:
  assumes "ok env" "v0 \<le> v0'" "v1 \<le> v1'" "v2' \<le> v2"
  shows "standardize (weight env (reduce (Some (cscore_contribs
            (normalize v0 l0 h0) (normalize v1 l1 h1) (normalize v2 l2 h2)))) u)
       \<le> standardize (weight env (reduce (Some (cscore_contribs
            (normalize v0' l0 h0) (normalize v1' l1 h1) (normalize v2' l2 h2)))) u)"
  using assms normalize_unit
  by (intro standardize_mono weight_mono reduce_mono contribs_mono normalize_mono) auto

end

section \<open>Each stage meets the contract\<close>

lemma normalize_metric_unit:
  "0 \<le> cscore_normalize_metric v lo hi \<and> cscore_normalize_metric v lo hi \<le> 1"
  by (auto simp: cscore_normalize_metric_def Let_def)

lemma normalize_metric_mono:
  assumes "v \<le> v'"
  shows "cscore_normalize_metric v lo hi \<le> cscore_normalize_metric v' lo hi"
proof (cases "dsub hi lo \<le> 0")
  case False
  then have "ddiv (dsub v lo) (dsub hi lo) \<le> ddiv (dsub v' lo) (dsub hi lo)"
    using assms by (intro fl_mono divide_right_mono) (auto intro: fl_mono)
  then show ?thesis by (auto simp: cscore_normalize_metric_def Let_def)
qed (simp add: cscore_normalize_metric_def)

lemma rms_accum_mono:
  "list_all2 (\<le>) cs cs' \<Longrightarrow> a \<le> a' \<Longrightarrow> rms_accum a cs \<le> rms_accum a' cs'"
proof (induction cs cs' arbitrary: a a' rule: list_all2_induct)
  case (Cons x xs y ys)
  then have "dadd a x \<le> dadd a' y" by (intro fl_mono add_mono) auto
  then show ?case using Cons.IH by simp
qed simp

lemma rms_accum_bounds:
  assumes "list_all (\<lambda>c. 0 \<le> c \<and> c \<le> 1) cs" "0 \<le> a" "a \<le> of_nat k" "k + length cs \<le> 2 ^ 52"
  shows "0 \<le> rms_accum a cs \<and> rms_accum a cs \<le> of_nat (k + length cs)"
  using assms
proof (induction cs arbitrary: a k)
  case (Cons c cs)
  have "representable (of_int (int (Suc k)))"
    using Cons.prems(4) by (intro representable_int) simp
  then have "dadd a c \<le> of_nat (Suc k)" using Cons.prems by (intro fl_le_repr) auto
  moreover have "0 \<le> dadd a c" using Cons.prems by auto
  ultimately have "0 \<le> rms_accum (dadd a c) cs \<and> rms_accum (dadd a c) cs \<le> of_nat (Suc k + length cs)"
    using Cons.prems by (intro Cons.IH) auto
  then show ?case by simp
qed simp

lemma fl_of_nat: "n \<le> 2 ^ 53 \<Longrightarrow> fl (of_nat n) = of_nat n"
  using fl_int [of "int n"] by simp

lemma rms_reduce_unit:
  assumes "length cs \<le> 2 ^ 52" "list_all (\<lambda>c. 0 \<le> c \<and> c \<le> 1) cs"
  shows "0 \<le> cscore_rms_reduce (Some cs) \<and> cscore_rms_reduce (Some cs) \<le> 1"
proof (cases "cs = []")
  case False
  let ?n = "of_nat (length cs) :: real"
  have n: "fl ?n = ?n" "0 < ?n" using assms(1) False by (auto intro: fl_of_nat)
  have "0 \<le> rms_accum 0 cs \<and> rms_accum 0 cs \<le> of_nat (0 + length cs)"
    using assms by (intro rms_accum_bounds) auto
  then have "0 \<le> ddiv (rms_accum 0 cs) ?n \<and> ddiv (rms_accum 0 cs) ?n \<le> 1"
    using n by (intro fl_unit_interval) auto
  then have "0 \<le> dsqrt (ddiv (rms_accum 0 cs) ?n) \<and> dsqrt (ddiv (rms_accum 0 cs) ?n) \<le> 1"
    by (intro fl_unit_interval) auto
  with n show ?thesis by (simp add: cscore_rms_reduce_def Let_def)
qed (simp add: cscore_rms_reduce_def)

lemma rms_reduce_mono:
  assumes "list_all2 (\<le>) cs cs'"
  shows "cscore_rms_reduce (Some cs) \<le> cscore_rms_reduce (Some cs')"
proof -
  have len: "length cs = length cs'" using assms by (rule list_all2_lengthD)
  have "ddiv (rms_accum 0 cs) (fl (of_nat (length cs))) \<le> ddiv (rms_accum 0 cs') (fl (of_nat (length cs)))"
    using rms_accum_mono [OF assms, of 0 0] by (intro fl_mono divide_right_mono) auto
  then show ?thesis
    by (auto simp: cscore_rms_reduce_def Let_def len intro!: fl_mono real_sqrt_le_mono)
qed

lemma clamp50_range: "- 50 \<le> clamp50 e" "clamp50 e \<le> 50"
  by (auto simp: clamp50_def Let_def)

lemma clamp50_mono: "e \<le> e' \<Longrightarrow> clamp50 e \<le> clamp50 e'"
  by (auto simp: clamp50_def Let_def)

lemma libm_exp_nonneg:
  assumes "libm_exp_ok env" "- 50 \<le> x" "x \<le> 50"
  shows "0 \<le> libm_exp env x"
proof -
  have "\<bar>libm_exp env x - exp x\<bar> \<le> exp x / 2 ^ 52"
    using assms unfolding libm_exp_ok_def by blast
  moreover have "exp x / 2 ^ 52 \<le> exp x" by simp
  ultimately show ?thesis unfolding abs_le_iff by linarith
qed

lemma sigmoid_unit:
  assumes "libm_exp_ok env"
  shows "0 \<le> ddiv 1 (dadd 1 (libm_exp env (clamp50 e))) \<and> ddiv 1 (dadd 1 (libm_exp env (clamp50 e))) \<le> 1"
proof -
  have "0 \<le> libm_exp env (clamp50 e)"
    using assms clamp50_range by (intro libm_exp_nonneg) auto
  then have "1 \<le> dadd 1 (libm_exp env (clamp50 e))" by (intro fl_ge_repr) auto
  then show ?thesis by (intro fl_unit_interval) auto
qed

lemma chanutil_weight_unit:
  assumes "libm_exp_ok env" "0 \<le> r" "r \<le> 1"
  shows "0 \<le> cscore_chanutil_weight env r u \<and> cscore_chanutil_weight env r u \<le> 1"
  unfolding cscore_chanutil_weight_def Let_def
  using sigmoid_unit [OF assms(1)] assms(2,3)
  by (intro fl_unit_interval) (auto intro: mult_le_one)

lemma chanutil_weight_mono:
  assumes "libm_exp_ok env" "r \<le> r'"
  shows "cscore_chanutil_weight env r u \<le> cscore_chanutil_weight env r' u"
  unfolding cscore_chanutil_weight_def Let_def
  using sigmoid_unit [OF assms(1)] assms(2) by (intro fl_mono mult_right_mono) auto

lemma standardize_bounds: "0 \<le> cscore_standardize w \<and> cscore_standardize w \<le> 100"
  by (auto simp: cscore_standardize_def Let_def CSCORE_SCALE_MIN_def CSCORE_SCALE_MAX_def)

lemma standardize_metric_mono: "w \<le> w' \<Longrightarrow> cscore_standardize w \<le> cscore_standardize w'"
proof -
  assume "w \<le> w'"
  then have "dadd 0 (dmul w (dsub 100 0)) \<le> dadd 0 (dmul w' (dsub 100 0))"
    by (intro fl_mono) (auto intro!: fl_mono mult_right_mono)
  then show ?thesis
    by (auto simp: cscore_standardize_def Let_def CSCORE_SCALE_MIN_def CSCORE_SCALE_MAX_def)
qed

interpretation kernel: score_kernel libm_exp_ok cscore_normalize_metric cscore_rms_reduce
  cscore_chanutil_weight cscore_standardize
  by unfold_locales
    (use normalize_metric_unit normalize_metric_mono rms_reduce_unit rms_reduce_mono
      chanutil_weight_unit chanutil_weight_mono standardize_bounds standardize_metric_mono
      in auto)

section \<open>Properties of the public score\<close>

text \<open>The stages of the public score, as one term for the proofs below.\<close>

lemma scorer_score_eq:
  assumes "metric_scoreable rec"
  shows "wei_conn_scorer_score env (Some rec) =
     word_of_int (c_lround (cscore_standardize (cscore_chanutil_weight env
       (cscore_rms_reduce (Some (cscore_contribs
          (cscore_normalize_metric (of_int (link_snr_db rec)) 0 40)
          (cscore_normalize_metric (d_of_u32 (phy_rate_kbps rec)) 0 866000)
          (cscore_normalize_metric (cscore_instant_per rec) 0 100))))
       (d_of_u8 (chan_util_pct rec)))))"
  using assms by (simp add: wei_conn_scorer_score_def metric_scoreable_def Let_def)

lemma uint_lround_score:
  "uint (word_of_int (c_lround (cscore_standardize w)) :: u8) = c_lround (cscore_standardize w)"
proof -
  have "0 \<le> c_lround (cscore_standardize w) \<and> c_lround (cscore_standardize w) \<le> 100"
    using standardize_bounds [of w] c_lround_bounds [of "cscore_standardize w" 100] by simp
  then show ?thesis by (simp add: uint_word_of_int)
qed

text \<open>
  Every score the kernel returns lies on the published 0-100 scale, for every record
  (including NULL and the gated ones) and every coefficient pair.
\<close>

lemma scorer_score_range: "uint (wei_conn_scorer_score env r) \<le> 100"
proof (cases "\<exists>rec. r = Some rec \<and> metric_scoreable rec")
  case True
  then obtain w where "wei_conn_scorer_score env r = word_of_int (c_lround (cscore_standardize w))"
    using scorer_score_eq by blast
  moreover have "c_lround (cscore_standardize w) \<le> 100"
    using standardize_bounds [of w] by (intro c_lround_bounds) auto
  ultimately show ?thesis by (simp add: uint_lround_score)
next
  case False
  then have "wei_conn_scorer_score env r = 0"
    by (auto simp: wei_conn_scorer_score_def metric_scoreable_def split: option.splits)
  then show ?thesis by simp
qed

text \<open>
  C15. The public score is monotone: a scoreable record with no worse SNR, no worse PHY rate and
  no worse loss percentage, on an equally busy channel, never scores lower. This is the whole
  pipeline in binary64, rounding of every stage included.
\<close>

theorem scorer_score_mono:
  assumes "libm_exp_ok env" "metric_scoreable a" "metric_scoreable b"
    and "link_snr_db a \<le> link_snr_db b"
    and "uint (phy_rate_kbps a) \<le> uint (phy_rate_kbps b)"
    and "cscore_instant_per b \<le> cscore_instant_per a"
    and "chan_util_pct a = chan_util_pct b"
  shows "uint (wei_conn_scorer_score env (Some a)) \<le> uint (wei_conn_scorer_score env (Some b))"
  using assms
  by (simp add: scorer_score_eq uint_lround_score c_lround_mono kernel.pipeline_mono)

theorem scorer_score_mono_witness:
  "uint (wei_conn_scorer_score exact_env (Some (zero_metric_record\<lparr>link_snr_db := 10, tx_frames := 50\<rparr>)))
   \<le> uint (wei_conn_scorer_score exact_env
       (Some (zero_metric_record\<lparr>link_snr_db := 25, phy_rate_kbps := 866000, tx_frames := 7\<rparr>)))"
  by (rule scorer_score_mono)
    (simp_all add: metric_scoreable_def zero_metric_record_def cscore_instant_per_def)

end
