(* ===== verification/Slot_Table.thy ===== *)
theory Slot_Table
  imports Prelude
begin

text \<open>
  Four units of the program keep a fixed array of per-station slots keyed by MAC: the excursion
  tracker, the scorer's membership map, the report cadence table and the lifecycle roster. This
  theory states what such a table promises as interfaces, each unit proves that its own scan loop
  meets them, and the facts every unit needs (keys stay unique, other stations are untouched, a
  full table refuses) are proved here once.
\<close>

section \<open>The abstract reading of an array of slots\<close>

definition slot_of :: "('e \<Rightarrow> bool) \<Rightarrow> ('e \<Rightarrow> mac) \<Rightarrow> 'e list \<Rightarrow> mac \<Rightarrow> nat option" where
  "slot_of used key es m = find_index (\<lambda>e. used e \<and> key e = m) es"

definition free_slot :: "('e \<Rightarrow> bool) \<Rightarrow> 'e list \<Rightarrow> nat option" where
  "free_slot used es = find_index (\<lambda>e. \<not> used e) es"

definition table_keys :: "('e \<Rightarrow> bool) \<Rightarrow> ('e \<Rightarrow> mac) \<Rightarrow> 'e list \<Rightarrow> mac list" where
  "table_keys used key es = map key (filter used es)"

definition unique_keys :: "('e \<Rightarrow> bool) \<Rightarrow> ('e \<Rightarrow> mac) \<Rightarrow> 'e list \<Rightarrow> bool" where
  "unique_keys used key es \<longleftrightarrow> distinct (table_keys used key es)"

lemma slot_of_None_iff: "slot_of used key es m = None \<longleftrightarrow> m \<notin> set (table_keys used key es)"
  by (auto simp: slot_of_def table_keys_def find_index_None_iff)

lemma slot_of_SomeD:
  assumes "slot_of used key es m = Some i"
  shows "i < length es" "used (es ! i)" "key (es ! i) = m"
  using assms find_index_SomeD unfolding slot_of_def by fast+

lemma free_slot_SomeD:
  assumes "free_slot used es = Some i"
  shows "i < length es" "\<not> used (es ! i)"
  using assms find_index_SomeD unfolding free_slot_def by fast+

lemma free_slot_None_iff: "free_slot used es = None \<longleftrightarrow> (\<forall>e \<in> set es. used e)"
  by (simp add: free_slot_def find_index_None_iff)

text \<open>Index form of uniqueness: two used slots with one key are one slot.\<close>

lemma unique_keys_iff:
  "unique_keys used key es \<longleftrightarrow>
     (\<forall>i j. i < length es \<longrightarrow> j < length es \<longrightarrow> used (es ! i) \<longrightarrow> used (es ! j) \<longrightarrow>
        key (es ! i) = key (es ! j) \<longrightarrow> i = j)"
  unfolding unique_keys_def table_keys_def
proof (induction es)
  case (Cons e es)
  show ?case (is "?L = ?R")
  proof
    assume L: ?L
    then have IH: "\<And>i j. i < length es \<Longrightarrow> j < length es \<Longrightarrow> used (es ! i) \<Longrightarrow> used (es ! j) \<Longrightarrow>
        key (es ! i) = key (es ! j) \<Longrightarrow> i = j"
      using Cons.IH by (auto split: if_splits)
    have new: "used e \<Longrightarrow> j < length es \<Longrightarrow> used (es ! j) \<Longrightarrow> key e \<noteq> key (es ! j)" for j
      using L by (auto split: if_splits)
    show ?R
    proof (intro allI impI)
      fix i j assume "i < length (e # es)" "j < length (e # es)" "used ((e # es) ! i)"
        "used ((e # es) ! j)" "key ((e # es) ! i) = key ((e # es) ! j)"
      then show "i = j" using IH new by (cases i; cases j) fastforce+
    qed
  next
    assume R: ?R
    have "\<forall>i j. i < length es \<longrightarrow> j < length es \<longrightarrow> used (es ! i) \<longrightarrow> used (es ! j) \<longrightarrow>
        key (es ! i) = key (es ! j) \<longrightarrow> i = j"
      using R by (metis Suc_inject Suc_mono length_Cons nth_Cons_Suc)
    moreover have "key e \<notin> key ` {x \<in> set es. used x}" if "used e"
    proof
      assume "key e \<in> key ` {x \<in> set es. used x}"
      then obtain j where "j < length es" "used (es ! j)" "key (es ! j) = key e"
        by (auto simp: in_set_conv_nth)
      then show False using R [rule_format, of 0 "Suc j"] that by simp
    qed
    ultimately show ?L using Cons.IH by auto
  qed
qed simp

lemma unique_keys_replicate: "\<not> used z \<Longrightarrow> unique_keys used key (replicate n z)"
  by (simp add: unique_keys_iff)

lemma slot_of_unique:
  assumes "unique_keys used key es" "i < length es" "used (es ! i)" "key (es ! i) = m"
  shows "slot_of used key es m = Some i"
proof (cases "slot_of used key es m")
  case None
  then show ?thesis using assms by (auto simp: slot_of_def find_index_None_iff)
next
  case (Some j)
  with slot_of_SomeD [OF Some] assms show ?thesis by (auto simp: unique_keys_iff)
qed

lemma unique_keys_update_same:
  assumes "unique_keys used key es" "used e \<Longrightarrow> used (es ! i) \<and> key e = key (es ! i)"
  shows "unique_keys used key (es[i := e])"
  unfolding unique_keys_iff
proof (intro allI impI)
  fix a b
  assume ab: "a < length (es[i := e])" "b < length (es[i := e])" "used (es[i := e] ! a)"
    "used (es[i := e] ! b)" "key (es[i := e] ! a) = key (es[i := e] ! b)"
  then show "a = b"
    using assms(1) [unfolded unique_keys_iff, rule_format, of a b] assms(2)
    by (cases "a = i"; cases "b = i") auto
qed

lemma unique_keys_update_new:
  assumes "unique_keys used key es" "slot_of used key es (key e) = None"
  shows "unique_keys used key (es[i := e])"
  unfolding unique_keys_iff
proof (intro allI impI)
  have new: "j < length es \<Longrightarrow> used (es ! j) \<Longrightarrow> key (es ! j) \<noteq> key e" for j
    using assms(2) by (auto simp: slot_of_def find_index_None_iff)
  fix a b
  assume ab: "a < length (es[i := e])" "b < length (es[i := e])" "used (es[i := e] ! a)"
    "used (es[i := e] ! b)" "key (es[i := e] ! a) = key (es[i := e] ! b)"
  then show "a = b"
    using assms(1) [unfolded unique_keys_iff, rule_format, of a b] new [of a] new [of b]
    by (cases "a = i"; cases "b = i") auto
qed

lemma table_keys_update:
  assumes "i < length es" "used (es ! i)" "used e" "key e = key (es ! i)"
  shows "table_keys used key (es[i := e]) = table_keys used key es"
  using assms unfolding table_keys_def
proof (induction es arbitrary: i)
  case (Cons x es)
  then show ?case by (cases i) auto
qed simp

lemma slot_of_update_other:
  assumes "i < length es" "used e \<Longrightarrow> key e \<noteq> m" "used (es ! i) \<Longrightarrow> key (es ! i) \<noteq> m"
  shows "slot_of used key (es[i := e]) m = slot_of used key es m"
  unfolding slot_of_def
proof (rule find_index_cong)
  fix j assume "j < length (es[i := e])"
  then show "(used (es[i := e] ! j) \<and> key (es[i := e] ! j) = m) = (used (es ! j) \<and> key (es ! j) = m)"
    using assms by (cases "i = j") auto
qed simp

text \<open>The table as a map: the entry a key has, if any.\<close>

definition slot_view :: "('e \<Rightarrow> bool) \<Rightarrow> ('e \<Rightarrow> mac) \<Rightarrow> 'e list \<Rightarrow> mac \<Rightarrow> 'e option" where
  "slot_view used key es m = map_option (\<lambda>i. es ! i) (slot_of used key es m)"

lemma slot_view_Some: "slot_of used key es m = Some i \<Longrightarrow> slot_view used key es m = Some (es ! i)"
  by (simp add: slot_view_def)

lemma slot_view_None_iff: "slot_view used key es m = None \<longleftrightarrow> m \<notin> set (table_keys used key es)"
  by (simp add: slot_view_def slot_of_None_iff)

lemma slot_view_update:
  assumes "unique_keys used key es" "slot_of used key es m = Some i" "used e" "key e = m"
  shows "slot_view used key (es[i := e]) m' = (if m' = m then Some e else slot_view used key es m')"
proof -
  note i = slot_of_SomeD [OF assms(2)]
  have "unique_keys used key (es[i := e])" using assms i by (intro unique_keys_update_same) auto
  then have "slot_of used key (es[i := e]) m = Some i" using i assms by (intro slot_of_unique) auto
  moreover have "slot_of used key (es[i := e]) m' = slot_of used key es m'" if "m' \<noteq> m"
    using i assms(3,4) that by (intro slot_of_update_other) auto
  moreover have "j \<noteq> i" if "m' \<noteq> m" "slot_of used key es m' = Some j" for j
    using that i slot_of_SomeD(3) [OF that(2)] by auto
  ultimately show ?thesis using i(1) by (auto simp: slot_view_def map_option_case split: option.splits)
qed

section \<open>The single-pass scan\<close>

text \<open>
  The loop three of the units share: one pass that remembers the first free slot and stops at
  the slot of \<open>m\<close>. The result is the matching index, if any, and the remembered free index.
\<close>

fun scan_slots :: "('e \<Rightarrow> bool) \<Rightarrow> ('e \<Rightarrow> mac) \<Rightarrow> mac \<Rightarrow> nat \<Rightarrow> nat option \<Rightarrow> 'e list
    \<Rightarrow> nat option \<times> nat option" where
  "scan_slots used key m i free [] = (None, free)"
| "scan_slots used key m i free (e # es) =
     (if \<not> used e then scan_slots used key m (Suc i) (if free = None then Some i else free) es
      else if key e = m then (Some i, free)
      else scan_slots used key m (Suc i) free es)"

lemma scan_slots_match:
  "fst (scan_slots used key m i free es) = map_option (\<lambda>j. i + j) (slot_of used key es m)"
  by (induction es arbitrary: i free)
    (auto simp: slot_of_def map_option_case split: option.splits)

lemma scan_slots_free:
  "slot_of used key es m = None \<Longrightarrow> snd (scan_slots used key m i free es) =
     (case free of Some j \<Rightarrow> Some j | None \<Rightarrow> map_option (\<lambda>j. i + j) (free_slot used es))"
  by (induction es arbitrary: i free)
    (auto simp: slot_of_def free_slot_def map_option_case split: option.splits if_splits)

lemma scan_slots_0:
  "slot_of used key es m = Some i \<Longrightarrow> \<exists>f. scan_slots used key m 0 None es = (Some i, f)"
  "slot_of used key es m = None \<Longrightarrow> scan_slots used key m 0 None es = (None, free_slot used es)"
  using scan_slots_match [of used key m 0 None es] scan_slots_free [of used key es m 0 None]
  by (cases "scan_slots used key m 0 None es"; simp add: map_option_case split: option.splits)+

section \<open>A table that admits keys\<close>

text \<open>
  \<open>admit es m x\<close> is the unit's find-or-claim scan: the slot of \<open>m\<close> if it has one (refreshed by
  \<open>touch\<close>), else the first free slot filled by \<open>fresh\<close>, else nothing. \<open>x\<close> is what the call
  carries besides the key, a timestamp for most units.
\<close>

locale keyed_table =
  fixes used :: "'e \<Rightarrow> bool"
    and key :: "'e \<Rightarrow> mac"
    and touch :: "'x \<Rightarrow> 'e \<Rightarrow> 'e"
    and fresh :: "mac \<Rightarrow> 'x \<Rightarrow> 'e \<Rightarrow> 'e"
    and admit :: "'e list \<Rightarrow> mac \<Rightarrow> 'x \<Rightarrow> 'e list \<times> nat option"
  assumes used_touch: "used (touch x e) = used e"
    and key_touch: "key (touch x e) = key e"
    and used_fresh: "used (fresh m x e)"
    and key_fresh: "key (fresh m x e) = m"
    and admit_hit: "slot_of used key es m = Some i \<Longrightarrow> admit es m x = (es[i := touch x (es ! i)], Some i)"
    and admit_claim: "\<lbrakk>slot_of used key es m = None; free_slot used es = Some i\<rbrakk>
          \<Longrightarrow> admit es m x = (es[i := fresh m x (es ! i)], Some i)"
    and admit_full: "\<lbrakk>slot_of used key es m = None; free_slot used es = None\<rbrakk>
          \<Longrightarrow> admit es m x = (es, None)"
begin

lemma admit_cases:
  obtains (hit) i where "slot_of used key es m = Some i" "admit es m x = (es[i := touch x (es ! i)], Some i)"
    "i < length es" "used (es ! i)" "key (es ! i) = m"
  | (claim) i where "slot_of used key es m = None" "admit es m x = (es[i := fresh m x (es ! i)], Some i)"
    "i < length es" "\<not> used (es ! i)"
  | (full) "slot_of used key es m = None" "admit es m x = (es, None)" "\<forall>e \<in> set es. used e"
proof (cases "slot_of used key es m")
  case None
  show ?thesis
  proof (cases "free_slot used es")
    case None
    with \<open>slot_of used key es m = None\<close> full admit_full show ?thesis
      by (simp add: free_slot_None_iff)
  next
    case (Some i)
    with \<open>slot_of used key es m = None\<close> claim admit_claim free_slot_SomeD [OF Some] show ?thesis
      by blast
  qed
next
  case (Some i)
  with hit admit_hit slot_of_SomeD [OF Some] show ?thesis by blast
qed

lemma admit_length: "length (fst (admit es m x)) = length es"
  by (rule admit_cases [of es m x]) auto

lemma admit_slot:
  assumes "admit es m x = (es', Some i)"
  shows "i < length es'" "used (es' ! i)" "key (es' ! i) = m"
  by (rule admit_cases [of es m x]; use assms in \<open>auto simp: used_touch key_touch used_fresh key_fresh\<close>)+

lemma admit_frame:
  assumes "admit es m x = (es', r)" "r \<noteq> Some j"
  shows "es' ! j = es ! j"
  by (rule admit_cases [of es m x]) (use assms in auto)

lemma admit_unique:
  assumes "unique_keys used key es"
  shows "unique_keys used key (fst (admit es m x))"
  by (rule admit_cases [of es m x])
    (use assms in \<open>auto simp: used_touch key_touch key_fresh
      intro: unique_keys_update_same unique_keys_update_new\<close>)

lemma admit_None_iff:
  "snd (admit es m x) = None \<longleftrightarrow> m \<notin> set (table_keys used key es) \<and> (\<forall>e \<in> set es. used e)"
  by (rule admit_cases [of es m x]) (auto simp: slot_of_None_iff [symmetric])

lemma admit_found:
  assumes "unique_keys used key es" "admit es m x = (es', Some i)"
  shows "slot_of used key es' m = Some i"
  using admit_unique [OF assms(1), of m x] admit_slot [OF assms(2)] assms(2)
  by (intro slot_of_unique) auto

lemma admit_slot_of:
  assumes "unique_keys used key es"
  shows "slot_of used key (fst (admit es m x)) m = snd (admit es m x)"
proof (cases "snd (admit es m x)")
  case None
  then have "fst (admit es m x) = es" "m \<notin> set (table_keys used key es)"
    by - (rule admit_cases [of es m x]; auto simp: slot_of_None_iff)+
  with None show ?thesis by (simp add: slot_of_None_iff)
next
  case (Some i)
  then show ?thesis using admit_found [OF assms, of m x "fst (admit es m x)" i] by (simp add: prod_eq_iff)
qed

lemma admit_other:
  assumes "m' \<noteq> m"
  shows "slot_of used key (fst (admit es m x)) m' = slot_of used key es m'"
  by (rule admit_cases [of es m x])
    (use assms in \<open>auto simp: key_touch key_fresh intro!: slot_of_update_other\<close>)

lemma admit_keys: "set (table_keys used key (fst (admit es m x))) \<subseteq> insert m (set (table_keys used key es))"
proof (rule admit_cases [of es m x])
  fix i assume "admit es m x = (es[i := touch x (es ! i)], Some i)" "i < length es" "used (es ! i)" "key (es ! i) = m"
  then show ?thesis
    by (auto simp: table_keys_def key_touch in_set_conv_nth nth_list_update split: if_splits)
next
  fix i assume "admit es m x = (es[i := fresh m x (es ! i)], Some i)" "i < length es"
  then show ?thesis
    by (auto simp: table_keys_def key_fresh in_set_conv_nth nth_list_update split: if_splits)
qed auto

lemma admit_keys_eq:
  "set (table_keys used key (fst (admit es m x))) =
     (if snd (admit es m x) = None then set (table_keys used key es) else insert m (set (table_keys used key es)))"
proof (rule admit_cases [of es m x])
  fix i assume i: "slot_of used key es m = Some i" "admit es m x = (es[i := touch x (es ! i)], Some i)"
    "i < length es" "used (es ! i)" "key (es ! i) = m"
  then show ?thesis
    using slot_of_None_iff [of used key es m]
    by (simp add: table_keys_update used_touch key_touch insert_absorb)
next
  fix i assume i: "admit es m x = (es[i := fresh m x (es ! i)], Some i)" "i < length es" "\<not> used (es ! i)"
  have "set (es[i := e]) = insert e (set (take i es) \<union> set (drop (Suc i) es))" for e
    using i(2) by (simp add: upd_conv_take_nth_drop)
  moreover have "set es = insert (es ! i) (set (take i es) \<union> set (drop (Suc i) es))"
    using i(2) by (metis id_take_nth_drop list.simps(15) set_append Un_insert_right)
  ultimately show ?thesis
    using i(1,3) by (auto simp: table_keys_def used_fresh key_fresh intro: rev_image_eqI)
qed simp

lemma admit_view_other:
  assumes "m' \<noteq> m"
  shows "slot_view used key (fst (admit es m x)) m' = slot_view used key es m'"
proof (rule admit_cases [of es m x])
  fix i assume i: "slot_of used key es m = Some i" "admit es m x = (es[i := touch x (es ! i)], Some i)" "key (es ! i) = m"
  have "j \<noteq> i" if "slot_of used key es m' = Some j" for j using that assms i(3) slot_of_SomeD(3) by fastforce
  then show ?thesis using admit_other [OF assms, of es x] i(2)
    by (auto simp: slot_view_def map_option_case split: option.splits)
next
  fix i assume i: "admit es m x = (es[i := fresh m x (es ! i)], Some i)" "\<not> used (es ! i)"
  have "j \<noteq> i" if "slot_of used key es m' = Some j" for j using that i(2) slot_of_SomeD(2) by fastforce
  then show ?thesis using admit_other [OF assms, of es x] i(1)
    by (auto simp: slot_view_def map_option_case split: option.splits)
qed simp

text \<open>A table with room for every station that ever appears refuses none of them.\<close>

lemma admit_room:
  assumes "unique_keys used key es" "finite M" "card M \<le> length es" "m \<in> M"
    and "set (table_keys used key es) \<subseteq> M"
  shows "\<exists>i. snd (admit es m x) = Some i"
proof (cases "snd (admit es m x)")
  case None
  then have full: "m \<notin> set (table_keys used key es)" "\<forall>e \<in> set es. used e" by (auto simp: admit_None_iff)
  then have "length (table_keys used key es) = length es" by (simp add: table_keys_def)
  then have "card (set (table_keys used key es)) = length es"
    using assms(1) by (simp add: unique_keys_def distinct_card)
  moreover have "card (insert m (set (table_keys used key es))) \<le> card M"
    using assms(2,4,5) by (intro card_mono) auto
  ultimately show ?thesis using full(1) assms(3) by simp
qed auto

end

section \<open>A table that also ages its entries\<close>

locale aging_table = keyed_table used key touch fresh admit
  for used :: "'e \<Rightarrow> bool"
    and key :: "'e \<Rightarrow> mac"
    and touch :: "int \<Rightarrow> 'e \<Rightarrow> 'e"
    and fresh :: "mac \<Rightarrow> int \<Rightarrow> 'e \<Rightarrow> 'e"
    and admit :: "'e list \<Rightarrow> mac \<Rightarrow> int \<Rightarrow> 'e list \<times> nat option" +
  fixes stamp :: "'e \<Rightarrow> int"
    and blank :: "'e"
    and reap :: "'e list \<Rightarrow> int \<Rightarrow> int \<Rightarrow> 'e list"
  assumes blank_free: "\<not> used blank"
    and stamp_touch: "stamp (touch t e) = t"
    and stamp_fresh: "stamp (fresh m t e) = t"
    and reap_nth: "i < length es \<Longrightarrow> reap es now absence ! i =
          (if used (es ! i) \<and> now - stamp (es ! i) > absence then blank else es ! i)"
    and reap_length: "length (reap es now absence) = length es"
begin

lemma reap_unique: "unique_keys used key es \<Longrightarrow> unique_keys used key (reap es now absence)"
  unfolding unique_keys_iff by (auto simp: reap_nth reap_length blank_free split: if_splits)

lemma reap_keeps:
  assumes "i < length es" "used (es ! i)" "now - stamp (es ! i) \<le> absence"
  shows "reap es now absence ! i = es ! i"
  using assms by (simp add: reap_nth)

text \<open>After a reap every live entry was seen within the absence window.\<close>

lemma reap_fresh_only:
  assumes "i < length es" "used (reap es now absence ! i)"
  shows "now - stamp (reap es now absence ! i) \<le> absence" "reap es now absence ! i = es ! i"
  using assms by (auto simp: reap_nth blank_free split: if_splits)

text \<open>Which stations a reap keeps.\<close>

lemma reap_slot_of:
  assumes "unique_keys used key es"
  shows "slot_of used key (reap es now absence) m =
    (case slot_of used key es m of
       None \<Rightarrow> None
     | Some i \<Rightarrow> if now - stamp (es ! i) \<le> absence then Some i else None)"
proof (cases "slot_of used key (reap es now absence) m")
  case (Some i)
  note i = slot_of_SomeD [OF Some]
  have "i < length es" using i(1) by (simp add: reap_length)
  from reap_fresh_only [OF this i(2)] have r: "now - stamp (es ! i) \<le> absence" "reap es now absence ! i = es ! i"
    by simp_all
  then have "slot_of used key es m = Some i"
    using i \<open>i < length es\<close> assms by (intro slot_of_unique) auto
  with r Some show ?thesis by simp
next
  case None
  have "absence < now - stamp (es ! i)" if "slot_of used key es m = Some i" for i
  proof (rule ccontr)
    assume "\<not> absence < now - stamp (es ! i)"
    note i = slot_of_SomeD [OF that]
    then have "reap es now absence ! i = es ! i" using \<open>\<not> absence < _\<close> by (intro reap_keeps) auto
    then have "slot_of used key (reap es now absence) m = Some i"
      using i reap_unique [OF assms] by (intro slot_of_unique) (auto simp: reap_length)
    with None show False by simp
  qed
  then show ?thesis using None by (auto split: option.splits)
qed

text \<open>A station admitted within the window survives the reap in its slot.\<close>

lemma admit_reap_survives:
  assumes "unique_keys used key es" "admit es m t = (es', Some i)" "now - t \<le> absence"
  shows "slot_of used key (reap es' now absence) m = Some i"
proof -
  have i: "i < length es'" "used (es' ! i)" "key (es' ! i) = m" using admit_slot [OF assms(2)] .
  have "stamp (es' ! i) = t"
    by (rule admit_cases [of es m t]) (use assms(2) in \<open>auto simp: stamp_touch stamp_fresh\<close>)
  then have "reap es' now absence ! i = es' ! i" using i assms(3) by (intro reap_keeps) auto
  moreover have "unique_keys used key es'"
    using admit_unique [OF assms(1), of m t] assms(2) by simp
  ultimately show ?thesis using i by (intro slot_of_unique reap_unique) (auto simp: reap_length)
qed

lemma reap_view:
  assumes "unique_keys used key es"
  shows "slot_view used key (reap es now absence) m =
    (case slot_view used key es m of
       None \<Rightarrow> None | Some e \<Rightarrow> if now - stamp e \<le> absence then Some e else None)"
proof (cases "slot_of used key es m")
  case (Some i)
  then show ?thesis
    using reap_slot_of [OF assms, of now absence m] slot_of_SomeD [OF Some]
    by (simp add: slot_view_def reap_keeps)
qed (use reap_slot_of [OF assms, of now absence m] in \<open>simp add: slot_view_def\<close>)

lemma admit_stamp: "admit es m t = (es', Some i) \<Longrightarrow> stamp (es' ! i) = t"
  by (rule admit_cases [of es m t]) (auto simp: stamp_touch stamp_fresh)

lemma admit_reap_slot_of:
  assumes "unique_keys used key es" "0 \<le> absence"
  shows "slot_of used key (reap (fst (admit es m t)) t absence) m = snd (admit es m t)"
proof (cases "snd (admit es m t)")
  case None
  then have "slot_of used key (fst (admit es m t)) m = None"
    using admit_slot_of [OF assms(1), of m t] by simp
  then have "i < length (fst (admit es m t)) \<Longrightarrow> used (fst (admit es m t) ! i) \<Longrightarrow>
      key (fst (admit es m t) ! i) \<noteq> m" for i
    by (auto simp: slot_of_def find_index_None_iff)
  then show ?thesis using None
    by (fastforce simp: slot_of_def find_index_None_iff in_set_conv_nth reap_length reap_nth blank_free
        split: if_splits)
next
  case (Some i)
  then show ?thesis
    using admit_reap_survives [OF assms(1), of m t "fst (admit es m t)" i t absence] assms(2)
    by (simp add: prod_eq_iff)
qed

end

end
