(* ===== verification/Track.thy ===== *)
theory Track
  imports Slot_Table
begin

text \<open>
  The crossing-with-duration tracker (source/wei_track.c): a fixed table of per-station ledger
  entries, and the excursion state machine of one entry. A pointer into the table is the index
  of the entry. \<open>int64_t\<close> times are \<open>int\<close>: they are differences and sums of millisecond
  readings of one monotonic clock, and the theories Clock and Life_Clock show that they fit.
  Functions whose name ends in \<open>_ptr\<close> are the entry points with their NULL checks.
\<close>

definition WEI_TRACK_MAX_CLIENTS :: nat where
  "WEI_TRACK_MAX_CLIENTS = 64"

definition WEI_TRACK_ABSENCE_DEFAULT_MS :: int where
  "WEI_TRACK_ABSENCE_DEFAULT_MS = 30000"

record wei_track_entry =
  te_mac :: mac
  te_in_use :: bool
  te_last_seen :: int
  te_start_ts :: int
  te_accumulated :: int
  te_count :: u32

record wei_track_table =
  entries :: "wei_track_entry list"

record wei_track_record =
  tr_count :: u32
  tr_duration_ms :: int

definition zero_track_entry :: wei_track_entry where [zero_defs]:
  "zero_track_entry =
     \<lparr>te_mac = zero_mac, te_in_use = False, te_last_seen = 0, te_start_ts = 0,
      te_accumulated = 0, te_count = 0\<rparr>"

definition zero_track_table :: wei_track_table where
  "zero_track_table = \<lparr>entries = replicate WEI_TRACK_MAX_CLIENTS zero_track_entry\<rparr>"

section \<open>Operations\<close>

definition wei_track_init :: "wei_track_table option \<Rightarrow> wei_track_table option" where
  "wei_track_init table = (case table of None \<Rightarrow> None | Some _ \<Rightarrow> Some zero_track_table)"

definition track_fresh :: "mac \<Rightarrow> int \<Rightarrow> wei_track_entry" where
  "track_fresh m now_ms = zero_track_entry\<lparr>te_mac := m, te_in_use := True, te_last_seen := now_ms\<rparr>"

definition wei_track_get :: "wei_track_table \<Rightarrow> mac \<Rightarrow> int \<Rightarrow> wei_track_table \<times> nat option" where
  "wei_track_get table m now_ms =
     (case scan_slots te_in_use te_mac m 0 None (entries table) of
        (Some i, _) \<Rightarrow>
          (table\<lparr>entries := (entries table)[i := (entries table ! i)\<lparr>te_last_seen := now_ms\<rparr>]\<rparr>, Some i)
      | (None, None) \<Rightarrow> (table, None)
      | (None, Some slot) \<Rightarrow>
          (table\<lparr>entries := (entries table)[slot := track_fresh m now_ms]\<rparr>, Some slot))"

definition wei_track_get_ptr ::
    "wei_track_table option \<Rightarrow> mac option \<Rightarrow> int \<Rightarrow> wei_track_table option \<times> nat option" where
  "wei_track_get_ptr table m now_ms =
     (case (table, m) of
        (Some t, Some k) \<Rightarrow> (case wei_track_get t k now_ms of (t', r) \<Rightarrow> (Some t', r))
      | _ \<Rightarrow> (table, None))"

definition wei_track_reap :: "wei_track_table \<Rightarrow> int \<Rightarrow> int \<Rightarrow> wei_track_table" where
  "wei_track_reap table now_ms absence_ms =
     table\<lparr>entries := map (\<lambda>e. if te_in_use e \<and> now_ms - te_last_seen e > absence_ms
                              then zero_track_entry else e) (entries table)\<rparr>"

definition wei_track_tick :: "wei_track_entry \<Rightarrow> int \<Rightarrow> int \<Rightarrow> int \<Rightarrow> int \<Rightarrow> wei_track_entry" where
  "wei_track_tick e metric now_ms band floor_ms =
     (if metric < band then
        (if te_start_ts e = 0 then e\<lparr>te_start_ts := now_ms, te_count := te_count e + 1\<rparr> else e)
      else if te_start_ts e \<noteq> 0 then
        (let elapsed = now_ms - te_start_ts e;
             e1 = (if elapsed \<ge> floor_ms
                   then e\<lparr>te_accumulated := te_accumulated e + elapsed\<rparr> else e)
         in e1\<lparr>te_start_ts := 0\<rparr>)
      else e)"

definition wei_track_collect :: "wei_track_entry \<Rightarrow> wei_track_entry \<times> wei_track_record" where
  "wei_track_collect e =
     (e\<lparr>te_count := 0, te_accumulated := 0\<rparr>,
      \<lparr>tr_count = te_count e, tr_duration_ms = te_accumulated e\<rparr>)"

definition wei_track_reap_ptr :: "wei_track_table option \<Rightarrow> int \<Rightarrow> int \<Rightarrow> wei_track_table option" where
  "wei_track_reap_ptr table now_ms absence_ms =
     (case table of None \<Rightarrow> None | Some t \<Rightarrow> Some (wei_track_reap t now_ms absence_ms))"

definition wei_track_tick_ptr ::
    "wei_track_entry option \<Rightarrow> int \<Rightarrow> int \<Rightarrow> int \<Rightarrow> int \<Rightarrow> wei_track_entry option" where
  "wei_track_tick_ptr e metric now_ms band floor_ms =
     (case e of None \<Rightarrow> None | Some e \<Rightarrow> Some (wei_track_tick e metric now_ms band floor_ms))"

definition wei_track_collect_ptr ::
    "wei_track_entry option \<Rightarrow> wei_track_record option
      \<Rightarrow> wei_track_entry option \<times> wei_track_record option" where
  "wei_track_collect_ptr e out =
     (case (e, out) of
        (Some e, Some _) \<Rightarrow> (case wei_track_collect e of (e', r) \<Rightarrow> (Some e', Some r))
      | _ \<Rightarrow> (e, out))"

section \<open>The table meets the aging-table contract\<close>

definition track_admit :: "wei_track_entry list \<Rightarrow> mac \<Rightarrow> int \<Rightarrow> wei_track_entry list \<times> nat option" where
  "track_admit es m now_ms = (case wei_track_get \<lparr>entries = es\<rparr> m now_ms of (t, r) \<Rightarrow> (entries t, r))"

definition track_reap_list :: "wei_track_entry list \<Rightarrow> int \<Rightarrow> int \<Rightarrow> wei_track_entry list" where
  "track_reap_list es now_ms absence_ms = entries (wei_track_reap \<lparr>entries = es\<rparr> now_ms absence_ms)"

lemma track_get_admit:
  "wei_track_get table m now_ms =
     (table\<lparr>entries := fst (track_admit (entries table) m now_ms)\<rparr>,
      snd (track_admit (entries table) m now_ms))"
  by (simp add: track_admit_def wei_track_get_def split: prod.splits option.splits)

interpretation track_tbl: aging_table te_in_use te_mac
  "\<lambda>t e. e\<lparr>te_last_seen := t\<rparr>" "\<lambda>m t _. track_fresh m t" track_admit
  te_last_seen zero_track_entry track_reap_list
proof unfold_locales
  fix es :: "wei_track_entry list" and m i and x :: int
  show "track_admit es m x = (es[i := (es ! i)\<lparr>te_last_seen := x\<rparr>], Some i)"
    if "slot_of te_in_use te_mac es m = Some i"
    using scan_slots_0(1) [OF that] by (auto simp: track_admit_def wei_track_get_def)
  show "track_admit es m x = (es[i := track_fresh m x], Some i)"
    if "slot_of te_in_use te_mac es m = None" "free_slot te_in_use es = Some i"
    using scan_slots_0(2) [OF that(1)] that(2) by (simp add: track_admit_def wei_track_get_def)
  show "track_admit es m x = (es, None)"
    if "slot_of te_in_use te_mac es m = None" "free_slot te_in_use es = None"
    using scan_slots_0(2) [OF that(1)] that(2) by (simp add: track_admit_def wei_track_get_def)
qed (auto simp: track_fresh_def zero_track_entry_def track_reap_list_def wei_track_reap_def)

definition track_table_wf :: "wei_track_table \<Rightarrow> bool" where
  "track_table_wf t \<longleftrightarrow>
     length (entries t) = WEI_TRACK_MAX_CLIENTS \<and> unique_keys te_in_use te_mac (entries t)"

lemma track_init_wf [wei_inv]: "track_table_wf zero_track_table"
  by (simp add: track_table_wf_def zero_track_table_def unique_keys_replicate zero_track_entry_def)

lemma track_get_wf [wei_inv]: "track_table_wf t \<Longrightarrow> track_table_wf (fst (wei_track_get t m now_ms))"
  by (simp add: track_table_wf_def track_get_admit track_tbl.admit_length track_tbl.admit_unique)

lemma track_reap_eq: "wei_track_reap t now_ms a = t\<lparr>entries := track_reap_list (entries t) now_ms a\<rparr>"
  by (simp add: track_reap_list_def wei_track_reap_def)

lemma track_reap_wf [wei_inv]: "track_table_wf t \<Longrightarrow> track_table_wf (wei_track_reap t now_ms a)"
  by (simp add: track_table_wf_def track_reap_eq track_tbl.reap_length track_tbl.reap_unique)

text \<open>Writing back an entry whose key and liveness are unchanged.\<close>

lemma track_update_wf [wei_inv]:
  assumes "track_table_wf t" "te_mac e = te_mac (entries t ! i)" "te_in_use e = te_in_use (entries t ! i)"
  shows "track_table_wf (t\<lparr>entries := (entries t)[i := e]\<rparr>)"
  using assms unfolding track_table_wf_def by (auto intro: unique_keys_update_same)

lemma track_tick_frame [simp]:
  "te_mac (wei_track_tick e v now_ms band fl_ms) = te_mac e"
  "te_in_use (wei_track_tick e v now_ms band fl_ms) = te_in_use e"
  "te_last_seen (wei_track_tick e v now_ms band fl_ms) = te_last_seen e"
  by (simp_all add: wei_track_tick_def Let_def)

lemma track_collect_frame [simp]:
  "te_mac (fst (wei_track_collect e)) = te_mac e"
  "te_in_use (fst (wei_track_collect e)) = te_in_use e"
  "te_last_seen (fst (wei_track_collect e)) = te_last_seen e"
  "te_start_ts (fst (wei_track_collect e)) = te_start_ts e"
  by (simp_all add: wei_track_collect_def)

section \<open>What the excursion machine promises\<close>

text \<open>
  Abstract reading of a sample sequence \<open>ss\<close> of (metric, time) pairs: an excursion is a maximal
  run of samples below the band; it opens at its first sample and closes at the first sample
  back within the band. Only the closed ones that lasted at least the floor count.
\<close>

definition below :: "int \<Rightarrow> (int \<times> int) list \<Rightarrow> nat \<Rightarrow> bool" where
  "below band ss k \<longleftrightarrow> fst (ss ! k) < band"

definition onset :: "int \<Rightarrow> (int \<times> int) list \<Rightarrow> nat \<Rightarrow> bool" where
  "onset band ss i \<longleftrightarrow> i < length ss \<and> below band ss i \<and> (i = 0 \<or> \<not> below band ss (i - 1))"

definition open_run :: "int \<Rightarrow> (int \<times> int) list \<Rightarrow> nat \<Rightarrow> bool" where
  "open_run band ss i \<longleftrightarrow> onset band ss i \<and> (\<forall>k \<in> {i..<length ss}. below band ss k)"

definition excursion :: "int \<Rightarrow> (int \<times> int) list \<Rightarrow> nat \<times> nat \<Rightarrow> bool" where
  "excursion band ss p \<longleftrightarrow>
     (case p of (i, j) \<Rightarrow> onset band ss i \<and> i < j \<and> j < length ss \<and>
        (\<forall>k \<in> {i..<j}. below band ss k) \<and> \<not> below band ss j)"

definition lasted :: "(int \<times> int) list \<Rightarrow> nat \<times> nat \<Rightarrow> int" where
  "lasted ss p = (case p of (i, j) \<Rightarrow> snd (ss ! j) - snd (ss ! i))"

definition excursions :: "int \<Rightarrow> (int \<times> int) list \<Rightarrow> (nat \<times> nat) set" where
  "excursions band ss = {p \<in> {..<length ss} \<times> {..<length ss}. excursion band ss p}"

definition sustained_ms :: "int \<Rightarrow> int \<Rightarrow> (int \<times> int) list \<Rightarrow> int" where
  "sustained_ms band floor_ms ss =
     (\<Sum>p \<in> excursions band ss. if lasted ss p \<ge> floor_ms then lasted ss p else 0)"

definition onsets :: "int \<Rightarrow> (int \<times> int) list \<Rightarrow> nat set" where
  "onsets band ss = {i \<in> {..<length ss}. onset band ss i}"

text \<open>One client's ticks over a sequence of samples, with no collection in between.\<close>

definition track_run :: "int \<Rightarrow> int \<Rightarrow> wei_track_entry \<Rightarrow> (int \<times> int) list \<Rightarrow> wei_track_entry" where
  "track_run band floor_ms e ss =
     foldl (\<lambda>e (v, t). wei_track_tick e v t band floor_ms) e ss"

lemma track_run_snoc:
  "track_run band fl_ms e (ss @ [s]) = wei_track_tick (track_run band fl_ms e ss) (fst s) (snd s) band fl_ms"
  by (simp add: track_run_def split: prod.splits)

lemma below_snoc [simp]:
  "k < length ss \<Longrightarrow> below band (ss @ [s]) k = below band ss k"
  "below band (ss @ [s]) (length ss) \<longleftrightarrow> fst s < band"
  "below band [s] 0 \<longleftrightarrow> fst s < band"
  by (simp_all add: below_def nth_append)

lemma onset_snoc:
  "onset band (ss @ [s]) i \<longleftrightarrow> onset band ss i \<or>
     (i = length ss \<and> fst s < band \<and> (ss = [] \<or> \<not> below band ss (length ss - 1)))"
  unfolding onset_def by (cases "ss = []") (auto simp: less_Suc_eq)

lemma open_run_unique:
  assumes "open_run band ss i" "open_run band ss j"
  shows "i = j"
proof -
  have no: False if "open_run band ss i" "open_run band ss j" "i < j" for i j
  proof -
    have "j - 1 \<in> {i..<length ss}" using that by (auto simp: open_run_def onset_def)
    with that show False by (auto simp: open_run_def onset_def)
  qed
  show ?thesis using no [of i j] no [of j i] assms by fastforce
qed

lemma open_run_last: "open_run band ss i \<Longrightarrow> ss \<noteq> [] \<and> below band ss (length ss - 1)"
  by (force simp: open_run_def onset_def)

lemma open_run_snoc:
  "open_run band (ss @ [s]) i \<longleftrightarrow> fst s < band \<and>
     (open_run band ss i \<or> (i = length ss \<and> (ss = [] \<or> \<not> below band ss (length ss - 1))))"
  unfolding open_run_def onset_snoc
  by (auto simp: onset_def atLeastLessThanSuc)

lemma open_run_exists: "ss \<noteq> [] \<Longrightarrow> below band ss (length ss - 1) \<Longrightarrow> \<exists>i. open_run band ss i"
proof (induction ss rule: rev_induct)
  case (snoc s ss)
  then show ?case by (cases "ss = [] \<or> \<not> below band ss (length ss - 1)") (auto simp: open_run_snoc)
qed simp

lemma excursions_snoc:
  "excursions band (ss @ [s]) = excursions band ss \<union>
     (if fst s < band then {} else (\<lambda>i. (i, length ss)) ` {i. open_run band ss i})"
  unfolding excursions_def excursion_def open_run_def onset_snoc
  by (auto simp: less_Suc_eq onset_def Ball_def split: if_splits)

lemma finite_excursions [simp]: "finite (excursions band ss)"
  by (rule finite_subset [of _ "{..<length ss} \<times> {..<length ss}"]) (auto simp: excursions_def)

lemma lasted_snoc [simp]:
  "i < length ss \<Longrightarrow> j < length ss \<Longrightarrow> lasted (ss @ [s]) (i, j) = lasted ss (i, j)"
  "i < length ss \<Longrightarrow> lasted (ss @ [s]) (i, length ss) = snd s - snd (ss ! i)"
  by (simp_all add: lasted_def nth_append)

lemma sustained_snoc:
  "sustained_ms band fl_ms (ss @ [s]) = sustained_ms band fl_ms ss +
     (if fst s < band then 0
      else \<Sum>i \<in> {i. open_run band ss i}.
             (if snd s - snd (ss ! i) \<ge> fl_ms then snd s - snd (ss ! i) else 0))"
proof -
  let ?new = "(\<lambda>i. (i, length ss)) ` {i. open_run band ss i}"
  let ?f = "\<lambda>ss p. if lasted ss p \<ge> fl_ms then lasted ss p else 0"
  have fin: "finite {i. open_run band ss i}"
    by (rule finite_subset [of _ "{..<length ss}"]) (auto simp: open_run_def onset_def)
  have old: "(\<Sum>p \<in> excursions band ss. ?f (ss @ [s]) p) = sustained_ms band fl_ms ss"
    unfolding sustained_ms_def by (rule sum.cong) (auto simp: excursions_def)
  have disj: "excursions band ss \<inter> ?new = {}" by (auto simp: excursions_def)
  have "(\<Sum>p \<in> ?new. ?f (ss @ [s]) p) =
      (\<Sum>i \<in> {i. open_run band ss i}. (if snd s - snd (ss ! i) \<ge> fl_ms then snd s - snd (ss ! i) else 0))"
    by (subst sum.reindex) (auto simp: inj_on_def open_run_def onset_def intro!: sum.cong)
  then show ?thesis
    using old disj fin by (simp add: sustained_ms_def excursions_snoc sum.union_disjoint)
qed

lemma onsets_snoc:
  "onsets band (ss @ [s]) = onsets band ss \<union>
     (if fst s < band \<and> (ss = [] \<or> \<not> below band ss (length ss - 1)) then {length ss} else {})"
  unfolding onsets_def onset_snoc by (auto simp: onset_def)

lemma finite_onsets [simp]: "finite (onsets band ss)"
  by (rule finite_subset [of _ "{..<length ss}"]) (auto simp: onsets_def)

text \<open>The simulation: the ledger entry stores exactly the abstract reading of the samples so far.\<close>

definition track_reads :: "int \<Rightarrow> int \<Rightarrow> (int \<times> int) list \<Rightarrow> wei_track_entry \<Rightarrow> bool" where
  "track_reads band floor_ms ss e \<longleftrightarrow>
     te_count e = of_nat (card (onsets band ss)) \<and>
     te_accumulated e = sustained_ms band floor_ms ss \<and>
     (if ss \<noteq> [] \<and> below band ss (length ss - 1)
      then \<exists>i. open_run band ss i \<and> te_start_ts e = snd (ss ! i)
      else te_start_ts e = 0)"

lemma track_reads_snoc:
  assumes reads: "track_reads band fl_ms ss e" and pos: "\<forall>s \<in> set (ss @ [s]). snd s \<noteq> 0"
  shows "track_reads band fl_ms (ss @ [s]) (wei_track_tick e (fst s) (snd s) band fl_ms)"
proof (cases "ss \<noteq> [] \<and> below band ss (length ss - 1)")
  case True
  then obtain i where i: "open_run band ss i" "te_start_ts e = snd (ss ! i)"
    using reads by (auto simp: track_reads_def)
  have "i < length ss" using i(1) by (simp add: open_run_def onset_def)
  then have ts: "te_start_ts e \<noteq> 0" using i(2) pos by auto
  have uniq: "{j. open_run band ss j} = {i}" using i(1) open_run_unique by blast
  have "open_run band (ss @ [s]) i \<and> (ss @ [s]) ! i = ss ! i" if "fst s < band"
    using i(1) \<open>i < length ss\<close> that by (simp add: open_run_snoc nth_append)
  then show ?thesis
    using reads True ts i uniq
    unfolding track_reads_def wei_track_tick_def Let_def sustained_snoc onsets_snoc
    by (cases "fst s < band") auto
next
  case False
  then have start: "te_start_ts e = 0" using reads by (auto simp: track_reads_def)
  have "{j. open_run band ss j} = {}" using open_run_last False by blast
  then have none: "(\<Sum>j \<in> Collect (open_run band ss). g j) = 0" for g :: "nat \<Rightarrow> int"
    by (metis sum.empty)
  have notin: "length ss \<notin> onsets band ss" by (simp add: onsets_def)
  show ?thesis
  proof (cases "fst s < band")
    case True
    then have "open_run band (ss @ [s]) (length ss)" using False by (auto simp: open_run_snoc)
    then show ?thesis
      using reads False True start notin
      unfolding track_reads_def wei_track_tick_def sustained_snoc onsets_snoc
      by (auto intro!: exI [of _ "length ss"])
  next
    case ge: False
    then show ?thesis
      using reads False start
      unfolding track_reads_def wei_track_tick_def sustained_snoc onsets_snoc
      by (auto simp: none)
  qed
qed

lemma track_reads_run:
  assumes "te_start_ts e = 0" "te_accumulated e = 0" "te_count e = 0" "\<forall>s \<in> set ss. snd s \<noteq> 0"
  shows "track_reads band fl_ms ss (track_run band fl_ms e ss)"
  using assms(4)
proof (induction ss rule: rev_induct)
  case Nil
  then show ?case
    using assms by (simp add: track_reads_def track_run_def sustained_ms_def excursions_def onsets_def)
next
  case (snoc s ss)
  then show ?case unfolding track_run_snoc by (intro track_reads_snoc) auto
qed

section \<open>Collection loses nothing\<close>

text \<open>Reporting intervals: each ends with one collection, the entry carries on.\<close>

fun track_intervals ::
    "int \<Rightarrow> int \<Rightarrow> wei_track_entry \<Rightarrow> (int \<times> int) list list \<Rightarrow> wei_track_record list" where
  "track_intervals band floor_ms e [] = []"
| "track_intervals band floor_ms e (ss # sss) =
     (case wei_track_collect (track_run band floor_ms e ss) of
        (e', r) \<Rightarrow> r # track_intervals band floor_ms e' sss)"

text \<open>Ticks never read the two collected fields, they only add to them.\<close>

lemma track_tick_shift:
  "wei_track_tick (e\<lparr>te_count := te_count e + c, te_accumulated := te_accumulated e + a\<rparr>) v t band fl_ms =
     (let e' = wei_track_tick e v t band fl_ms
      in e'\<lparr>te_count := te_count e' + c, te_accumulated := te_accumulated e' + a\<rparr>)"
  by (simp add: wei_track_tick_def Let_def)

lemma track_run_shift:
  "track_run band fl_ms (e\<lparr>te_count := te_count e + c, te_accumulated := te_accumulated e + a\<rparr>) ss =
     (let e' = track_run band fl_ms e ss
      in e'\<lparr>te_count := te_count e' + c, te_accumulated := te_accumulated e' + a\<rparr>)"
proof (induction ss rule: rev_induct)
  case Nil
  then show ?case by (simp add: track_run_def)
next
  case (snoc s ss)
  then show ?case by (simp add: track_run_snoc track_tick_shift Let_def)
qed

lemma track_run_append: "track_run band fl_ms e (xs @ ys) = track_run band fl_ms (track_run band fl_ms e xs) ys"
  by (simp add: track_run_def)

lemma track_collect_shift:
  "fst (wei_track_collect e) = e\<lparr>te_count := te_count e + (- te_count e),
     te_accumulated := te_accumulated e + (- te_accumulated e)\<rparr>"
  by (simp add: wei_track_collect_def)

lemma track_intervals_sum:
  assumes "te_count e = 0" "te_accumulated e = 0"
  shows "sum_list (map tr_count (track_intervals band fl_ms e sss)) =
           te_count (track_run band fl_ms e (concat sss)) \<and>
         sum_list (map tr_duration_ms (track_intervals band fl_ms e sss)) =
           te_accumulated (track_run band fl_ms e (concat sss))"
  using assms
proof (induction sss arbitrary: e)
  case Nil
  then show ?case by (simp add: track_run_def)
next
  case (Cons ss sss)
  let ?r = "track_run band fl_ms e ss" and ?c = "fst (wei_track_collect (track_run band fl_ms e ss))"
  have zero: "te_count ?c = 0" "te_accumulated ?c = 0" by (simp_all add: wei_track_collect_def)
  have "track_run band fl_ms ?c (concat sss) = (let e' = track_run band fl_ms ?r (concat sss)
      in e'\<lparr>te_count := te_count e' + (- te_count ?r), te_accumulated := te_accumulated e' + (- te_accumulated ?r)\<rparr>)"
    unfolding track_collect_shift by (rule track_run_shift)
  moreover have "tr_count (snd (wei_track_collect ?r)) = te_count ?r"
    "tr_duration_ms (snd (wei_track_collect ?r)) = te_accumulated ?r"
    by (simp_all add: wei_track_collect_def)
  ultimately show ?case
    using Cons.IH [OF zero] by (simp add: track_run_append Let_def case_prod_beta)
qed

text \<open>
  C9. The tracker implements crossing-with-duration: a station's ticks are split into reporting
  intervals in any way, the onset counts reported add up to the number of maximal below-band
  runs (modulo the counter's width) and the durations reported add up to the total length of the
  closed runs that lasted at least the floor; brief runs contribute nothing and a run that
  spans a collection is neither lost nor counted twice. The clock never reads 0.
\<close>

theorem track_intervals_total:
  assumes "\<forall>s \<in> set (concat sss). snd s \<noteq> 0"
  shows "sum_list (map tr_duration_ms (track_intervals band fl_ms (track_fresh m t0) sss)) =
           sustained_ms band fl_ms (concat sss) \<and>
         sum_list (map tr_count (track_intervals band fl_ms (track_fresh m t0) sss)) =
           of_nat (card (onsets band (concat sss)))"
proof -
  have fresh: "te_start_ts (track_fresh m t0) = 0" "te_accumulated (track_fresh m t0) = 0"
    "te_count (track_fresh m t0) = 0"
    by (simp_all add: track_fresh_def zero_track_entry_def)
  show ?thesis
    using track_intervals_sum [OF fresh(3,2), of band fl_ms sss] track_reads_run [OF fresh assms, of band fl_ms]
    by (simp add: track_reads_def)
qed

theorem track_intervals_total_witness:
  "sum_list (map tr_count (track_intervals (- 5) 100 (track_fresh zero_mac 1)
     [[(0, 10), (- 9, 20)], [(- 7, 50), (1, 400)]])) = 1"
proof -
  let ?s = "[[(0, 10), (- 9, 20)], [(- 7, 50), (1, 400)]] :: (int \<times> int) list list"
  have "onsets (- 5) (concat ?s) = {1}"
    by (auto simp: onsets_def onset_def below_def less_Suc_eq nth_Cons' split: if_splits)
  then show ?thesis using track_intervals_total [of ?s "- 5" 100 zero_mac 1] by simp
qed

section \<open>The sentinel\<close>

text \<open>
  An onset at clock reading 0 is stored as "not open": every further below-band tick counts a
  new onset and the run's first part is not timed.
\<close>

lemma track_tick_clock_zero:
  "track_run band fl_ms (track_fresh m 0) [(band - 1, 0), (band - 1, 10), (band, 30)] =
     (track_fresh m 0)\<lparr>te_count := 2, te_accumulated := (if fl_ms \<le> 20 then 20 else 0)\<rparr>"
  by (simp add: track_run_def wei_track_tick_def track_fresh_def zero_track_entry_def Let_def)

section \<open>The table\<close>



end
