(* ===== verification/Infer_Types.thy ===== *)
theory Infer_Types
  imports Conn_Scorer Track
begin

text \<open>
  The inference engine's data contract (include/wei_infer.h): verdicts, contributors, policy,
  per-tick result, per-client state, membership slots and the verdict-episode ledger.
  \<open>uint8_t\<close> flags that only ever hold 0 or 1 (\<open>primed\<close>, \<open>in_use\<close>, \<open>alarm\<close>,
  \<open>video_degrade\<close>, \<open>disconnected\<close>) are \<open>bool\<close>.
\<close>

datatype wei_infer_verdict = WEI_INFER_VERDICT_SMOOTH | WEI_INFER_VERDICT_DEGRADED

datatype wei_infer_contributor =
    WEI_INFER_CONTRIB_NONE
  | WEI_INFER_CONTRIB_SNR
  | WEI_INFER_CONTRIB_PHY
  | WEI_INFER_CONTRIB_PKT_ERR
  | WEI_INFER_CONTRIB_CHAN_UTIL

text \<open>The cast \<open>(wei_infer_contributor_t)n\<close> for the values the code computes.\<close>

fun wei_infer_contributor_of :: "nat \<Rightarrow> wei_infer_contributor" where
  "wei_infer_contributor_of n =
     (if n = 1 then WEI_INFER_CONTRIB_SNR
      else if n = 2 then WEI_INFER_CONTRIB_PHY
      else if n = 3 then WEI_INFER_CONTRIB_PKT_ERR
      else if n = 4 then WEI_INFER_CONTRIB_CHAN_UTIL
      else WEI_INFER_CONTRIB_NONE)"

record wei_infer_policy =
  tput_var_band :: int
  tput_floor_ms :: int
  latency_score_band :: u8
  latency_sustain_ticks :: u16
  video_degrade_band :: u8

text \<open>A policy whose band can be negated.\<close>

definition infer_policy_ok :: "wei_infer_policy \<Rightarrow> bool" where
  "infer_policy_ok p \<longleftrightarrow> tput_var_band p \<noteq> - (2 ^ 31)"

record wei_infer_result =
  ir_score :: u8
  ir_verdict :: wei_infer_verdict
  ir_dominant :: wei_infer_contributor
  ir_video_degrade :: bool
  ir_pkt_err_pct :: u8

definition zero_infer_result :: wei_infer_result where [zero_defs]:
  "zero_infer_result =
     \<lparr>ir_score = 0, ir_verdict = WEI_INFER_VERDICT_SMOOTH, ir_dominant = WEI_INFER_CONTRIB_NONE,
      ir_video_degrade = False, ir_pkt_err_pct = 0\<rparr>"

definition WEI_INFER_METRIC_COUNT :: nat where "WEI_INFER_METRIC_COUNT = 3"
definition WEI_INFER_PERR_WINDOW :: nat where "WEI_INFER_PERR_WINDOW = 8"
definition WEI_INFER_PHY_WINDOW :: nat where "WEI_INFER_PHY_WINDOW = 8"
definition WEI_INFER_EPISODE_CAP :: nat where "WEI_INFER_EPISODE_CAP = 8"

record wei_infer_band =
  b_lo :: double
  b_hi :: double
  b_primed :: bool

definition zero_infer_band :: wei_infer_band where [zero_defs]:
  "zero_infer_band = \<lparr>b_lo = 0, b_hi = 0, b_primed = False\<rparr>"

text \<open>The three running bands, in the slot order SNR, PHY rate, packet-error rate.\<close>

record wei_infer_client =
  norm_band0 :: wei_infer_band
  norm_band1 :: wei_infer_band
  norm_band2 :: wei_infer_band
  perr_frames :: "u32 list"
  perr_errs :: "u32 list"
  perr_head :: u8
  perr_fill :: u8
  phy_window :: "u32 list"
  phy_head :: u8
  phy_fill :: u8
  threshold_cross :: u16
  alarm :: bool
  disconnected :: bool
  disconnect_ts :: int
  reconnect_ramp :: u16

definition zero_infer_client :: wei_infer_client where
  "zero_infer_client =
     \<lparr>norm_band0 = zero_infer_band, norm_band1 = zero_infer_band, norm_band2 = zero_infer_band,
      perr_frames = replicate WEI_INFER_PERR_WINDOW 0, perr_errs = replicate WEI_INFER_PERR_WINDOW 0,
      perr_head = 0, perr_fill = 0,
      phy_window = replicate WEI_INFER_PHY_WINDOW 0, phy_head = 0, phy_fill = 0,
      threshold_cross = 0, alarm = False, disconnected = False, disconnect_ts = 0,
      reconnect_ramp = 0\<rparr>"

record wei_infer_slot =
  sl_mac :: mac
  sl_in_use :: bool
  sl_last_seen :: int
  sl_state :: wei_infer_client

definition zero_infer_slot :: wei_infer_slot where
  "zero_infer_slot =
     \<lparr>sl_mac = zero_mac, sl_in_use = False, sl_last_seen = 0, sl_state = zero_infer_client\<rparr>"

record wei_infer_map =
  map_slots :: "wei_infer_slot list"
  map_count :: u8

record wei_infer_episode =
  ep_start_ms :: int
  ep_stop_ms :: int

record wei_infer_episode_log =
  lg_ring :: "wei_infer_episode list"
  lg_head :: u8
  lg_fill :: u8
  lg_episodes :: u32

definition zero_infer_episode :: wei_infer_episode where [zero_defs]:
  "zero_infer_episode = \<lparr>ep_start_ms = 0, ep_stop_ms = 0\<rparr>"

definition zero_episode_log :: wei_infer_episode_log where
  "zero_episode_log =
     \<lparr>lg_ring = replicate WEI_INFER_EPISODE_CAP zero_infer_episode,
      lg_head = 0, lg_fill = 0, lg_episodes = 0\<rparr>"

end
