(* ===== verification/Ring.thy ===== *)
theory Ring
  imports Prelude
begin

text \<open>
  Fixed-capacity ring windows indexed by a write head and a saturating fill count. The interface
  \<open>ring_window\<close> states what one push does to the three fields; the facts below relate the fields
  to the abstract window, the list of retained samples from oldest to newest.
\<close>

definition ring_ok :: "nat \<Rightarrow> 'a list \<Rightarrow> nat \<Rightarrow> nat \<Rightarrow> bool" where
  "ring_ok cap buf head fill \<longleftrightarrow>
     length buf = cap \<and> head < cap \<and> fill \<le> cap \<and> (fill < cap \<longrightarrow> head = fill)"

definition ring_contents :: "'a list \<Rightarrow> nat \<Rightarrow> nat \<Rightarrow> 'a list" where
  "ring_contents buf head fill =
     (if fill < length buf then take fill buf else drop head buf @ take head buf)"

text \<open>Keeping the newest \<open>cap\<close> samples of a history.\<close>

definition keep_last :: "nat \<Rightarrow> 'a list \<Rightarrow> 'a list" where
  "keep_last cap xs = drop (length xs - cap) xs"

lemma length_keep_last: "length (keep_last cap xs) = min cap (length xs)"
  by (simp add: keep_last_def)

lemma keep_last_snoc:
  "0 < cap \<Longrightarrow> keep_last cap (xs @ [v]) =
     (if length xs < cap then keep_last cap xs @ [v] else tl (keep_last cap xs) @ [v])"
  by (auto simp: keep_last_def drop_Suc tl_drop Suc_diff_le)

lemma ring_contents_length: "ring_ok cap buf head fill \<Longrightarrow> length (ring_contents buf head fill) = fill"
  by (auto simp: ring_ok_def ring_contents_def)

lemma ring_contents_set:
  "ring_ok cap buf head fill \<Longrightarrow> set (ring_contents buf head fill) = set (take fill buf)"
  unfolding ring_ok_def ring_contents_def
  by (auto simp flip: set_append) (metis Un_iff append_take_drop_id set_append)+

lemma ring_contents_mset_sum:
  fixes f :: "'a \<Rightarrow> int"
  assumes "ring_ok cap buf head fill"
  shows "sum_list (map f (ring_contents buf head fill)) = sum_list (map f (take fill buf))"
proof (cases "fill < length buf")
  case False
  have "sum_list (map f buf) = sum_list (map f (take head buf)) + sum_list (map f (drop head buf))"
    by (metis append_take_drop_id map_append sum_list_append)
  then show ?thesis using False by (simp add: ring_contents_def)
qed (simp add: ring_contents_def)

lemma ring_newest:
  assumes "ring_ok cap buf head fill" "0 < fill"
  shows "buf ! ((head + cap - 1) mod cap) = last (ring_contents buf head fill)"
proof (cases "fill < cap")
  case True
  then have "head + cap - 1 = (fill - 1) + cap" "fill - 1 < cap"
    using assms by (auto simp: ring_ok_def)
  then have "(head + cap - 1) mod cap = fill - 1" by (metis mod_add_self2 mod_less)
  moreover have "take fill buf \<noteq> []" using True assms by (auto simp: ring_ok_def)
  ultimately show ?thesis using True assms by (simp add: ring_ok_def ring_contents_def last_conv_nth)
next
  case full: False
  show ?thesis
  proof (cases "head = 0")
    case True
    then show ?thesis using full assms by (auto simp: ring_ok_def ring_contents_def last_conv_nth)
  next
    case False
    then have "head + cap - 1 = (head - 1) + cap" "head - 1 < cap"
      using assms by (auto simp: ring_ok_def)
    then have "(head + cap - 1) mod cap = head - 1" by (metis mod_add_self2 mod_less)
    then show ?thesis using False full assms
      by (auto simp: ring_ok_def ring_contents_def last_append last_conv_nth)
  qed
qed

lemma ring_oldest:
  assumes "ring_ok cap buf head fill" "0 < fill"
  shows "buf ! (if fill < cap then 0 else head) = hd (ring_contents buf head fill)"
proof -
  have "buf \<noteq> []" using assms by (auto simp: ring_ok_def)
  then show ?thesis using assms
    by (auto simp: ring_ok_def ring_contents_def hd_append hd_drop_conv_nth hd_conv_nth [symmetric])
qed

locale ring_window =
  fixes cap :: nat
    and buf :: "'s \<Rightarrow> 'a list"
    and head :: "'s \<Rightarrow> nat"
    and fill :: "'s \<Rightarrow> nat"
    and push :: "'a \<Rightarrow> 's \<Rightarrow> 's"
  assumes cap_pos: "0 < cap"
    and buf_push: "length (buf s) = cap \<Longrightarrow> buf (push v s) = (buf s)[head s := v]"
    and head_push: "head (push v s) = (head s + 1) mod cap"
    and fill_push: "fill (push v s) = (if fill s < cap then fill s + 1 else fill s)"
begin

lemma push_ok:
  assumes "ring_ok cap (buf s) (head s) (fill s)"
  shows "ring_ok cap (buf (push v s)) (head (push v s)) (fill (push v s))"
  using assms cap_pos by (auto simp: ring_ok_def buf_push head_push fill_push mod_if)

lemma push_contents:
  assumes ok: "ring_ok cap (buf s) (head s) (fill s)"
  shows "ring_contents (buf (push v s)) (head (push v s)) (fill (push v s)) =
     (if fill s < cap then ring_contents (buf s) (head s) (fill s) @ [v]
      else tl (ring_contents (buf s) (head s) (fill s)) @ [v])"
proof -
  have len: "length (buf s) = cap" and h: "head s < cap" using ok by (auto simp: ring_ok_def)
  note steps = buf_push [OF len] head_push fill_push
  consider "fill s + 1 < cap" | "fill s + 1 = cap" | "fill s = cap"
    using ok by (fastforce simp: ring_ok_def)
  then show ?thesis
  proof cases
    case 1
    then show ?thesis using ok len by (simp add: ring_ok_def ring_contents_def steps take_Suc_conv_app_nth)
  next
    case 2
    then show ?thesis using ok len
      by (simp add: ring_ok_def ring_contents_def steps upd_conv_take_nth_drop flip: 2)
  next
    case 3
    have split: "drop (head s) (buf s) = buf s ! head s # drop (Suc (head s)) (buf s)"
      using h len by (simp add: Cons_nth_drop_Suc)
    show ?thesis
    proof (cases "head s + 1 = cap")
      case True
      then show ?thesis using 3 len h
        by (auto simp: ring_contents_def steps split take_Suc_conv_app_nth [symmetric]
            simp flip: True) (simp add: list_update_append1 upd_conv_take_nth_drop)
    next
      case False
      then have "(head s + 1) mod cap = head s + 1" using h by simp
      then show ?thesis using 3 len h
        by (simp add: ring_contents_def steps split take_Suc_conv_app_nth)
    qed
  qed
qed

text \<open>After any history of pushes into an empty window, the window is the history's newest part.\<close>

lemma run_contents:
  assumes "ring_ok cap (buf s) (head s) (fill s)" "fill s = 0"
  shows "ring_ok cap (buf (foldl (\<lambda>s v. push v s) s vs)) (head (foldl (\<lambda>s v. push v s) s vs))
           (fill (foldl (\<lambda>s v. push v s) s vs)) \<and>
         fill (foldl (\<lambda>s v. push v s) s vs) = min cap (length vs) \<and>
         ring_contents (buf (foldl (\<lambda>s v. push v s) s vs)) (head (foldl (\<lambda>s v. push v s) s vs))
           (fill (foldl (\<lambda>s v. push v s) s vs)) = keep_last cap vs"
proof (induction vs rule: rev_induct)
  case Nil
  then show ?case using assms cap_pos by (simp add: keep_last_def ring_contents_def ring_ok_def)
next
  case (snoc v vs)
  define s' where "s' = foldl (\<lambda>s v. push v s) s vs"
  have IH: "ring_ok cap (buf s') (head s') (fill s')" "fill s' = min cap (length vs)"
    "ring_contents (buf s') (head s') (fill s') = keep_last cap vs"
    using snoc.IH by (auto simp: s'_def)
  have "fill (push v s') = min cap (length (vs @ [v]))" using IH(2) by (auto simp: fill_push)
  moreover have "ring_contents (buf (push v s')) (head (push v s')) (fill (push v s')) = keep_last cap (vs @ [v])"
    using push_contents [OF IH(1)] IH(2,3) cap_pos by (auto simp: keep_last_snoc)
  moreover have "ring_ok cap (buf (push v s')) (head (push v s')) (fill (push v s'))"
    using IH(1) by (rule push_ok)
  ultimately show ?case unfolding foldl_append foldl.simps s'_def [symmetric] by simp
qed

end

end
