(* ===== verification/Infer_Window.thy ===== *)
theory Infer_Window
  imports Infer_Types Ring
begin

text \<open>
  The per-client sample windows and bands of source/wei_infer.c: the packet-error counter ring,
  the uplink-PHY ring, the interval loss rate, the PHY mean and variance, and the running
  normalisation band.
\<close>

section \<open>Pushes\<close>

definition wei_infer_perr_push :: "wei_infer_client \<Rightarrow> u32 \<Rightarrow> u32 \<Rightarrow> wei_infer_client" where
  "wei_infer_perr_push st frames errs =
     (let h = unat (perr_head st);
          st = st\<lparr>perr_frames := (perr_frames st)[h := frames]\<rparr>;
          st = st\<lparr>perr_errs := (perr_errs st)[h := errs]\<rparr>;
          st = st\<lparr>perr_head := word_of_nat ((h + 1) mod WEI_INFER_PERR_WINDOW)\<rparr>
      in if unat (perr_fill st) < WEI_INFER_PERR_WINDOW
         then st\<lparr>perr_fill := perr_fill st + 1\<rparr> else st)"

definition wei_infer_phy_push :: "wei_infer_client \<Rightarrow> u32 \<Rightarrow> wei_infer_client" where
  "wei_infer_phy_push st v =
     (let h = unat (phy_head st);
          st = st\<lparr>phy_window := (phy_window st)[h := v]\<rparr>;
          st = st\<lparr>phy_head := word_of_nat ((h + 1) mod WEI_INFER_PHY_WINDOW)\<rparr>
      in if unat (phy_fill st) < WEI_INFER_PHY_WINDOW
         then st\<lparr>phy_fill := phy_fill st + 1\<rparr> else st)"

lemma unat_inc_u8: "unat (w :: u8) < 8 \<Longrightarrow> unat (w + 1) = unat w + 1"
  by (simp add: unat_word_ariths)

lemma unat_mod8 [simp]: "unat (word_of_nat (n mod 8) :: u8) = n mod 8"
  by (simp add: unat_of_nat)

interpretation phy: ring_window WEI_INFER_PHY_WINDOW phy_window
  "\<lambda>s. unat (phy_head s)" "\<lambda>s. unat (phy_fill s)" "\<lambda>v s. wei_infer_phy_push s v"
  by unfold_locales (auto simp: wei_infer_phy_push_def Let_def WEI_INFER_PHY_WINDOW_def unat_inc_u8)

text \<open>The counter window is one ring of (frames, errors) pairs kept as two arrays.\<close>

definition perr_pairs :: "wei_infer_client \<Rightarrow> (u32 \<times> u32) list" where
  "perr_pairs st = zip (perr_frames st) (perr_errs st)"

lemma zip_update_both: "zip (xs[i := a]) (ys[i := b]) = (zip xs ys)[i := (a, b)]"
  by (simp add: update_zip)

interpretation perr: ring_window WEI_INFER_PERR_WINDOW perr_pairs
  "\<lambda>s. unat (perr_head s)" "\<lambda>s. unat (perr_fill s)" "\<lambda>(f, e) s. wei_infer_perr_push s f e"
  by unfold_locales
    (auto simp: wei_infer_perr_push_def Let_def WEI_INFER_PERR_WINDOW_def unat_inc_u8
      perr_pairs_def zip_update_both)

text \<open>The windows of a client, oldest sample first.\<close>

definition phy_samples :: "wei_infer_client \<Rightarrow> u32 list" where
  "phy_samples st = ring_contents (phy_window st) (unat (phy_head st)) (unat (phy_fill st))"

definition perr_samples :: "wei_infer_client \<Rightarrow> (u32 \<times> u32) list" where
  "perr_samples st = ring_contents (perr_pairs st) (unat (perr_head st)) (unat (perr_fill st))"

definition windows_ok :: "wei_infer_client \<Rightarrow> bool" where
  "windows_ok st \<longleftrightarrow>
     ring_ok WEI_INFER_PHY_WINDOW (phy_window st) (unat (phy_head st)) (unat (phy_fill st)) \<and>
     ring_ok WEI_INFER_PERR_WINDOW (perr_pairs st) (unat (perr_head st)) (unat (perr_fill st)) \<and>
     length (perr_frames st) = WEI_INFER_PERR_WINDOW \<and> length (perr_errs st) = WEI_INFER_PERR_WINDOW"

section \<open>Loss rate\<close>

definition wei_infer_perr_rate :: "wei_infer_client \<Rightarrow> double" where
  "wei_infer_perr_rate st =
     (if unat (perr_fill st) < 2 then 0
      else
        let newest = (unat (perr_head st) + WEI_INFER_PERR_WINDOW - 1) mod WEI_INFER_PERR_WINDOW;
            oldest = (if unat (perr_fill st) < WEI_INFER_PERR_WINDOW then 0 else unat (perr_head st));
            d_frames = (if perr_frames st ! newest \<ge> perr_frames st ! oldest
                        then perr_frames st ! newest - perr_frames st ! oldest else 0);
            d_errs = (if perr_errs st ! newest \<ge> perr_errs st ! oldest
                      then perr_errs st ! newest - perr_errs st ! oldest else 0)
        in if d_frames + d_errs = 0 then 0
           else dmul (ddiv (d_of_u32 d_errs) (d_of_u32 (d_frames + d_errs))) 100)"

section \<open>PHY mean and instability\<close>

text \<open>The running sum is a \<open>uint64_t\<close>.\<close>

fun phy_sum :: "64 word \<Rightarrow> u32 list \<Rightarrow> 64 word" where
  "phy_sum acc [] = acc"
| "phy_sum acc (v # vs) = phy_sum (acc + ucast v) vs"

definition wei_infer_phy_mean :: "wei_infer_client \<Rightarrow> double" where
  "wei_infer_phy_mean st =
     (let acc = phy_sum 0 (take (unat (phy_fill st)) (phy_window st))
      in if phy_fill st \<noteq> 0 then ddiv (fl (of_int (uint acc))) (d_of_u8 (phy_fill st)) else 0)"

fun var_accum :: "double \<Rightarrow> double \<Rightarrow> u32 list \<Rightarrow> double" where
  "var_accum mean accum [] = accum"
| "var_accum mean accum (v # vs) =
     (let d = dsub (d_of_u32 v) mean in var_accum mean (dadd accum (dmul d d)) vs)"

text \<open>The cast to \<open>int32_t\<close> is undefined out of range: \<open>None\<close>.\<close>

definition wei_infer_phy_instability :: "wei_infer_client \<Rightarrow> int option" where
  "wei_infer_phy_instability st =
     (if unat (phy_fill st) < 2 then Some 0
      else
        let mean = wei_infer_phy_mean st;
            accum = var_accum mean 0 (take (unat (phy_fill st)) (phy_window st))
        in c_int32_of (ddiv (ddiv accum (d_of_u8 (phy_fill st))) 1000000))"

section \<open>The running band\<close>

definition wei_infer_band_widen :: "wei_infer_band \<Rightarrow> double \<Rightarrow> wei_infer_band" where
  "wei_infer_band_widen b v =
     (if \<not> b_primed b then b\<lparr>b_lo := v, b_hi := v, b_primed := True\<rparr>
      else let b = (if v < b_lo b then b\<lparr>b_lo := v\<rparr> else b);
               b = (if v > b_hi b then b\<lparr>b_hi := v\<rparr> else b)
           in b)"

section \<open>The windows hold the newest samples\<close>

lemma zero_client_windows: "windows_ok zero_infer_client" "phy_samples zero_infer_client = []"
  "perr_samples zero_infer_client = []"
  by (simp_all add: windows_ok_def zero_infer_client_def ring_ok_def perr_pairs_def
      WEI_INFER_PHY_WINDOW_def WEI_INFER_PERR_WINDOW_def phy_samples_def perr_samples_def
      ring_contents_def)

lemma perr_push_phy [simp]:
  "phy_window (wei_infer_perr_push st f e) = phy_window st"
  "phy_head (wei_infer_perr_push st f e) = phy_head st"
  "phy_fill (wei_infer_perr_push st f e) = phy_fill st"
  by (simp_all add: wei_infer_perr_push_def Let_def)

lemma phy_push_perr [simp]:
  "perr_frames (wei_infer_phy_push st v) = perr_frames st"
  "perr_errs (wei_infer_phy_push st v) = perr_errs st"
  "perr_head (wei_infer_phy_push st v) = perr_head st"
  "perr_fill (wei_infer_phy_push st v) = perr_fill st"
  "perr_pairs (wei_infer_phy_push st v) = perr_pairs st"
  by (simp_all add: wei_infer_phy_push_def Let_def perr_pairs_def)

lemma push_frame [simp]:
  "norm_band0 (wei_infer_phy_push st v) = norm_band0 st"
  "norm_band1 (wei_infer_phy_push st v) = norm_band1 st"
  "norm_band2 (wei_infer_phy_push st v) = norm_band2 st"
  "reconnect_ramp (wei_infer_phy_push st v) = reconnect_ramp st"
  "threshold_cross (wei_infer_phy_push st v) = threshold_cross st"
  "alarm (wei_infer_phy_push st v) = alarm st"
  "norm_band0 (wei_infer_perr_push st f e) = norm_band0 st"
  "norm_band1 (wei_infer_perr_push st f e) = norm_band1 st"
  "norm_band2 (wei_infer_perr_push st f e) = norm_band2 st"
  "reconnect_ramp (wei_infer_perr_push st f e) = reconnect_ramp st"
  "threshold_cross (wei_infer_perr_push st f e) = threshold_cross st"
  "alarm (wei_infer_perr_push st f e) = alarm st"
  by (simp_all add: wei_infer_perr_push_def wei_infer_phy_push_def Let_def)

lemma perr_push_length [simp]:
  "length (perr_frames (wei_infer_perr_push st f e)) = length (perr_frames st)"
  "length (perr_errs (wei_infer_perr_push st f e)) = length (perr_errs st)"
  by (simp_all add: wei_infer_perr_push_def Let_def)

lemma phy_push_ok [wei_inv]: "windows_ok st \<Longrightarrow> windows_ok (wei_infer_phy_push st v)"
  using phy.push_ok [of st v] by (simp add: windows_ok_def)

lemma perr_push_ok [wei_inv]: "windows_ok st \<Longrightarrow> windows_ok (wei_infer_perr_push st f e)"
  using perr.push_ok [of st "(f, e)"] by (simp add: windows_ok_def)

definition slide :: "nat \<Rightarrow> 'a list \<Rightarrow> 'a \<Rightarrow> 'a list" where
  "slide cap xs v = (if length xs < cap then xs @ [v] else tl xs @ [v])"

lemma slide_keep_last: "0 < cap \<Longrightarrow> slide cap (keep_last cap xs) v = keep_last cap (xs @ [v])"
  by (auto simp: slide_def keep_last_snoc length_keep_last)

lemma phy_samples_length: "windows_ok st \<Longrightarrow> length (phy_samples st) = unat (phy_fill st)"
  unfolding windows_ok_def phy_samples_def by (blast intro: ring_contents_length)

lemma perr_samples_length: "windows_ok st \<Longrightarrow> length (perr_samples st) = unat (perr_fill st)"
  unfolding windows_ok_def perr_samples_def by (blast intro: ring_contents_length)

lemma phy_samples_push:
  "windows_ok st \<Longrightarrow> phy_samples (wei_infer_phy_push st v) = slide WEI_INFER_PHY_WINDOW (phy_samples st) v"
  using phy.push_contents [of st v]
  by (simp add: slide_def phy_samples_length) (simp add: windows_ok_def phy_samples_def)

lemma perr_samples_push:
  "windows_ok st \<Longrightarrow>
     perr_samples (wei_infer_perr_push st f e) = slide WEI_INFER_PERR_WINDOW (perr_samples st) (f, e)"
  using perr.push_contents [of st "(f, e)"]
  by (simp add: slide_def perr_samples_length) (simp add: windows_ok_def perr_samples_def)

lemma samples_push_other [simp]:
  "perr_samples (wei_infer_phy_push st v) = perr_samples st"
  "phy_samples (wei_infer_perr_push st f e) = phy_samples st"
  by (simp_all add: perr_samples_def phy_samples_def)

section \<open>The loss rate is the loss over the window\<close>

text \<open>A counter's advance over the window; a counter that went backwards was reset and reads 0.\<close>

definition counter_delta :: "u32 \<Rightarrow> u32 \<Rightarrow> int" where
  "counter_delta old new = (if uint old \<le> uint new then uint new - uint old else 0)"

definition window_loss :: "(u32 \<times> u32) list \<Rightarrow> int \<times> int" where
  "window_loss ps =
     (if length ps < 2 then (0, 0)
      else (counter_delta (fst (hd ps)) (fst (last ps)), counter_delta (snd (hd ps)) (snd (last ps))))"

definition loss_pct :: "int \<times> int \<Rightarrow> double" where
  "loss_pct d = (case d of (df, de) \<Rightarrow>
     if df + de = 0 then 0 else dmul (ddiv (of_int de) (of_int (df + de))) 100)"

lemma uint_delta: "uint (if new \<ge> old then new - old else 0 :: u32) = counter_delta old new"
  by (simp add: counter_delta_def word_le_def uint_minus_simple_alt uint_sub_lem)

lemma perr_sample_ends:
  assumes "windows_ok st" "unat (perr_fill st) \<ge> 2"
  defines "newest \<equiv> (unat (perr_head st) + WEI_INFER_PERR_WINDOW - 1) mod WEI_INFER_PERR_WINDOW"
    and "oldest \<equiv> (if unat (perr_fill st) < WEI_INFER_PERR_WINDOW then 0 else unat (perr_head st))"
  shows "perr_frames st ! newest = fst (last (perr_samples st))"
    "perr_errs st ! newest = snd (last (perr_samples st))"
    "perr_frames st ! oldest = fst (hd (perr_samples st))"
    "perr_errs st ! oldest = snd (hd (perr_samples st))"
proof -
  have ok: "ring_ok WEI_INFER_PERR_WINDOW (perr_pairs st) (unat (perr_head st)) (unat (perr_fill st))"
    and len: "length (perr_frames st) = WEI_INFER_PERR_WINDOW" "length (perr_errs st) = WEI_INFER_PERR_WINDOW"
    using assms(1) by (auto simp: windows_ok_def)
  have lt: "newest < WEI_INFER_PERR_WINDOW" "oldest < WEI_INFER_PERR_WINDOW"
    using ok perr.cap_pos by (auto simp: newest_def oldest_def ring_ok_def)
  then have at: "perr_pairs st ! newest = (perr_frames st ! newest, perr_errs st ! newest)"
    "perr_pairs st ! oldest = (perr_frames st ! oldest, perr_errs st ! oldest)"
    using len by (simp_all add: perr_pairs_def)
  have "perr_pairs st ! newest = last (perr_samples st)"
    unfolding newest_def perr_samples_def using ok assms(2) by (intro ring_newest) auto
  moreover have "perr_pairs st ! oldest = hd (perr_samples st)"
    unfolding oldest_def perr_samples_def using ok assms(2) by (intro ring_oldest) auto
  ultimately show "perr_frames st ! newest = fst (last (perr_samples st))"
    "perr_errs st ! newest = snd (last (perr_samples st))"
    "perr_frames st ! oldest = fst (hd (perr_samples st))"
    "perr_errs st ! oldest = snd (hd (perr_samples st))"
    using at by (metis fst_conv snd_conv)+
qed

lemma counter_delta_bounds: "0 \<le> counter_delta a b" "counter_delta a b < 2 ^ 32"
proof -
  show "0 \<le> counter_delta a b" by (simp add: counter_delta_def)
  have "uint b - uint a < 4294967296" using uint_u32_bounds [of a] uint_u32_bounds [of b] by linarith
  then show "counter_delta a b < 2 ^ 32" by (simp add: counter_delta_def)
qed

lemma window_loss_bounds:
  "0 \<le> fst (window_loss ps)" "0 \<le> snd (window_loss ps)"
  by (simp_all add: window_loss_def counter_delta_bounds)

text \<open>Reading the rate off the abstract window, as long as the 32-bit total does not wrap.\<close>

lemma perr_rate_window:
  assumes "windows_ok st"
    and "fst (window_loss (perr_samples st)) + snd (window_loss (perr_samples st)) < 2 ^ 32"
  shows "wei_infer_perr_rate st = loss_pct (window_loss (perr_samples st))"
proof (cases "unat (perr_fill st) < 2")
  case True
  then show ?thesis using assms(1)
    by (simp add: wei_infer_perr_rate_def window_loss_def loss_pct_def perr_samples_length)
next
  case False
  let ?f0 = "fst (hd (perr_samples st))" and ?f1 = "fst (last (perr_samples st))"
  let ?e0 = "snd (hd (perr_samples st))" and ?e1 = "snd (last (perr_samples st))"
  define df where "df = (if ?f1 \<ge> ?f0 then ?f1 - ?f0 else 0)"
  define de where "de = (if ?e1 \<ge> ?e0 then ?e1 - ?e0 else 0)"
  have u: "uint df = counter_delta ?f0 ?f1" "uint de = counter_delta ?e0 ?e1"
    unfolding df_def de_def by (rule uint_delta)+
  have wl: "window_loss (perr_samples st) = (uint df, uint de)"
    using False assms(1) by (simp add: window_loss_def perr_samples_length u)
  have add: "uint (df + de) = uint df + uint de"
    using assms(2) uint_add_lem [of df de] by (simp add: wl)
  have "df + de = 0 \<longleftrightarrow> uint df + uint de = 0"
    by (metis add uint_0_iff)
  moreover have "wei_infer_perr_rate st =
      (if df + de = 0 then 0 else dmul (ddiv (d_of_u32 de) (d_of_u32 (df + de))) 100)"
    using False perr_sample_ends [OF assms(1)]
    unfolding wei_infer_perr_rate_def Let_def df_def de_def by simp
  ultimately show ?thesis
    unfolding wl loss_pct_def d_of_u32_def add by simp
qed

lemma loss_pct_range:
  assumes "0 \<le> fst d" "0 \<le> snd d"
  shows "0 \<le> loss_pct d \<and> loss_pct d \<le> 100"
proof (cases "fst d + snd d = 0")
  case False
  let ?q = "ddiv (of_int (snd d)) (of_int (fst d + snd d))"
  have "of_int (snd d) \<le> real_of_int (fst d + snd d)" "0 < real_of_int (fst d + snd d)"
    using assms False by linarith+
  then have "0 \<le> ?q \<and> ?q \<le> 1" using assms by (intro fl_unit_interval) auto
  then have "0 \<le> dmul ?q 100 \<and> dmul ?q 100 \<le> 100" by (auto intro: fl_le_repr)
  with False show ?thesis by (simp add: loss_pct_def case_prod_beta)
qed (simp add: loss_pct_def case_prod_beta)

lemma perr_rate_nonneg: "0 \<le> wei_infer_perr_rate st"
  by (auto simp: wei_infer_perr_rate_def Let_def)

section \<open>PHY mean\<close>

lemma phy_sum_exact:
  assumes "uint acc + (\<Sum>v \<leftarrow> vs. uint v) < 2 ^ 64"
  shows "uint (phy_sum acc vs) = uint acc + (\<Sum>v \<leftarrow> vs. uint v)"
  using assms
proof (induction vs arbitrary: acc)
  case (Cons v vs)
  have nonneg: "0 \<le> (\<Sum>v \<leftarrow> vs. uint v)" by (intro sum_list_nonneg) auto
  have "uint (ucast v :: 64 word) = uint v" by (simp add: uint_up_ucast is_up)
  then have "uint (acc + ucast v) = uint acc + uint v"
    using Cons.prems nonneg uint_add_lem [of acc "ucast v :: 64 word"] by simp
  then show ?case using Cons.prems by (simp add: Cons.IH)
qed simp

lemma sum_list_bounds:
  fixes f :: "'a \<Rightarrow> int"
  assumes "\<forall>v \<in> set vs. a \<le> f v \<and> f v \<le> b"
  shows "int (length vs) * a \<le> (\<Sum>v \<leftarrow> vs. f v) \<and> (\<Sum>v \<leftarrow> vs. f v) \<le> int (length vs) * b"
  using assms by (induction vs) (auto simp: algebra_simps)

lemma phy_window_sum:
  assumes "windows_ok st"
  shows "uint (phy_sum 0 (take (unat (phy_fill st)) (phy_window st))) = (\<Sum>v \<leftarrow> phy_samples st. uint v)"
    and "(\<Sum>v \<leftarrow> phy_samples st. uint v) \<le> 2 ^ 35" and "0 \<le> (\<Sum>v \<leftarrow> phy_samples st. uint v)"
proof -
  let ?vs = "take (unat (phy_fill st)) (phy_window st)"
  have ring: "ring_ok WEI_INFER_PHY_WINDOW (phy_window st) (unat (phy_head st)) (unat (phy_fill st))"
    using assms by (simp add: windows_ok_def)
  have eq: "(\<Sum>v \<leftarrow> phy_samples st. uint v) = (\<Sum>v \<leftarrow> ?vs. uint v)"
    unfolding phy_samples_def using ring by (rule ring_contents_mset_sum)
  have "length ?vs \<le> 8" using ring by (simp add: ring_ok_def WEI_INFER_PHY_WINDOW_def)
  then have len: "int (length ?vs) * 4294967295 \<le> 8 * 4294967295" by linarith
  have bound: "0 \<le> (\<Sum>v \<leftarrow> ?vs. uint v)" "(\<Sum>v \<leftarrow> ?vs. uint v) \<le> int (length ?vs) * 4294967295"
    using sum_list_bounds [of ?vs 0 uint 4294967295] uint_u32_bounds by auto
  show "uint (phy_sum 0 ?vs) = (\<Sum>v \<leftarrow> phy_samples st. uint v)"
    unfolding eq using bound len by (subst phy_sum_exact) auto
  show "(\<Sum>v \<leftarrow> phy_samples st. uint v) \<le> 2 ^ 35" "0 \<le> (\<Sum>v \<leftarrow> phy_samples st. uint v)"
    unfolding eq using bound len by auto
qed

text \<open>The mean is the correctly rounded quotient of the exact sum.\<close>

lemma phy_mean_eq:
  assumes "windows_ok st" "phy_samples st \<noteq> []"
  shows "wei_infer_phy_mean st =
     ddiv (of_int (\<Sum>v \<leftarrow> phy_samples st. uint v)) (of_nat (length (phy_samples st)))"
proof -
  have fill: "unat (phy_fill st) = length (phy_samples st)"
    using phy_samples_length [OF assms(1)] by simp
  then have "phy_fill st \<noteq> 0" using assms(2) by (metis length_0_conv unat_0)
  moreover have "d_of_u8 (phy_fill st) = of_nat (length (phy_samples st))"
    unfolding d_of_u8_def by (metis fill of_int_of_nat_eq uint_nat)
  moreover have "fl (of_int (\<Sum>v \<leftarrow> phy_samples st. uint v)) = of_int (\<Sum>v \<leftarrow> phy_samples st. uint v)"
    using phy_window_sum [OF assms(1)] by (intro fl_int) auto
  ultimately show ?thesis
    unfolding wei_infer_phy_mean_def Let_def phy_window_sum(1) [OF assms(1)] by simp
qed

lemma phy_mean_between:
  assumes "windows_ok st" "phy_samples st \<noteq> []" "\<bar>a\<bar> \<le> 2 ^ 53" "\<bar>b\<bar> \<le> 2 ^ 53"
    and "\<forall>v \<in> set (phy_samples st). a \<le> uint v \<and> uint v \<le> b"
  shows "of_int a \<le> wei_infer_phy_mean st \<and> wei_infer_phy_mean st \<le> of_int b"
proof -
  let ?n = "length (phy_samples st)" and ?s = "\<Sum>v \<leftarrow> phy_samples st. uint v"
  have n: "0 < real ?n" using assms(2) by simp
  have "int ?n * a \<le> ?s \<and> ?s \<le> int ?n * b" using assms(5) by (rule sum_list_bounds)
  then have "real_of_int (int ?n * a) \<le> of_int ?s" "real_of_int ?s \<le> of_int (int ?n * b)"
    by (simp_all only: of_int_le_iff)
  then have "of_int a \<le> of_int ?s / real ?n" "of_int ?s / real ?n \<le> of_int b"
    using n by (simp_all add: field_simps)
  then show ?thesis
    unfolding phy_mean_eq [OF assms(1,2)]
    using representable_int [OF assms(3)] representable_int [OF assms(4)]
    by (auto intro: fl_le_repr fl_ge_repr)
qed

section \<open>Throughput instability\<close>

text \<open>
  A window whose rates all stay below 46.34 Gbit/s has a variance that fits \<open>int32_t\<close>; the bound
  is above the highest rate any Wi-Fi generation defines.
\<close>

definition PHY_SAFE_KBPS :: int where "PHY_SAFE_KBPS = 46340000"

lemma representable_k_safe_sq:
  assumes "0 \<le> k" "k \<le> 8"
  shows "representable (of_int (k * PHY_SAFE_KBPS ^ 2))"
proof -
  have "real_of_int (k * PHY_SAFE_KBPS ^ 2) = of_int (k * 1448125 ^ 2) * 2 powi 10"
    by (simp add: PHY_SAFE_KBPS_def)
  moreover have "\<bar>k * 1448125 ^ 2\<bar> \<le> 2 ^ 53" using assms by simp
  ultimately show ?thesis unfolding representable_def by (intro exI [of _ "k * 1448125 ^ 2"] exI [of _ 10]) simp
qed

lemma sq_dev_bounds:
  assumes "0 \<le> mean" "mean \<le> of_int PHY_SAFE_KBPS" "uint v \<le> PHY_SAFE_KBPS"
  shows "0 \<le> dmul (dsub (d_of_u32 v) mean) (dsub (d_of_u32 v) mean) \<and>
    dmul (dsub (d_of_u32 v) mean) (dsub (d_of_u32 v) mean) \<le> of_int (PHY_SAFE_KBPS ^ 2)"
proof -
  let ?R = "real_of_int PHY_SAFE_KBPS" and ?d = "dsub (d_of_u32 v) mean"
  have R: "representable ?R" by (rule representable_int) (simp add: PHY_SAFE_KBPS_def)
  have v: "0 \<le> d_of_u32 v" "d_of_u32 v \<le> ?R"
    using assms(3) unfolding d_of_u32_def by (simp_all only: of_int_le_iff of_int_0_le_iff uint_u32_bounds)
  have "?d \<le> ?R" using v assms(1) R by (intro fl_le_repr) auto
  moreover have "- ?R \<le> ?d" using v assms(2) by (intro fl_ge_repr representable_minus R) linarith
  ultimately have "\<bar>?d\<bar> \<le> ?R" by linarith
  then have "\<bar>?d\<bar> * \<bar>?d\<bar> \<le> ?R * ?R" by (intro mult_mono) (auto simp: PHY_SAFE_KBPS_def)
  then have "?d * ?d \<le> ?R * ?R" by simp
  then have "?d * ?d \<le> of_int (1 * PHY_SAFE_KBPS ^ 2)" by (simp add: power2_eq_square)
  then have "dmul ?d ?d \<le> of_int (1 * PHY_SAFE_KBPS ^ 2)"
    by (intro fl_le_repr representable_k_safe_sq) auto
  then show ?thesis by simp
qed

lemma var_accum_bounds:
  assumes "0 \<le> mean" "mean \<le> of_int PHY_SAFE_KBPS" "\<forall>v \<in> set vs. uint v \<le> PHY_SAFE_KBPS"
    and "0 \<le> a" "a \<le> of_int (int k * PHY_SAFE_KBPS ^ 2)" "k + length vs \<le> 8"
  shows "0 \<le> var_accum mean a vs \<and> var_accum mean a vs \<le> of_int (int (k + length vs) * PHY_SAFE_KBPS ^ 2)"
  using assms(3-)
proof (induction vs arbitrary: a k)
  case (Cons v vs)
  let ?s = "dmul (dsub (d_of_u32 v) mean) (dsub (d_of_u32 v) mean)"
  have s: "0 \<le> ?s" "?s \<le> of_int (PHY_SAFE_KBPS ^ 2)"
    using sq_dev_bounds [OF assms(1,2), of v] Cons.prems(1) by auto
  have "a + ?s \<le> of_int (int (Suc k) * PHY_SAFE_KBPS ^ 2)"
    using s Cons.prems(3) by (simp add: distrib_right)
  then have "dadd a ?s \<le> of_int (int (Suc k) * PHY_SAFE_KBPS ^ 2)"
    using Cons.prems(4) by (intro fl_le_repr representable_k_safe_sq) auto
  moreover have "0 \<le> dadd a ?s" using s Cons.prems(2) by auto
  ultimately have "0 \<le> var_accum mean (dadd a ?s) vs \<and>
      var_accum mean (dadd a ?s) vs \<le> of_int (int (Suc k + length vs) * PHY_SAFE_KBPS ^ 2)"
    using Cons.prems by (intro Cons.IH) auto
  then show ?case by (simp add: Let_def)
qed simp

lemma phy_samples_take:
  "windows_ok st \<Longrightarrow> set (phy_samples st) = set (take (unat (phy_fill st)) (phy_window st))"
  unfolding phy_samples_def windows_ok_def by (elim conjE) (rule ring_contents_set)

lemma phy_mean_safe:
  assumes "windows_ok st" "\<forall>v \<in> set (phy_samples st). uint v \<le> PHY_SAFE_KBPS"
  shows "0 \<le> wei_infer_phy_mean st \<and> wei_infer_phy_mean st \<le> of_int PHY_SAFE_KBPS"
proof (cases "phy_samples st = []")
  case True
  then have "phy_fill st = 0" using phy_samples_length [OF assms(1)] by (simp add: unat_eq_zero)
  then show ?thesis by (simp add: wei_infer_phy_mean_def PHY_SAFE_KBPS_def)
next
  case False
  have "of_int 0 \<le> wei_infer_phy_mean st \<and> wei_infer_phy_mean st \<le> of_int PHY_SAFE_KBPS"
    using assms False by (intro phy_mean_between) (auto simp: PHY_SAFE_KBPS_def)
  then show ?thesis by simp
qed

text \<open>
  While every rate in the window is at most 46.34 Gbit/s the throughput-instability measure is
  defined: the variance fits the code's \<open>int32_t\<close> and is not negative.
\<close>

lemma phy_instability_some:
  assumes "windows_ok st" "\<forall>v \<in> set (phy_samples st). uint v \<le> PHY_SAFE_KBPS"
  shows "\<exists>n. wei_infer_phy_instability st = Some n \<and> 0 \<le> n \<and> n \<le> 2147395600"
proof (cases "unat (phy_fill st) < 2")
  case False
  let ?vs = "take (unat (phy_fill st)) (phy_window st)" and ?n = "unat (phy_fill st)"
  let ?a = "var_accum (wei_infer_phy_mean st) 0 ?vs"
  have ring: "?n \<le> 8" "length ?vs = ?n"
    using assms(1) by (auto simp: windows_ok_def ring_ok_def WEI_INFER_PHY_WINDOW_def)
  have a: "0 \<le> ?a" "?a \<le> of_int (int ?n * PHY_SAFE_KBPS ^ 2)"
    using var_accum_bounds [of "wei_infer_phy_mean st" ?vs 0 0] phy_mean_safe [OF assms]
      phy_samples_take [OF assms(1)] assms(2) ring by auto
  have n: "d_of_u8 (phy_fill st) = of_int (int ?n)" "0 < real_of_int (int ?n)"
    using False unfolding d_of_u8_def by (simp_all only: of_int_0_less_iff uint_nat)
  have "?a / of_int (int ?n) \<le> of_int (1 * PHY_SAFE_KBPS ^ 2)"
    using a n(2) by (simp add: field_simps)
  then have q: "ddiv ?a (of_int (int ?n)) \<le> of_int (1 * PHY_SAFE_KBPS ^ 2)"
    by (intro fl_le_repr representable_k_safe_sq) auto
  then have "ddiv ?a (of_int (int ?n)) / 1000000 \<le> 2147395600" by (simp add: PHY_SAFE_KBPS_def)
  then have r: "ddiv (ddiv ?a (of_int (int ?n))) 1000000 \<le> 2147395600" by (intro fl_le_repr) auto
  have "0 \<le> ddiv (ddiv ?a (of_int (int ?n))) 1000000" using a(1) n(2) by (intro fl_nonneg divide_nonneg_nonneg) auto
  with r show ?thesis
    using False unfolding wei_infer_phy_instability_def Let_def n(1)
    by (simp add: c_int32_of_def c_trunc_def floor_le_iff)
qed (simp add: wei_infer_phy_instability_def)

lemma var_accum_constant:
  "\<forall>v \<in> set vs. d_of_u32 v = mean \<Longrightarrow> var_accum mean 0 vs = 0"
  by (induction vs) (auto simp: Let_def)

lemma phy_mean_constant:
  assumes "windows_ok st" "phy_samples st \<noteq> []" "\<forall>v \<in> set (phy_samples st). v = r"
  shows "wei_infer_phy_mean st = d_of_u32 r"
proof -
  have "\<bar>uint r\<bar> \<le> 2 ^ 53" using uint_u32_bounds [of r] by simp
  then have "of_int (uint r) \<le> wei_infer_phy_mean st \<and> wei_infer_phy_mean st \<le> of_int (uint r)"
    using assms by (intro phy_mean_between) auto
  then show ?thesis unfolding d_of_u32_def by linarith
qed

lemma phy_instability_constant:
  assumes "windows_ok st" "\<forall>v \<in> set (phy_samples st). v = r"
  shows "wei_infer_phy_instability st = Some 0"
proof (cases "unat (phy_fill st) < 2")
  case False
  then have ne: "phy_samples st \<noteq> []" using phy_samples_length [OF assms(1)] by auto
  have "wei_infer_phy_mean st = d_of_u32 r" using assms ne by (intro phy_mean_constant)
  then have "var_accum (wei_infer_phy_mean st) 0 (take (unat (phy_fill st)) (phy_window st)) = 0"
    using assms(2) phy_samples_take [OF assms(1)] by (intro var_accum_constant) auto
  then show ?thesis
    using False by (simp add: wei_infer_phy_instability_def c_int32_of_def c_trunc_def)
qed (simp add: wei_infer_phy_instability_def)

lemma two_pushes:
  defines "st a b \<equiv> wei_infer_phy_push (wei_infer_phy_push zero_infer_client a) b"
  shows "windows_ok (st a b)" "phy_samples (st a b) = [a, b]" "unat (phy_fill (st a b)) = 2"
    "take 2 (phy_window (st a b)) = [a, b]"
proof -
  show ok: "windows_ok (st a b)"
    unfolding st_def by (intro phy_push_ok zero_client_windows)
  show smp: "phy_samples (st a b) = [a, b]"
    unfolding st_def
    by (simp add: phy_samples_push phy_push_ok zero_client_windows slide_def WEI_INFER_PHY_WINDOW_def)
  show fill: "unat (phy_fill (st a b)) = 2" using phy_samples_length [OF ok] smp by simp
  show "take 2 (phy_window (st a b)) = [a, b]"
    using smp ok fill
    by (simp add: phy_samples_def ring_contents_def windows_ok_def ring_ok_def WEI_INFER_PHY_WINDOW_def)
qed

text \<open>
  The measure is not defined for every record the wire can carry: two samples, 0 and 2^31
  kbit/s, make the variance in (Mbit/s)^2 exceed \<open>INT32_MAX\<close>, and the cast is undefined.
\<close>

lemma phy_instability_undefined:
  "wei_infer_phy_instability (wei_infer_phy_push (wei_infer_phy_push zero_infer_client 0) 2147483648) = None"
proof -
  let ?st = "wei_infer_phy_push (wei_infer_phy_push zero_infer_client 0) 2147483648"
  note st = two_pushes [of 0 2147483648]
  have two: "d_of_u8 (phy_fill ?st) = 2" unfolding d_of_u8_def uint_nat st(3) by simp
  have pow: "fl (2 powi e) = 2 powi e" if "- 1074 \<le> e" for e
    using that by (intro fl_exact [of _ 1]) auto
  have "fl 1073741824 = 1073741824" using pow [of 30] by simp
  then have mean: "wei_infer_phy_mean ?st = 2 powi 30"
    using phy_mean_eq [OF st(1)] unfolding st(2) by simp
  have step: "dmul (dsub x (2 powi 30)) (dsub x (2 powi 30)) = 2 powi 60"
    if "x = 0 \<or> x = 2 * 2 powi 30" for x
  proof -
    have "dsub x (2 powi 30) = 2 powi 30 \<or> dsub x (2 powi 30) = - (2 powi 30)"
      using that pow [of 30] by auto
    then show ?thesis using pow [of 60] by auto
  qed
  have acc: "var_accum (2 powi 30) 0 [0, 2147483648] = 2 powi 61"
    using step [of 0] step [of 2147483648] pow [of 60] pow [of 61] by (simp add: Let_def)
  have half: "ddiv (2 powi 61) 2 = 2 powi 60" using pow [of 60] by simp
  have "2147483648 \<le> ddiv (2 powi 60) 1000000" by (rule fl_ge_repr) auto
  then have "2147483648 \<le> \<lfloor>ddiv (2 powi 60) 1000000\<rfloor>" by (simp only: le_floor_iff)
  then have "c_int32_of (ddiv (2 powi 60) 1000000) = None"
    by (auto simp: c_int32_of_def c_trunc_def)
  then show ?thesis
    unfolding wei_infer_phy_instability_def Let_def st(3,4) two mean acc half by simp
qed

section \<open>The running band is the range of the history\<close>

lemma band_widen_step:
  assumes "vs \<noteq> []" "b = \<lparr>b_lo = Min (set vs), b_hi = Max (set vs), b_primed = True\<rparr>"
  shows "wei_infer_band_widen b v =
     \<lparr>b_lo = Min (set (vs @ [v])), b_hi = Max (set (vs @ [v])), b_primed = True\<rparr>"
  using assms
  by (simp add: wei_infer_band_widen_def Let_def min_def max_def not_less
      del: Min_gr_iff Max_less_iff Min_less_iff Max_gr_iff Min_ge_iff Max_le_iff Min_le_iff Max_ge_iff)

lemma band_history:
  assumes "vs \<noteq> []"
  shows "foldl wei_infer_band_widen zero_infer_band vs =
     \<lparr>b_lo = Min (set vs), b_hi = Max (set vs), b_primed = True\<rparr>"
  using assms
proof (induction vs rule: rev_induct)
  case (snoc v vs)
  show ?case
  proof (cases "vs = []")
    case True
    then show ?thesis by (simp add: wei_infer_band_widen_def zero_infer_band_def)
  next
    case False
    then have "foldl wei_infer_band_widen zero_infer_band (vs @ [v]) =
       wei_infer_band_widen \<lparr>b_lo = Min (set vs), b_hi = Max (set vs), b_primed = True\<rparr> v"
      using snoc.IH by simp
    then show ?thesis using band_widen_step [OF False refl] by simp
  qed
qed simp

end
