(* ===== verification/Infer_Client.thy ===== *)
theory Infer_Client
  imports Infer_Window
begin

text \<open>
  Scoring one client for one tick (source/wei_infer.c): the score itself with the reconnect
  ramp, the three flags that set the verdict and the dominant-contributor attribution. Where the
  code writes through \<open>st\<close> or \<open>out\<close>, the definition returns
  the updated record. A result \<open>None\<close> is undefined behaviour: a floating-point conversion out of
  range, or the negation of the least \<open>int32_t\<close>.
\<close>

section \<open>The score\<close>

definition WEI_INFER_RECONNECT_RAMP :: u32 where
  "WEI_INFER_RECONNECT_RAMP = 4"

text \<open>\<open>(1 - e^(-4p)) / (1 - e^-4)\<close> with \<open>p = (RAMP - ramp + 1) / RAMP\<close>; the counter arithmetic is unsigned.\<close>

definition ramp_progress :: "u16 \<Rightarrow> double" where
  "ramp_progress ramp =
     ddiv (d_of_u32 (WEI_INFER_RECONNECT_RAMP - ucast ramp + 1)) (d_of_u32 WEI_INFER_RECONNECT_RAMP)"

definition ramp_ease :: "scorer_env \<Rightarrow> u16 \<Rightarrow> double" where
  "ramp_ease env ramp =
     ddiv (dsub 1 (libm_exp env (dmul (- 4) (ramp_progress ramp)))) (dsub 1 (libm_exp env (- 4)))"

definition pkt_err_byte :: "double \<Rightarrow> u8" where
  "pkt_err_byte per_pct =
     (if per_pct \<le> 0 then 0 else if per_pct \<ge> 100 then 100 else word_of_int (c_lround per_pct))"

text \<open>The tick's raw sample enters the windows and the bands.\<close>

definition score_ingest :: "wei_infer_client \<Rightarrow> wei_conn_metric_record \<Rightarrow> wei_infer_client" where
  "score_ingest st rec =
     (let st = wei_infer_phy_push st (phy_rate_kbps rec);
          st = wei_infer_perr_push st (tx_frames rec) (tx_err_frames rec);
          smoothed_phy = wei_infer_phy_mean st;
          per_pct = wei_infer_perr_rate st;
          st = st\<lparr>norm_band0 := wei_infer_band_widen (norm_band0 st) (of_int (link_snr_db rec))\<rparr>;
          st = st\<lparr>norm_band1 := wei_infer_band_widen (norm_band1 st) smoothed_phy\<rparr>;
          st = st\<lparr>norm_band2 := wei_infer_band_widen (norm_band2 st) per_pct\<rparr>
      in st)"

text \<open>The kernel stages over the client's own bands, on an ingested state.\<close>

definition score_raw :: "scorer_env \<Rightarrow> wei_infer_client \<Rightarrow> wei_conn_metric_record \<Rightarrow> double" where
  "score_raw env st rec =
     (let n0 = cscore_normalize_metric (of_int (link_snr_db rec)) (b_lo (norm_band0 st)) (b_hi (norm_band0 st));
          n1 = cscore_normalize_metric (wei_infer_phy_mean st) (b_lo (norm_band1 st)) (b_hi (norm_band1 st));
          n2 = cscore_normalize_metric (wei_infer_perr_rate st) (b_lo (norm_band2 st)) (b_hi (norm_band2 st));
          reduced = cscore_rms_reduce (Some (cscore_contribs n0 n1 n2));
          weighted = cscore_chanutil_weight env reduced (d_of_u8 (chan_util_pct rec))
      in cscore_standardize weighted)"

definition wei_infer_score_client ::
    "scorer_env \<Rightarrow> wei_infer_client \<Rightarrow> wei_conn_metric_record \<Rightarrow> wei_infer_result
      \<Rightarrow> (bool \<times> wei_infer_client \<times> wei_infer_result) option" where
  "wei_infer_score_client env st rec out =
     (if activity_state rec \<noteq> WEI_CONN_METRIC_STATE_ACTIVE \<or> status rec \<noteq> WEI_CONN_METRIC_STATUS_OK
      then Some (False, st, out)
      else
        let warming = (phy_fill st = 0);
            st = score_ingest st rec;
            per_pct = wei_infer_perr_rate st;
            score = score_raw env st rec;
            st = (if warming then st\<lparr>reconnect_ramp := ucast WEI_INFER_RECONNECT_RAMP\<rparr> else st);
            (score, st) =
              (if reconnect_ramp st > 0
               then (dmul score (ramp_ease env (reconnect_ramp st)),
                     st\<lparr>reconnect_ramp := reconnect_ramp st - 1\<rparr>)
               else (score, st))
        in case c_uint8_of (dadd score (1 / 2)) of
             None \<Rightarrow> None
           | Some sc \<Rightarrow>
               Some (True, st,
                 out\<lparr>ir_score := sc, ir_verdict := WEI_INFER_VERDICT_SMOOTH,
                     ir_dominant := WEI_INFER_CONTRIB_NONE, ir_video_degrade := False,
                     ir_pkt_err_pct := pkt_err_byte per_pct\<rparr>))"

section \<open>The verdict flags\<close>

definition wei_infer_flag_instability ::
    "wei_infer_policy \<Rightarrow> wei_track_table \<Rightarrow> mac \<Rightarrow> wei_infer_client \<Rightarrow> wei_infer_result \<Rightarrow> int
      \<Rightarrow> (wei_track_table \<times> wei_infer_result) option" where
  "wei_infer_flag_instability policy tracker m st out now_ms =
     (case wei_infer_phy_instability st of
        None \<Rightarrow> None
      | Some instability \<Rightarrow>
          let unstable = (instability > tput_var_band policy);
              (tracker, entry) = wei_track_get tracker m now_ms;
              driven =
                (case entry of
                   None \<Rightarrow> Some (tracker, unstable)
                 | Some i \<Rightarrow>
                     (case (neg_i32 instability, neg_i32 (tput_var_band policy)) of
                        (Some metric, Some band) \<Rightarrow>
                          let e = wei_track_tick (entries tracker ! i) metric now_ms band (tput_floor_ms policy);
                              (e, excursion) = wei_track_collect e;
                              exc_ms = tr_duration_ms excursion
                          in Some (tracker\<lparr>entries := (entries tracker)[i := e]\<rparr>, unstable \<or> exc_ms > 0)
                      | _ \<Rightarrow> None))
          in map_option (\<lambda>(tracker, unstable).
               (tracker, if unstable then out\<lparr>ir_verdict := WEI_INFER_VERDICT_DEGRADED\<rparr> else out)) driven)"

definition wei_infer_flag_latency_risk ::
    "wei_infer_policy \<Rightarrow> wei_infer_client \<Rightarrow> wei_infer_result \<Rightarrow> wei_infer_client \<times> wei_infer_result" where
  "wei_infer_flag_latency_risk policy st out =
     (let st =
            (if ir_score out < latency_score_band policy then
               let st = (if threshold_cross st < 65535
                         then st\<lparr>threshold_cross := threshold_cross st + 1\<rparr> else st)
               in (if threshold_cross st \<ge> latency_sustain_ticks policy then st\<lparr>alarm := True\<rparr> else st)
             else st\<lparr>threshold_cross := 0, alarm := False\<rparr>);
          out = (if alarm st then out\<lparr>ir_verdict := WEI_INFER_VERDICT_DEGRADED\<rparr> else out)
      in (st, out))"

definition wei_infer_flag_video_degrade :: "wei_infer_policy \<Rightarrow> wei_infer_result \<Rightarrow> wei_infer_result" where
  "wei_infer_flag_video_degrade policy out =
     (if ir_score out < video_degrade_band policy then out\<lparr>ir_video_degrade := True\<rparr> else out)"

section \<open>Attribution\<close>

definition attribute_badness :: "wei_infer_client \<Rightarrow> wei_conn_metric_record \<Rightarrow> double list" where
  "attribute_badness st rec =
     [dsub 1 (cscore_normalize_metric (of_int (link_snr_db rec)) (b_lo (norm_band0 st)) (b_hi (norm_band0 st))),
      dsub 1 (cscore_normalize_metric (d_of_u32 (phy_rate_kbps rec)) (b_lo (norm_band1 st)) (b_hi (norm_band1 st))),
      cscore_normalize_metric (wei_infer_perr_rate st) (b_lo (norm_band2 st)) (b_hi (norm_band2 st)),
      ddiv (d_of_u8 (chan_util_pct rec)) 100]"

text \<open>\<open>for (i = 1; i < n; i++) if (badness[i] > badness[worst]) worst = i;\<close>\<close>

definition worst_scan :: "double list \<Rightarrow> nat" where
  "worst_scan bs = foldl (\<lambda>worst i. if bs ! i > bs ! worst then i else worst) 0 [1..<length bs]"

definition wei_infer_attribute :: "wei_infer_client \<Rightarrow> wei_conn_metric_record \<Rightarrow> wei_infer_contributor" where
  "wei_infer_attribute st rec = wei_infer_contributor_of (1 + worst_scan (attribute_badness st rec))"

section \<open>The reconnect ramp\<close>

lemma ramp_cases:
  assumes "0 < ramp" "ramp \<le> (4 :: u16)"
  obtains "ramp = 1" | "ramp = 2" | "ramp = 3" | "ramp = 4"
proof -
  have "uint ramp \<in> {1, 2, 3, 4}" using assms by (auto simp: word_less_alt word_le_def)
  with that show thesis by (auto simp: word_uint_eq_iff)
qed

lemma ramp_progress_values [simp]:
  "ramp_progress 1 = 1" "ramp_progress 2 = 3 / 4" "ramp_progress 3 = 1 / 2" "ramp_progress 4 = 1 / 4"
proof -
  have q: "fl (of_int k / 4) = of_int k / 4" if "\<bar>k\<bar> \<le> 2 ^ 53" for k
    using that by (intro fl_exact [of _ k "-2"]) (auto simp: power_int_def power2_eq_square)
  show "ramp_progress 1 = 1" "ramp_progress 2 = 3 / 4" "ramp_progress 3 = 1 / 2" "ramp_progress 4 = 1 / 4"
    using q [of 3] q [of 2] q [of 1]
    by (simp_all add: ramp_progress_def WEI_INFER_RECONNECT_RAMP_def fl_representable_id)
qed

lemma ramp_ease_values:
  "ramp_ease env 1 = ddiv (dsub 1 (libm_exp env (- 4))) (dsub 1 (libm_exp env (- 4)))"
  "ramp_ease env 2 = ddiv (dsub 1 (libm_exp env (- 3))) (dsub 1 (libm_exp env (- 4)))"
  "ramp_ease env 3 = ddiv (dsub 1 (libm_exp env (- 2))) (dsub 1 (libm_exp env (- 4)))"
  "ramp_ease env 4 = ddiv (dsub 1 (libm_exp env (- 1))) (dsub 1 (libm_exp env (- 4)))"
  by (simp_all add: ramp_ease_def fl_representable_id representable_minus)

lemma libm_exp_bounds:
  assumes "libm_exp_ok env" "- 50 \<le> x" "x \<le> 50"
  shows "exp x - exp x / 1024 \<le> libm_exp env x" "libm_exp env x \<le> exp x + exp x / 1024"
proof -
  have "\<bar>libm_exp env x - exp x\<bar> \<le> exp x / 2 ^ 52"
    using assms unfolding libm_exp_ok_def by blast
  moreover have "exp x / 2 ^ 52 \<le> exp x / 1024" by (intro divide_left_mono) auto
  ultimately show "exp x - exp x / 1024 \<le> libm_exp env x" "libm_exp env x \<le> exp x + exp x / 1024"
    unfolding abs_le_iff by linarith+
qed

lemma libm_exp_step:
  assumes "libm_exp_ok env" "- 50 \<le> x" "x \<le> 49"
  shows "libm_exp env x \<le> libm_exp env (x + 1)"
proof -
  have "2 \<le> exp (1::real)" using exp_ge_add_one_self [of 1] by simp
  then have "exp x * 2 \<le> exp (x + 1)" by (simp add: exp_add)
  moreover have "libm_exp env x \<le> exp x + exp x / 1024" "exp (x + 1) - exp (x + 1) / 1024 \<le> libm_exp env (x + 1)"
    using libm_exp_bounds [OF assms(1), of x] libm_exp_bounds [OF assms(1), of "x + 1"] assms(2,3) by auto
  moreover have "0 < exp x" by simp
  ultimately show ?thesis by linarith
qed

lemma libm_exp_half:
  assumes "libm_exp_ok env" "- 50 \<le> x" "x \<le> - 1"
  shows "libm_exp env x \<le> 51 / 100"
proof -
  have "2 \<le> exp (1::real)" using exp_ge_add_one_self [of 1] by simp
  then have "exp (- 1 :: real) \<le> 1 / 2" by (simp add: exp_minus field_simps)
  moreover have "exp x \<le> exp (- 1)" using assms(3) by simp
  ultimately have "exp x \<le> 1 / 2" by linarith
  moreover have "libm_exp env x \<le> exp x + exp x / 1024"
    using libm_exp_bounds(2) [OF assms(1)] assms(2,3) by simp
  ultimately show ?thesis by linarith
qed

text \<open>
  The fraction applied while a client warms up lies in the unit interval, grows as the ramp
  counts down, and is exactly 1 on the last damped tick.
\<close>

lemma ramp_denominator:
  assumes "libm_exp_ok env"
  shows "0 < dsub 1 (libm_exp env (- 4))"
proof -
  have "1 / 4 \<le> 1 - libm_exp env (- 4)" using libm_exp_half [OF assms, of "- 4"] by simp
  moreover have "representable (1 / 4 :: real)"
    unfolding representable_def by (intro exI [of _ 1] exI [of _ "-2"]) (simp add: power_int_def power2_eq_square)
  ultimately have "1 / 4 \<le> dsub 1 (libm_exp env (- 4))" by (rule fl_ge_repr)
  then show ?thesis by linarith
qed

lemma ramp_ease_step:
  assumes "libm_exp_ok env" "0 < ramp" "ramp \<le> (3 :: u16)"
  shows "ramp_ease env (ramp + 1) \<le> ramp_ease env ramp"
proof -
  have le4: "ramp \<le> 4" using assms(3) by (rule order_trans) simp
  have den: "0 \<le> dsub 1 (libm_exp env (- 4))" using ramp_denominator [OF assms(1)] by simp
  have step: "ddiv (dsub 1 (libm_exp env (x + 1))) (dsub 1 (libm_exp env (- 4)))
      \<le> ddiv (dsub 1 (libm_exp env x)) (dsub 1 (libm_exp env (- 4)))" if "- 50 \<le> x" "x \<le> 49" for x
    using libm_exp_step [OF assms(1) that] den by (intro fl_mono divide_right_mono) auto
  show ?thesis
    using step [of "- 4"] step [of "- 3"] step [of "- 2"] assms(3)
    by - (rule ramp_cases [OF assms(2) le4], simp_all add: ramp_ease_values)
qed

lemma ramp_ease_last: "libm_exp_ok env \<Longrightarrow> ramp_ease env 1 = 1"
  using ramp_denominator [of env] by (simp add: ramp_ease_values fl_representable_id)

lemma ramp_ease_unit:
  assumes "libm_exp_ok env" "0 < ramp" "ramp \<le> (4 :: u16)"
  shows "0 \<le> ramp_ease env ramp \<and> ramp_ease env ramp \<le> 1"
proof -
  have nonneg: "0 \<le> ddiv (dsub 1 (libm_exp env x)) (dsub 1 (libm_exp env (- 4)))" if "- 50 \<le> x" "x \<le> - 1" for x
    using libm_exp_half [OF assms(1) that] libm_exp_half [OF assms(1), of "- 4"]
    by (intro fl_nonneg divide_nonneg_nonneg) auto
  have "ramp_ease env 2 \<le> 1" "ramp_ease env 3 \<le> ramp_ease env 2" "ramp_ease env 4 \<le> ramp_ease env 3"
    using ramp_ease_step [OF assms(1), of 1] ramp_ease_step [OF assms(1), of 2]
      ramp_ease_step [OF assms(1), of 3] ramp_ease_last [OF assms(1)] by simp_all
  with nonneg [of "- 4"] nonneg [of "- 3"] nonneg [of "- 2"] nonneg [of "- 1"] ramp_ease_last [OF assms(1)]
  show ?thesis by - (rule ramp_cases [OF assms(2,3)], simp_all add: ramp_ease_values)
qed

section \<open>Scoring never fails and stays on the scale\<close>

definition client_ok :: "wei_infer_client \<Rightarrow> bool" where
  "client_ok st \<longleftrightarrow> windows_ok st \<and> reconnect_ramp st \<le> 4"

lemma zero_client_ok [wei_inv]: "client_ok zero_infer_client"
  by (simp add: client_ok_def zero_client_windows) (simp add: zero_infer_client_def)

lemma windows_ok_fields:
  "phy_window s = phy_window t \<Longrightarrow> phy_head s = phy_head t \<Longrightarrow> phy_fill s = phy_fill t \<Longrightarrow>
   perr_frames s = perr_frames t \<Longrightarrow> perr_errs s = perr_errs t \<Longrightarrow> perr_head s = perr_head t \<Longrightarrow>
   perr_fill s = perr_fill t \<Longrightarrow> windows_ok s = windows_ok t"
  by (simp add: windows_ok_def perr_pairs_def)

lemma windows_ok_update [simp]:
  "windows_ok (st\<lparr>norm_band0 := b\<rparr>) = windows_ok st"
  "windows_ok (st\<lparr>norm_band1 := b\<rparr>) = windows_ok st"
  "windows_ok (st\<lparr>norm_band2 := b\<rparr>) = windows_ok st"
  "windows_ok (st\<lparr>reconnect_ramp := r\<rparr>) = windows_ok st"
  "windows_ok (st\<lparr>threshold_cross := c\<rparr>) = windows_ok st"
  "windows_ok (st\<lparr>alarm := a\<rparr>) = windows_ok st"
  by (rule windows_ok_fields; simp)+

lemma ingest_ok [wei_inv]: "windows_ok st \<Longrightarrow> windows_ok (score_ingest st rec)"
  by (simp add: score_ingest_def Let_def perr_push_ok phy_push_ok)

lemma ingest_frame [simp]:
  "reconnect_ramp (score_ingest st rec) = reconnect_ramp st"
  "threshold_cross (score_ingest st rec) = threshold_cross st"
  "alarm (score_ingest st rec) = alarm st"
  by (simp_all add: score_ingest_def Let_def)

lemma score_raw_range: "0 \<le> score_raw env st rec \<and> score_raw env st rec \<le> 100"
  unfolding score_raw_def Let_def by (rule kernel.standardize_range)

lemma scaled_range:
  assumes "0 \<le> s" "s \<le> 100" "0 \<le> e" "e \<le> 1"
  shows "0 \<le> dmul s e \<and> dmul s e \<le> 100"
proof -
  have "s * e \<le> 100 * 1" using assms by (intro mult_mono) auto
  then have "dmul s e \<le> 100" by (intro fl_le_repr) auto
  with assms show ?thesis by auto
qed

lemma score_byte:
  assumes "0 \<le> s" "s \<le> 100"
  shows "\<exists>b. c_uint8_of (dadd s (1 / 2)) = Some b \<and> uint b \<le> 100"
proof -
  have "representable (201 / 2 :: real)"
    unfolding representable_def by (intro exI [of _ 201] exI [of _ "-1"]) (simp add: power_int_def)
  then have "dadd s (1 / 2) \<le> 201 / 2" using assms by (intro fl_le_repr) auto
  moreover have "0 \<le> dadd s (1 / 2)" using assms by auto
  ultimately have b: "0 \<le> \<lfloor>dadd s (1 / 2)\<rfloor>" "\<lfloor>dadd s (1 / 2)\<rfloor> \<le> 100"
    and c: "c_uint8_of (dadd s (1 / 2)) = Some (word_of_int \<lfloor>dadd s (1 / 2)\<rfloor>)"
    by (auto simp: floor_le_iff intro!: c_uint8_of_range)
  have "uint (word_of_int \<lfloor>dadd s (1 / 2)\<rfloor> :: u8) = \<lfloor>dadd s (1 / 2)\<rfloor>"
    using b by (simp add: uint_word_of_int)
  with b c show ?thesis by auto
qed

lemma pkt_err_byte_range: "uint (pkt_err_byte p) \<le> 100"
proof (cases "p \<le> 0 \<or> p \<ge> 100")
  case False
  then have "0 \<le> c_lround p \<and> c_lround p \<le> 100" using c_lround_bounds [of p 100] by simp
  then show ?thesis using False by (simp add: pkt_err_byte_def uint_word_of_int)
qed (auto simp: pkt_err_byte_def)

lemma dec_ramp: "0 < r \<Longrightarrow> r \<le> (4 :: u16) \<Longrightarrow> r - 1 \<le> 4"
  by (rule ramp_cases [of r]) auto

lemma ingest_phy_fill: "phy_fill (score_ingest st rec) \<noteq> 0"
proof -
  have "phy_fill (score_ingest st rec) = phy_fill (wei_infer_phy_push st (phy_rate_kbps rec))"
    by (simp add: score_ingest_def Let_def)
  moreover have "0 < unat (phy_fill (wei_infer_phy_push st (phy_rate_kbps rec)))"
    unfolding phy.fill_push by (simp add: WEI_INFER_PHY_WINDOW_def)
  ultimately show ?thesis by (metis less_numeral_extra(3) unat_0)
qed

text \<open>The state after the warm-up and the damping, as functions of the ingested state.\<close>

definition warm_state :: "wei_infer_client \<Rightarrow> wei_conn_metric_record \<Rightarrow> wei_infer_client" where
  "warm_state st rec =
     (if phy_fill st = 0 then (score_ingest st rec)\<lparr>reconnect_ramp := ucast WEI_INFER_RECONNECT_RAMP\<rparr>
      else score_ingest st rec)"

definition damped_score :: "scorer_env \<Rightarrow> wei_infer_client \<Rightarrow> wei_conn_metric_record \<Rightarrow> double" where
  "damped_score env st rec =
     (if reconnect_ramp (warm_state st rec) > 0
      then dmul (score_raw env (score_ingest st rec) rec) (ramp_ease env (reconnect_ramp (warm_state st rec)))
      else score_raw env (score_ingest st rec) rec)"

definition scored_state :: "wei_infer_client \<Rightarrow> wei_conn_metric_record \<Rightarrow> wei_infer_client" where
  "scored_state st rec =
     (if reconnect_ramp (warm_state st rec) > 0
      then (warm_state st rec)\<lparr>reconnect_ramp := reconnect_ramp (warm_state st rec) - 1\<rparr>
      else warm_state st rec)"

lemma score_client_eq:
  assumes "metric_scoreable rec"
  shows "wei_infer_score_client env st rec out =
     map_option (\<lambda>b. (True, scored_state st rec,
        out\<lparr>ir_score := b, ir_verdict := WEI_INFER_VERDICT_SMOOTH,
            ir_dominant := WEI_INFER_CONTRIB_NONE, ir_video_degrade := False,
            ir_pkt_err_pct := pkt_err_byte (wei_infer_perr_rate (score_ingest st rec))\<rparr>))
       (c_uint8_of (dadd (damped_score env st rec) (1 / 2)))"
proof -
  have "\<not> (activity_state rec \<noteq> WEI_CONN_METRIC_STATE_ACTIVE \<or> status rec \<noteq> WEI_CONN_METRIC_STATUS_OK)"
    using assms by (simp add: metric_scoreable_def)
  then show ?thesis
    unfolding wei_infer_score_client_def Let_def scored_state_def damped_score_def warm_state_def
    by (cases "phy_fill st = 0"; cases "reconnect_ramp st > 0")
      (simp_all add: WEI_INFER_RECONNECT_RAMP_def map_option_case del: fl_idem)
qed

lemma score_client_gated: "\<not> metric_scoreable rec \<Longrightarrow> wei_infer_score_client env st rec out = Some (False, st, out)"
  by (auto simp: wei_infer_score_client_def metric_scoreable_def)

lemma warm_state_ok:
  assumes "client_ok st"
  shows "windows_ok (warm_state st rec)" "reconnect_ramp (warm_state st rec) \<le> 4"
    "phy_fill (warm_state st rec) \<noteq> 0"
  using assms ingest_phy_fill
  by (auto simp: warm_state_def client_ok_def WEI_INFER_RECONNECT_RAMP_def ingest_ok)

lemma scored_state_ok [wei_inv]:
  assumes "client_ok st"
  shows "client_ok (scored_state st rec)" "phy_fill (scored_state st rec) \<noteq> 0"
  using warm_state_ok [OF assms, of rec] dec_ramp [of "reconnect_ramp (warm_state st rec)"]
  by (auto simp: scored_state_def client_ok_def)

lemma damped_score_range:
  assumes "libm_exp_ok env" "client_ok st"
  shows "0 \<le> damped_score env st rec \<and> damped_score env st rec \<le> 100"
  using score_raw_range [of env "score_ingest st rec" rec] scaled_range
    ramp_ease_unit [OF assms(1) _ warm_state_ok(2) [OF assms(2), of rec]]
  by (auto simp: damped_score_def)

lemma score_client_some:
  assumes "libm_exp_ok env" "client_ok st"
  shows "case wei_infer_score_client env st rec out of
      None \<Rightarrow> False
    | Some (emitted, st', out') \<Rightarrow>
        emitted = metric_scoreable rec \<and> client_ok st' \<and>
        (if emitted
         then uint (ir_score out') \<le> 100 \<and> uint (ir_pkt_err_pct out') \<le> 100 \<and>
              ir_verdict out' = WEI_INFER_VERDICT_SMOOTH \<and> ir_dominant out' = WEI_INFER_CONTRIB_NONE \<and>
              \<not> ir_video_degrade out'
         else st' = st \<and> out' = out)"
proof (cases "metric_scoreable rec")
  case True
  obtain b where b: "c_uint8_of (dadd (damped_score env st rec) (1 / 2)) = Some b" "uint b \<le> 100"
    using score_byte damped_score_range [OF assms] by blast
  then show ?thesis
    using True scored_state_ok [OF assms(2)] pkt_err_byte_range by (simp add: score_client_eq)
qed (use assms(2) in \<open>simp add: score_client_gated\<close>)

text \<open>
  C14. One client's scoring step is total: with a correct \<open>exp\<close> no conversion is undefined, a
  result is emitted exactly for an active record with status OK, it starts from the smooth
  verdict with both percentages on their 0-100 scale, and a gated record changes nothing.
\<close>

theorem score_client_total:
  assumes "libm_exp_ok env" "client_ok st"
  shows "case wei_infer_score_client env st rec out of
      None \<Rightarrow> False
    | Some (emitted, st', out') \<Rightarrow>
        emitted = metric_scoreable rec \<and> client_ok st' \<and>
        (if emitted
         then uint (ir_score out') \<le> 100 \<and> uint (ir_pkt_err_pct out') \<le> 100 \<and>
              ir_verdict out' = WEI_INFER_VERDICT_SMOOTH \<and> ir_dominant out' = WEI_INFER_CONTRIB_NONE \<and>
              \<not> ir_video_degrade out'
         else st' = st \<and> out' = out)"
  using assms by (rule score_client_some)

section \<open>The latency alarm\<close>

text \<open>Length of the run of \<open>P\<close> that a sequence ends with.\<close>

definition trailing :: "('a \<Rightarrow> bool) \<Rightarrow> 'a list \<Rightarrow> nat" where
  "trailing P xs = length (takeWhile P (rev xs))"

lemma trailing_simps [simp]: "trailing P [] = 0"
  "trailing P (xs @ [x]) = (if P x then Suc (trailing P xs) else 0)"
  by (simp_all add: trailing_def)

definition latency_run :: "wei_infer_policy \<Rightarrow> u8 list \<Rightarrow> wei_infer_client" where
  "latency_run policy scores =
     foldl (\<lambda>st s. fst (wei_infer_flag_latency_risk policy st (zero_infer_result\<lparr>ir_score := s\<rparr>)))
       zero_infer_client scores"

definition latency_due :: "wei_infer_policy \<Rightarrow> u8 list \<Rightarrow> bool" where
  "latency_due policy scores \<longleftrightarrow>
     max 1 (unat (latency_sustain_ticks policy)) \<le> trailing (\<lambda>s. s < latency_score_band policy) scores"

lemma unat_u16_inc: "(w :: u16) < 65535 \<Longrightarrow> unat (w + 1) = unat w + 1"
  by (simp add: unat_word_ariths word_less_nat_alt)

lemma u16_less_max: "(w :: u16) < 65535 \<longleftrightarrow> unat w \<noteq> 65535" "unat (w :: u16) \<le> 65535"
  using unsigned_less [of w, where 'a = nat] by (auto simp: word_less_nat_alt)

lemma latency_step:
  fixes policy
  defines "low \<equiv> \<lambda>s. s < latency_score_band policy"
  assumes "unat (threshold_cross st) = min 65535 (trailing low scores)"
    and "alarm st = latency_due policy scores"
  shows "unat (threshold_cross (fst (wei_infer_flag_latency_risk policy st out))) =
           min 65535 (trailing low (scores @ [ir_score out])) \<and>
         alarm (fst (wei_infer_flag_latency_risk policy st out)) = latency_due policy (scores @ [ir_score out])"
proof (cases "low (ir_score out)")
  case True
  let ?c = "threshold_cross st" and ?n = "unat (latency_sustain_ticks policy)"
  let ?c' = "if ?c < 65535 then ?c + 1 else ?c"
  have c': "unat ?c' = min 65535 (Suc (trailing low scores))"
    using assms(2) u16_less_max [of ?c] unat_u16_inc [of ?c] by (auto simp: min_def split: if_splits)
  have "latency_sustain_ticks policy \<le> ?c' \<longleftrightarrow> ?n \<le> Suc (trailing low scores)"
    using u16_less_max(2) [of "latency_sustain_ticks policy"] unfolding word_le_nat_alt c' by linarith
  then show ?thesis
    using True assms(3) c' unfolding low_def latency_due_def wei_infer_flag_latency_risk_def
    by (auto simp: Let_def)
qed (auto simp: wei_infer_flag_latency_risk_def low_def latency_due_def Let_def)

text \<open>
  C16. The latency alarm is the predicate it is documented to be: after any sequence of scores
  the client is in alarm exactly when the sequence ends in a run of sub-band scores at least as
  long as the policy's sustain count (one tick at least), the run counter saturates instead of
  wrapping, and the next tick's verdict is forced to degraded exactly in that case.
\<close>

theorem latency_alarm_iff_run:
  "alarm (latency_run policy scores) = latency_due policy scores \<and>
   unat (threshold_cross (latency_run policy scores)) =
     min 65535 (trailing (\<lambda>s. s < latency_score_band policy) scores) \<and>
   ir_verdict (snd (wei_infer_flag_latency_risk policy (latency_run policy scores) out)) =
     (if latency_due policy (scores @ [ir_score out]) then WEI_INFER_VERDICT_DEGRADED else ir_verdict out)"
proof -
  have run: "unat (threshold_cross (latency_run policy scores)) =
      min 65535 (trailing (\<lambda>s. s < latency_score_band policy) scores) \<and>
    alarm (latency_run policy scores) = latency_due policy scores"
  proof (induction scores rule: rev_induct)
    case Nil
    show ?case by (simp add: latency_run_def latency_due_def) (simp add: zero_infer_client_def)
  next
    case (snoc s scores)
    then show ?case
      using latency_step [of "latency_run policy scores" policy scores "zero_infer_result\<lparr>ir_score := s\<rparr>"]
      by (simp add: latency_run_def)
  qed
  moreover have "ir_verdict (snd (wei_infer_flag_latency_risk policy st out)) =
      (if alarm (fst (wei_infer_flag_latency_risk policy st out)) then WEI_INFER_VERDICT_DEGRADED
       else ir_verdict out)" for st
    by (simp add: wei_infer_flag_latency_risk_def Let_def)
  ultimately show ?thesis
    using latency_step [of "latency_run policy scores" policy scores out] by simp
qed

section \<open>Attribution picks the first worst metric\<close>

definition first_max :: "double list \<Rightarrow> nat \<Rightarrow> nat \<Rightarrow> bool" where
  "first_max bs n w \<longleftrightarrow> w \<le> n \<and> (\<forall>j \<le> n. bs ! j \<le> bs ! w) \<and> (\<forall>j < w. bs ! j < bs ! w)"

lemma first_max_step:
  assumes "first_max bs n w"
  shows "first_max bs (Suc n) (if bs ! Suc n > bs ! w then Suc n else w)"
proof (cases "bs ! Suc n > bs ! w")
  case True
  then have "bs ! j < bs ! Suc n" if "j \<le> n" for j
    using assms that unfolding first_max_def by (meson le_less_trans)
  with True show ?thesis by (auto simp: first_max_def le_Suc_eq less_Suc_eq_le intro: less_imp_le)
qed (use assms in \<open>auto simp: first_max_def le_Suc_eq\<close>)

lemma first_max_scan:
  "first_max bs n (foldl (\<lambda>w i. if bs ! i > bs ! w then i else w) 0 [1..<Suc n])"
proof (induction n)
  case (Suc n)
  have "[1..<Suc (Suc n)] = [1..<Suc n] @ [Suc n]" by simp
  then show ?case
    unfolding \<open>[1..<Suc (Suc n)] = [1..<Suc n] @ [Suc n]\<close> foldl_append
    using first_max_step [OF Suc.IH] by (simp only: foldl.simps)
qed (simp add: first_max_def)

lemma worst_scan_correct:
  assumes "bs \<noteq> []"
  shows "worst_scan bs < length bs \<and> list_all (\<lambda>b. b \<le> bs ! worst_scan bs) bs \<and>
    list_all (\<lambda>b. b < bs ! worst_scan bs) (take (worst_scan bs) bs)"
proof -
  have len: "Suc (length bs - 1) = length bs" using assms by simp
  have "first_max bs (length bs - 1) (worst_scan bs)"
    using first_max_scan [of bs "length bs - 1"] unfolding len worst_scan_def .
  then have "worst_scan bs < length bs" "\<And>j. j < length bs \<Longrightarrow> bs ! j \<le> bs ! worst_scan bs"
    "\<And>j. j < worst_scan bs \<Longrightarrow> bs ! j < bs ! worst_scan bs"
    using len by (auto simp: first_max_def less_Suc_eq_le [symmetric])
  then show ?thesis by (simp add: list_all_length)
qed

text \<open>
  Attribution always names a metric, never NONE, and the metric it names is the first of
  those that sit worst in their degrading direction, in the order SNR, PHY rate, packet error,
  channel utilisation.
\<close>

lemma attribute_first_worst:
  "let bs = attribute_badness st rec; k = worst_scan bs
   in wei_infer_attribute st rec = wei_infer_contributor_of (1 + k) \<and> k < 4 \<and>
      list_all (\<lambda>b. b \<le> bs ! k) bs \<and> list_all (\<lambda>b. b < bs ! k) (take k bs) \<and>
      wei_infer_attribute st rec \<noteq> WEI_INFER_CONTRIB_NONE"
proof -
  let ?bs = "attribute_badness st rec"
  have "length ?bs = 4" "?bs \<noteq> []" by (simp_all add: attribute_badness_def)
  with worst_scan_correct [of ?bs] show ?thesis
    by (auto simp: Let_def wei_infer_attribute_def)
qed

section \<open>A steady link\<close>

definition ingest_history :: "wei_conn_metric_record list \<Rightarrow> wei_infer_client" where
  "ingest_history recs = foldl score_ingest zero_infer_client recs"

definition pinned :: "double \<Rightarrow> wei_infer_band" where
  "pinned v = \<lparr>b_lo = v, b_hi = v, b_primed = True\<rparr>"

definition steady :: "wei_conn_metric_record \<Rightarrow> wei_infer_client \<Rightarrow> bool" where
  "steady rec st \<longleftrightarrow>
     windows_ok st \<and>
     phy_samples st \<noteq> [] \<and> set (phy_samples st) = {phy_rate_kbps rec} \<and>
     set (perr_samples st) = {(tx_frames rec, tx_err_frames rec)} \<and>
     norm_band0 st = pinned (of_int (link_snr_db rec)) \<and>
     norm_band1 st = pinned (d_of_u32 (phy_rate_kbps rec)) \<and> norm_band2 st = pinned 0"

lemma set_slide_same: "set xs \<subseteq> {v} \<Longrightarrow> set (slide cap xs v) = {v}"
  unfolding slide_def by (cases xs) auto


lemma ingest_steady_windows:
  assumes "windows_ok st" "set (phy_samples st) \<subseteq> {phy_rate_kbps rec}"
    "set (perr_samples st) \<subseteq> {(tx_frames rec, tx_err_frames rec)}"
  defines "s \<equiv> wei_infer_perr_push (wei_infer_phy_push st (phy_rate_kbps rec)) (tx_frames rec) (tx_err_frames rec)"
  shows "windows_ok s" "set (phy_samples s) = {phy_rate_kbps rec}"
    "set (perr_samples s) = {(tx_frames rec, tx_err_frames rec)}"
    "wei_infer_phy_mean s = d_of_u32 (phy_rate_kbps rec)" "wei_infer_perr_rate s = 0"
proof -
  show ok: "windows_ok s" using assms by (simp add: s_def perr_push_ok phy_push_ok)
  show phy: "set (phy_samples s) = {phy_rate_kbps rec}"
    using assms set_slide_same by (simp add: s_def phy_samples_push)
  show perr: "set (perr_samples s) = {(tx_frames rec, tx_err_frames rec)}"
    using assms set_slide_same by (simp add: s_def perr_samples_push phy_push_ok)
  show "wei_infer_phy_mean s = d_of_u32 (phy_rate_kbps rec)"
    using phy by (intro phy_mean_constant ok) auto
  have "hd (perr_samples s) = (tx_frames rec, tx_err_frames rec)"
    "last (perr_samples s) = (tx_frames rec, tx_err_frames rec)"
    using perr hd_in_set [of "perr_samples s"] last_in_set [of "perr_samples s"] by fastforce+
  then have "window_loss (perr_samples s) = (0, 0)" by (simp add: window_loss_def counter_delta_def)
  then show "wei_infer_perr_rate s = 0" using perr_rate_window [OF ok] by (simp add: loss_pct_def)
qed

lemma widen_pinned:
  "b = zero_infer_band \<or> b = pinned v \<Longrightarrow> wei_infer_band_widen b v = pinned v"
  by (auto simp: pinned_def zero_infer_band_def wei_infer_band_widen_def)

lemma ingest_steady:
  assumes "st = zero_infer_client \<or> steady rec st"
  shows "steady rec (score_ingest st rec)"
proof -
  let ?s = "wei_infer_perr_push (wei_infer_phy_push st (phy_rate_kbps rec)) (tx_frames rec) (tx_err_frames rec)"
  have "windows_ok st" "set (phy_samples st) \<subseteq> {phy_rate_kbps rec}"
    "set (perr_samples st) \<subseteq> {(tx_frames rec, tx_err_frames rec)}"
    using assms by (auto simp: steady_def zero_client_windows)
  note win = ingest_steady_windows [OF this]
  have bands: "norm_band0 st = zero_infer_band \<or> norm_band0 st = pinned (of_int (link_snr_db rec))"
    "norm_band1 st = zero_infer_band \<or> norm_band1 st = pinned (d_of_u32 (phy_rate_kbps rec))"
    "norm_band2 st = zero_infer_band \<or> norm_band2 st = pinned 0"
    using assms by (auto simp: steady_def zero_infer_client_def)
  have samples: "phy_samples (score_ingest st rec) = phy_samples ?s"
    "perr_samples (score_ingest st rec) = perr_samples ?s"
    by (simp_all add: score_ingest_def Let_def phy_samples_def perr_samples_def perr_pairs_def)
  have "norm_band0 (score_ingest st rec) = pinned (of_int (link_snr_db rec))"
    "norm_band1 (score_ingest st rec) = pinned (d_of_u32 (phy_rate_kbps rec))"
    "norm_band2 (score_ingest st rec) = pinned 0"
    using win(4,5) bands by (simp_all add: score_ingest_def Let_def widen_pinned)
  then show ?thesis
    using win samples assms by (auto simp: steady_def ingest_ok zero_client_windows)
qed

lemma history_steady: "steady rec (ingest_history (replicate (Suc n) rec))"
proof (induction n)
  case 0
  show ?case using ingest_steady [of zero_infer_client rec] by (simp add: ingest_history_def)
next
  case (Suc n)
  have "replicate (Suc (Suc n)) rec = replicate (Suc n) rec @ [rec]" by (simp add: replicate_append_same)
  then have "ingest_history (replicate (Suc (Suc n)) rec) = score_ingest (ingest_history (replicate (Suc n) rec)) rec"
    by (simp only: ingest_history_def foldl_append foldl.simps)
  with ingest_steady Suc show ?case by metis
qed

lemma normalize_pinned: "cscore_normalize_metric v w w = 0"
  by (simp add: cscore_normalize_metric_def)

text \<open>
  On a link whose metrics never change the score says nothing about the link: the client's
  own bands are a single point, every normalised metric reads 0, and the score before damping
  depends on channel utilisation alone, whatever the SNR, the PHY rate and the loss counters are.
\<close>

lemma steady_link_score:
  "score_raw env (ingest_history (replicate (Suc n) rec)) rec =
     cscore_standardize (cscore_chanutil_weight env (cscore_rms_reduce (Some [0, 0, 1]))
       (d_of_u8 (chan_util_pct rec)))"
  using history_steady [of rec n]
  by (simp only: score_raw_def Let_def steady_def pinned_def wei_infer_band.simps normalize_pinned)
    (simp add: cscore_contribs_def fl_representable_id)


theorem score_client_total_witness:
  "wei_infer_score_client exact_env zero_infer_client zero_metric_record zero_infer_result \<noteq> None"
  using score_client_total [of exact_env zero_infer_client zero_metric_record zero_infer_result]
  by (auto simp: zero_client_ok split: option.splits)

section \<open>A client's state is a function of its recent history\<close>

abbreviation loss_sample :: "wei_conn_metric_record \<Rightarrow> u32 \<times> u32" where
  "loss_sample r \<equiv> (tx_frames r, tx_err_frames r)"

lemma ingest_samples:
  assumes "windows_ok st"
  shows "phy_samples (score_ingest st rec) = slide WEI_INFER_PHY_WINDOW (phy_samples st) (phy_rate_kbps rec)"
    "perr_samples (score_ingest st rec) = slide WEI_INFER_PERR_WINDOW (perr_samples st) (loss_sample rec)"
    "norm_band0 (score_ingest st rec) = wei_infer_band_widen (norm_band0 st) (of_int (link_snr_db rec))"
proof -
  let ?s = "wei_infer_perr_push (wei_infer_phy_push st (phy_rate_kbps rec)) (tx_frames rec) (tx_err_frames rec)"
  have "phy_samples (score_ingest st rec) = phy_samples ?s"
    "perr_samples (score_ingest st rec) = perr_samples ?s"
    by (simp_all add: score_ingest_def Let_def phy_samples_def perr_samples_def perr_pairs_def)
  then show "phy_samples (score_ingest st rec) = slide WEI_INFER_PHY_WINDOW (phy_samples st) (phy_rate_kbps rec)"
    "perr_samples (score_ingest st rec) = slide WEI_INFER_PERR_WINDOW (perr_samples st) (loss_sample rec)"
    using assms by (simp_all add: phy_samples_push perr_samples_push phy_push_ok)
qed (simp add: score_ingest_def Let_def)

lemma ingest_history_windows:
  "windows_ok (ingest_history recs) \<and>
   phy_samples (ingest_history recs) = keep_last WEI_INFER_PHY_WINDOW (map phy_rate_kbps recs) \<and>
   perr_samples (ingest_history recs) = keep_last WEI_INFER_PERR_WINDOW (map loss_sample recs) \<and>
   norm_band0 (ingest_history recs) =
     foldl wei_infer_band_widen zero_infer_band (map (\<lambda>r. of_int (link_snr_db r)) recs)"
proof (induction recs rule: rev_induct)
  case Nil
  show ?case by (simp add: ingest_history_def zero_client_windows keep_last_def) (simp add: zero_infer_client_def)
next
  case (snoc r recs)
  have "ingest_history (recs @ [r]) = score_ingest (ingest_history recs) r"
    by (simp add: ingest_history_def)
  with snoc.IH show ?case
    by (simp add: ingest_samples ingest_ok slide_keep_last phy.cap_pos perr.cap_pos)
qed

text \<open>
  What a client's state retains of its records: the PHY ring holds the rates of the newest
  eight records, oldest first, the counter ring their cumulative counters, and the SNR band is
  the exact range of every SNR seen since the client was admitted.
\<close>

lemma ingest_history_retains:
  "phy_samples (ingest_history (rec # recs)) = keep_last 8 (map phy_rate_kbps (rec # recs)) \<and>
   perr_samples (ingest_history (rec # recs)) = keep_last 8 (map loss_sample (rec # recs)) \<and>
   b_lo (norm_band0 (ingest_history (rec # recs))) =
     Min ((\<lambda>r. of_int (link_snr_db r)) ` set (rec # recs)) \<and>
   b_hi (norm_band0 (ingest_history (rec # recs))) =
     Max ((\<lambda>r. of_int (link_snr_db r)) ` set (rec # recs))"
  using ingest_history_windows [of "rec # recs"]
    band_history [of "map (\<lambda>r. of_int (link_snr_db r)) (rec # recs)"]
  by (simp add: WEI_INFER_PHY_WINDOW_def WEI_INFER_PERR_WINDOW_def)



text \<open>
  Without that bound the rate is wrong: the increments are added in 32 bits, so a window with
  2^31 new frames and 2^31 new errors, half of everything lost, reads as no loss at all.
\<close>

lemma perr_rate_wraps:
  "wei_infer_perr_rate (ingest_history
     [zero_metric_record, zero_metric_record\<lparr>tx_frames := 2147483648, tx_err_frames := 2147483648\<rparr>]) = 0"
  by (simp add: ingest_history_def score_ingest_def Let_def wei_infer_perr_rate_def wei_infer_perr_push_def
      wei_infer_phy_push_def zero_infer_client_def zero_metric_record_def
      WEI_INFER_PERR_WINDOW_def WEI_INFER_PHY_WINDOW_def unat_word_ariths)

end
