(* ===== verification/Infer_Ledger.thy ===== *)
theory Infer_Ledger
  imports Infer_Window
begin

text \<open>
  The verdict-episode ledger of source/wei_infer.c: the eight most recent degraded episodes of
  one client with their start and stop, and the saturating episode count. It is proved to refine
  the unbounded history of episodes.
\<close>

section \<open>The verdict-episode ledger\<close>

definition ledger_open :: "wei_infer_episode_log \<Rightarrow> bool" where
  "ledger_open lg \<longleftrightarrow> lg_fill lg > 0 \<and> ep_stop_ms (lg_ring lg ! unat (lg_head lg)) = 0"

definition ledger_enter :: "wei_infer_episode \<Rightarrow> wei_infer_episode_log \<Rightarrow> wei_infer_episode_log" where
  "ledger_enter ep lg =
     (let lg = (if lg_fill lg > 0
                then lg\<lparr>lg_head := word_of_nat ((unat (lg_head lg) + 1) mod WEI_INFER_EPISODE_CAP)\<rparr>
                else lg\<lparr>lg_head := 0\<rparr>);
          lg = lg\<lparr>lg_ring := (lg_ring lg)[unat (lg_head lg) := ep]\<rparr>;
          lg = (if unat (lg_fill lg) < WEI_INFER_EPISODE_CAP
                then lg\<lparr>lg_fill := lg_fill lg + 1\<rparr> else lg)
      in if lg_episodes lg < 4294967295 then lg\<lparr>lg_episodes := lg_episodes lg + 1\<rparr> else lg)"

definition wei_infer_ledger_update ::
    "wei_infer_episode_log \<Rightarrow> wei_infer_verdict \<Rightarrow> int \<Rightarrow> wei_infer_episode_log" where
  "wei_infer_ledger_update lg verdict now_ms =
     (if verdict = WEI_INFER_VERDICT_DEGRADED then
        (if \<not> ledger_open lg then ledger_enter \<lparr>ep_start_ms = now_ms, ep_stop_ms = 0\<rparr> lg else lg)
      else if ledger_open lg then
        lg\<lparr>lg_ring := (lg_ring lg)[unat (lg_head lg) :=
              (lg_ring lg ! unat (lg_head lg))\<lparr>ep_stop_ms := now_ms\<rparr>]\<rparr>
      else lg)"

section \<open>The ledger keeps the newest episodes\<close>

text \<open>
  The ledger's \<open>head\<close> marks the current episode, so the next write goes one past it; the ring of
  episodes is a \<open>ring_window\<close> under that reading.
\<close>

definition ledger_next :: "wei_infer_episode_log \<Rightarrow> nat" where
  "ledger_next lg = (if lg_fill lg = 0 then 0 else (unat (lg_head lg) + 1) mod WEI_INFER_EPISODE_CAP)"

lemma inc_u8_nonzero: "unat (w :: u8) < 8 \<Longrightarrow> w + 1 \<noteq> 0"
  using unat_inc_u8 [of w] by (metis add_is_0 one_neq_zero unat_0)

interpretation ledger: ring_window WEI_INFER_EPISODE_CAP lg_ring ledger_next
  "\<lambda>lg. unat (lg_fill lg)" ledger_enter
proof unfold_locales
  fix lg ep
  show "lg_ring (ledger_enter ep lg) = (lg_ring lg)[ledger_next lg := ep]"
    by (auto simp: ledger_enter_def ledger_next_def Let_def WEI_INFER_EPISODE_CAP_def word_gt_0)
  show "ledger_next (ledger_enter ep lg) = (ledger_next lg + 1) mod WEI_INFER_EPISODE_CAP"
    using inc_u8_nonzero [of "lg_fill lg"]
    by (auto simp: ledger_enter_def ledger_next_def Let_def WEI_INFER_EPISODE_CAP_def word_gt_0)
  show "unat (lg_fill (ledger_enter ep lg)) =
      (if unat (lg_fill lg) < WEI_INFER_EPISODE_CAP then unat (lg_fill lg) + 1 else unat (lg_fill lg))"
    by (auto simp: ledger_enter_def Let_def WEI_INFER_EPISODE_CAP_def unat_inc_u8)
qed (simp add: WEI_INFER_EPISODE_CAP_def)

definition ledger_ok :: "wei_infer_episode_log \<Rightarrow> bool" where
  "ledger_ok lg \<longleftrightarrow>
     ring_ok WEI_INFER_EPISODE_CAP (lg_ring lg) (ledger_next lg) (unat (lg_fill lg)) \<and>
     unat (lg_head lg) < WEI_INFER_EPISODE_CAP"

definition ledger_contents :: "wei_infer_episode_log \<Rightarrow> wei_infer_episode list" where
  "ledger_contents lg = ring_contents (lg_ring lg) (ledger_next lg) (unat (lg_fill lg))"

lemma ledger_next_ring [simp]: "ledger_next (lg\<lparr>lg_ring := r\<rparr>) = ledger_next lg"
  by (simp add: ledger_next_def)

lemma zero_ledger: "ledger_ok zero_episode_log" "ledger_contents zero_episode_log = []"
  by (simp_all add: ledger_ok_def ledger_contents_def zero_episode_log_def ledger_next_def ring_ok_def
      ring_contents_def WEI_INFER_EPISODE_CAP_def)

lemma ledger_length: "ledger_ok lg \<Longrightarrow> length (ledger_contents lg) = unat (lg_fill lg)"
  unfolding ledger_ok_def ledger_contents_def by (blast intro: ring_contents_length)

lemma ledger_head_last:
  assumes "ledger_ok lg" "0 < unat (lg_fill lg)"
  shows "lg_ring lg ! unat (lg_head lg) = last (ledger_contents lg)"
proof -
  let ?h = "unat (lg_head lg)"
  have h: "?h < 8" using assms(1) by (simp add: ledger_ok_def WEI_INFER_EPISODE_CAP_def)
  have "((?h + 1) mod 8 + 8 - 1) mod 8 = ?h" using h by (cases "?h = 7") auto
  moreover have "ledger_next lg = (?h + 1) mod 8"
    using assms(2) by (auto simp: ledger_next_def WEI_INFER_EPISODE_CAP_def)
  ultimately have "(ledger_next lg + WEI_INFER_EPISODE_CAP - 1) mod WEI_INFER_EPISODE_CAP = ?h"
    by (simp add: WEI_INFER_EPISODE_CAP_def)
  then show ?thesis
    using ring_newest [of WEI_INFER_EPISODE_CAP "lg_ring lg" "ledger_next lg" "unat (lg_fill lg)"] assms
    by (simp add: ledger_ok_def ledger_contents_def)
qed

lemma ledger_open_iff:
  assumes "ledger_ok lg"
  shows "ledger_open lg \<longleftrightarrow> ledger_contents lg \<noteq> [] \<and> ep_stop_ms (last (ledger_contents lg)) = 0"
  using ledger_length [OF assms] ledger_head_last [OF assms]
  by (cases "unat (lg_fill lg) = 0") (auto simp: ledger_open_def word_gt_0 unat_eq_0)

text \<open>Overwriting the newest slot of a ring rewrites the newest retained element.\<close>

lemma ring_update_newest:
  assumes "ring_ok cap buf nxt fill" "0 < fill" "0 < cap"
  shows "ring_contents (buf[(nxt + cap - 1) mod cap := v]) nxt fill =
     butlast (ring_contents buf nxt fill) @ [v]"
proof (cases "fill < cap")
  case True
  then have "nxt + cap - 1 = (fill - 1) + cap" "fill - 1 < cap"
    using assms by (auto simp: ring_ok_def)
  then have "(nxt + cap - 1) mod cap = fill - 1" by (metis mod_add_self2 mod_less)
  moreover have "take fill (buf[fill - 1 := v]) = butlast (take fill buf) @ [v]"
  proof -
    have "fill = Suc (fill - 1)" using assms(2) by simp
    then show ?thesis using True assms
      by (metis butlast_take length_list_update less_imp_diff_less nth_list_update_eq ring_ok_def
          take_Suc_conv_app_nth take_update_cancel diff_Suc_1 order.strict_implies_order le_refl)
  qed
  ultimately show ?thesis using True assms by (simp add: ring_ok_def ring_contents_def)
next
  case full: False
  show ?thesis
  proof (cases "nxt = 0")
    case True
    then have "(nxt + cap - 1) mod cap = cap - 1" using assms by simp
    moreover have "buf[cap - 1 := v] = butlast buf @ [v]"
      using assms by (cases buf rule: rev_cases) (auto simp: ring_ok_def)
    ultimately show ?thesis using True full assms by (auto simp: ring_ok_def ring_contents_def)
  next
    case False
    then have "nxt + cap - 1 = (nxt - 1) + cap" "nxt - 1 < cap" using assms by (auto simp: ring_ok_def)
    then have m: "(nxt + cap - 1) mod cap = nxt - 1" by (metis mod_add_self2 mod_less)
    have "nxt = Suc (nxt - 1)" using False by simp
    then have "take nxt (buf[nxt - 1 := v]) = butlast (take nxt buf) @ [v]"
      using assms by (metis butlast_take length_list_update less_imp_diff_less nth_list_update_eq ring_ok_def
          take_Suc_conv_app_nth take_update_cancel diff_Suc_1 order.strict_implies_order le_refl)
    moreover have "drop nxt (buf[nxt - 1 := v]) = drop nxt buf" using False by simp
    moreover have "take nxt buf \<noteq> []" using False assms by (auto simp: ring_ok_def)
    ultimately show ?thesis using full assms m
      by (auto simp: ring_ok_def ring_contents_def butlast_append)
  qed
qed

lemma u32_less_max: "(w :: u32) < 4294967295 \<longleftrightarrow> w \<noteq> 4294967295"
  using uint_u32_bounds [of w] by (auto simp: word_less_alt word_uint_eq_iff)

lemma map_slide: "map f (slide cap xs v) = slide cap (map f xs) (f v)"
  by (simp add: slide_def map_tl)

lemma ledger_update_degraded:
  assumes "ledger_ok lg"
  shows "ledger_ok (wei_infer_ledger_update lg WEI_INFER_VERDICT_DEGRADED now_ms) \<and>
    ledger_contents (wei_infer_ledger_update lg WEI_INFER_VERDICT_DEGRADED now_ms) =
      (if ledger_open lg then ledger_contents lg
       else slide WEI_INFER_EPISODE_CAP (ledger_contents lg) \<lparr>ep_start_ms = now_ms, ep_stop_ms = 0\<rparr>) \<and>
    lg_episodes (wei_infer_ledger_update lg WEI_INFER_VERDICT_DEGRADED now_ms) =
      (if ledger_open lg \<or> lg_episodes lg = 4294967295 then lg_episodes lg else lg_episodes lg + 1)"
proof -
  let ?ep = "\<lparr>ep_start_ms = now_ms, ep_stop_ms = 0\<rparr>"
  have ring: "ring_ok WEI_INFER_EPISODE_CAP (lg_ring lg) (ledger_next lg) (unat (lg_fill lg))"
    using assms by (simp add: ledger_ok_def)
  have "unat (lg_head (ledger_enter ?ep lg)) < WEI_INFER_EPISODE_CAP"
    by (auto simp: ledger_enter_def Let_def WEI_INFER_EPISODE_CAP_def)
  moreover have "lg_episodes (ledger_enter ?ep lg) =
      (if lg_episodes lg = 4294967295 then lg_episodes lg else lg_episodes lg + 1)"
    using u32_less_max [of "lg_episodes lg"]
    by (auto simp: ledger_enter_def Let_def)
  ultimately show ?thesis
    using ledger.push_ok [OF ring, of ?ep] ledger.push_contents [OF ring, of ?ep] assms
    by (simp add: wei_infer_ledger_update_def ledger_ok_def slide_def ledger_length)
      (simp add: ledger_contents_def)
qed

lemma ledger_update_smooth:
  assumes "ledger_ok lg"
  shows "ledger_ok (wei_infer_ledger_update lg WEI_INFER_VERDICT_SMOOTH now_ms) \<and>
    ledger_contents (wei_infer_ledger_update lg WEI_INFER_VERDICT_SMOOTH now_ms) =
      (if ledger_open lg
       then butlast (ledger_contents lg) @ [(last (ledger_contents lg))\<lparr>ep_stop_ms := now_ms\<rparr>]
       else ledger_contents lg) \<and>
    lg_episodes (wei_infer_ledger_update lg WEI_INFER_VERDICT_SMOOTH now_ms) = lg_episodes lg"
proof (cases "ledger_open lg")
  case True
  then have fill: "0 < unat (lg_fill lg)" by (simp add: ledger_open_def word_gt_0 unat_gt_0)
  let ?h = "unat (lg_head lg)"
  let ?v = "(last (ledger_contents lg))\<lparr>ep_stop_ms := now_ms\<rparr>"
  have h: "?h < 8" using assms by (simp add: ledger_ok_def WEI_INFER_EPISODE_CAP_def)
  have "((?h + 1) mod 8 + 8 - 1) mod 8 = ?h" using h by (cases "?h = 7") auto
  then have nxt: "(ledger_next lg + WEI_INFER_EPISODE_CAP - 1) mod WEI_INFER_EPISODE_CAP = ?h"
    using fill by (auto simp: ledger_next_def WEI_INFER_EPISODE_CAP_def)
  have upd: "wei_infer_ledger_update lg WEI_INFER_VERDICT_SMOOTH now_ms =
      lg\<lparr>lg_ring := (lg_ring lg)[?h := ?v]\<rparr>"
    using True ledger_head_last [OF assms fill] by (simp add: wei_infer_ledger_update_def)
  have "ring_contents ((lg_ring lg)[?h := v]) (ledger_next lg) (unat (lg_fill lg)) =
      butlast (ledger_contents lg) @ [v]" for v
    using ring_update_newest [of WEI_INFER_EPISODE_CAP "lg_ring lg" "ledger_next lg" "unat (lg_fill lg)" v]
      assms fill nxt by (simp add: ledger_contents_def ledger_ok_def WEI_INFER_EPISODE_CAP_def)
  then have "ring_contents ((lg_ring lg)[?h := ?v]) (ledger_next lg) (unat (lg_fill lg)) =
      butlast (ledger_contents lg) @ [?v]" .
  then show ?thesis
    using True assms unfolding upd
    by (simp add: ledger_ok_def ring_ok_def
        ledger_contents_def [of "lg\<lparr>lg_ring := (lg_ring lg)[?h := ?v]\<rparr>"])
qed (use assms in \<open>simp add: wei_infer_ledger_update_def\<close>)

text \<open>
  The abstract ledger: the unbounded list of a client's degraded episodes, each with its start
  and, once over, its stop.
\<close>

type_synonym episode = "int \<times> int option"

definition episode_open :: "episode list \<Rightarrow> bool" where
  "episode_open es \<longleftrightarrow> es \<noteq> [] \<and> snd (last es) = None"

definition episode_step :: "episode list \<Rightarrow> wei_infer_verdict \<times> int \<Rightarrow> episode list" where
  "episode_step es s =
     (case s of
        (WEI_INFER_VERDICT_DEGRADED, t) \<Rightarrow> if episode_open es then es else es @ [(t, None)]
      | (WEI_INFER_VERDICT_SMOOTH, t) \<Rightarrow>
          if episode_open es then butlast es @ [(fst (last es), Some t)] else es)"

definition episode_history :: "(wei_infer_verdict \<times> int) list \<Rightarrow> episode list" where
  "episode_history ss = foldl episode_step [] ss"

definition episode_image :: "episode \<Rightarrow> wei_infer_episode" where
  "episode_image e =
     \<lparr>ep_start_ms = fst e, ep_stop_ms = (case snd e of None \<Rightarrow> 0 | Some t \<Rightarrow> t)\<rparr>"

definition ledger_run :: "(wei_infer_verdict \<times> int) list \<Rightarrow> wei_infer_episode_log" where
  "ledger_run ss = foldl (\<lambda>lg (v, t). wei_infer_ledger_update lg v t) zero_episode_log ss"

definition ledger_rel :: "episode list \<Rightarrow> wei_infer_episode_log \<Rightarrow> bool" where
  "ledger_rel es lg \<longleftrightarrow>
     ledger_ok lg \<and>
     ledger_contents lg = map episode_image (keep_last WEI_INFER_EPISODE_CAP es) \<and>
     (\<forall>e \<in> set es. snd e \<noteq> Some 0) \<and>
     uint (lg_episodes lg) = min 4294967295 (int (length es))"

lemma last_keep_last: "0 < cap \<Longrightarrow> keep_last cap es \<noteq> [] \<longleftrightarrow> es \<noteq> []"
  "0 < cap \<Longrightarrow> es \<noteq> [] \<Longrightarrow> last (keep_last cap es) = last es"
  by (cases es; auto simp: keep_last_def last_drop)+

lemma butlast_keep_last:
  "0 < cap \<Longrightarrow> es \<noteq> [] \<Longrightarrow> keep_last cap (butlast es @ [e]) = butlast (keep_last cap es) @ [e]"
  by (cases es rule: rev_cases) (auto simp: keep_last_def Suc_diff_le)

lemma ledger_rel_open:
  assumes "ledger_rel es lg"
  shows "ledger_open lg \<longleftrightarrow> episode_open es"
proof -
  have cap: "0 < WEI_INFER_EPISODE_CAP" by (rule ledger.cap_pos)
  have "ledger_open lg \<longleftrightarrow> es \<noteq> [] \<and> ep_stop_ms (episode_image (last es)) = 0"
    using assms ledger_open_iff [of lg] cap
    by (auto simp: ledger_rel_def last_map last_keep_last)
  moreover have "es \<noteq> [] \<Longrightarrow> snd (last es) \<noteq> Some 0" using assms by (auto simp: ledger_rel_def)
  ultimately show ?thesis by (auto simp: episode_open_def episode_image_def split: option.splits)
qed

lemma ledger_rel_step:
  assumes rel: "ledger_rel es lg" and t: "t \<noteq> 0"
  shows "ledger_rel (episode_step es (v, t)) (wei_infer_ledger_update lg v t)"
proof (cases v)
  case WEI_INFER_VERDICT_DEGRADED
  have ok: "ledger_ok lg" using rel by (simp add: ledger_rel_def)
  have cap: "0 < WEI_INFER_EPISODE_CAP" by (rule ledger.cap_pos)
  have slide: "slide WEI_INFER_EPISODE_CAP (map episode_image (keep_last WEI_INFER_EPISODE_CAP es)) (episode_image e)
      = map episode_image (keep_last WEI_INFER_EPISODE_CAP (es @ [e]))" for e
    by (simp only: map_slide [symmetric] slide_keep_last [OF cap])
  have img: "\<lparr>ep_start_ms = t, ep_stop_ms = 0\<rparr> = episode_image (t, None)"
    by (simp add: episode_image_def)
  have cnt: "uint (if lg_episodes lg = 4294967295 then lg_episodes lg else lg_episodes lg + 1) =
      min 4294967295 (int (length es) + 1)"
  proof (cases "lg_episodes lg = 4294967295")
    case False
    have "uint (lg_episodes lg) \<noteq> 4294967295" using False by (simp add: word_uint_eq_iff)
    then have "uint (lg_episodes lg) < 4294967295" using uint_u32_bounds [of "lg_episodes lg"] by linarith
    then show ?thesis using rel False by (simp add: ledger_rel_def uint_word_ariths)
  qed (use rel in \<open>simp add: ledger_rel_def min_def split: if_splits\<close>)
  show ?thesis
    using rel ledger_update_degraded [OF ok, of t] ledger_rel_open [OF rel] slide [of "(t, None)"] cnt
    unfolding WEI_INFER_VERDICT_DEGRADED img
    by (auto simp: ledger_rel_def episode_step_def)
next
  case WEI_INFER_VERDICT_SMOOTH
  have ok: "ledger_ok lg" using rel by (simp add: ledger_rel_def)
  have cap: "0 < WEI_INFER_EPISODE_CAP" by (rule ledger.cap_pos)
  show ?thesis
  proof (cases "episode_open es")
    case True
    then have es: "es \<noteq> []" by (simp add: episode_open_def)
    have "(episode_image (last es))\<lparr>ep_stop_ms := t\<rparr> = episode_image (fst (last es), Some t)"
      by (simp add: episode_image_def)
    then show ?thesis
      using rel ledger_update_smooth [OF ok, of t] ledger_rel_open [OF rel] True es t cap
      unfolding WEI_INFER_VERDICT_SMOOTH
      by (auto simp: ledger_rel_def episode_step_def butlast_keep_last map_butlast last_map
          last_keep_last dest: in_set_butlastD)
  next
    case False
    then show ?thesis
      using rel ledger_update_smooth [OF ok, of t] ledger_rel_open [OF rel]
      unfolding WEI_INFER_VERDICT_SMOOTH by (auto simp: ledger_rel_def episode_step_def)
  qed
qed

lemma ledger_rel_run:
  assumes "\<forall>s \<in> set ss. snd s \<noteq> 0"
  shows "ledger_rel (episode_history ss) (ledger_run ss)"
  using assms
proof (induction ss rule: rev_induct)
  case Nil
  then show ?case
    by (simp add: ledger_rel_def episode_history_def ledger_run_def zero_ledger keep_last_def)
      (simp add: zero_episode_log_def)
next
  case (snoc s ss)
  then show ?case
    using ledger_rel_step [of "episode_history ss" "ledger_run ss" "snd s" "fst s"]
    by (simp add: episode_history_def ledger_run_def case_prod_beta)
qed

text \<open>Episodes are the rising edges of the verdict sequence.\<close>

fun rising_edges :: "wei_infer_verdict \<Rightarrow> wei_infer_verdict list \<Rightarrow> nat" where
  "rising_edges prev [] = 0"
| "rising_edges prev (v # vs) =
     (if prev = WEI_INFER_VERDICT_SMOOTH \<and> v = WEI_INFER_VERDICT_DEGRADED then 1 else 0) + rising_edges v vs"

lemma episode_count_from:
  "length (foldl episode_step es ss) = length es +
     rising_edges (if episode_open es then WEI_INFER_VERDICT_DEGRADED else WEI_INFER_VERDICT_SMOOTH) (map fst ss)"
proof (induction ss arbitrary: es)
  case (Cons s ss)
  obtain v t where s: "s = (v, t)" by (cases s)
  have len: "episode_open es \<Longrightarrow> es \<noteq> []" by (simp add: episode_open_def)
  show ?case
    using Cons.IH [of "episode_step es s"] len unfolding s
    by (cases v; cases "episode_open es") (auto simp: episode_step_def, auto simp: episode_open_def)
qed simp

lemma episode_count: "length (episode_history ss) = rising_edges WEI_INFER_VERDICT_SMOOTH (map fst ss)"
  using episode_count_from [of "[]" ss] by (simp add: episode_history_def episode_open_def)

text \<open>
  C10. The ledger refines the unbounded episode history: after any sequence of verdicts stamped
  by a running clock, the ring holds exactly the newest eight episodes with their start and stop,
  oldest first, the newest of them is open exactly when the last verdict was degraded-and-not-yet
  recovered, and the counter is the number of smooth-to-degraded transitions, saturating.
\<close>

theorem ledger_refines_history:
  assumes "\<forall>s \<in> set ss. snd s \<noteq> 0"
  shows "ledger_contents (ledger_run ss) =
           map episode_image (keep_last WEI_INFER_EPISODE_CAP (episode_history ss)) \<and>
         ledger_open (ledger_run ss) = episode_open (episode_history ss) \<and>
         uint (lg_episodes (ledger_run ss)) =
           min 4294967295 (int (rising_edges WEI_INFER_VERDICT_SMOOTH (map fst ss)))"
  using ledger_rel_run [OF assms] ledger_rel_open [OF ledger_rel_run [OF assms]]
  by (simp add: ledger_rel_def episode_count)

theorem ledger_refines_history_witness:
  "lg_episodes (ledger_run [(WEI_INFER_VERDICT_DEGRADED, 5), (WEI_INFER_VERDICT_SMOOTH, 9),
      (WEI_INFER_VERDICT_DEGRADED, 12)]) = 2"
proof -
  let ?ss = "[(WEI_INFER_VERDICT_DEGRADED, 5), (WEI_INFER_VERDICT_SMOOTH, 9),
      (WEI_INFER_VERDICT_DEGRADED, 12 :: int)]"
  have "uint (lg_episodes (ledger_run ?ss)) = 2"
    using ledger_refines_history [of ?ss] by simp
  then show ?thesis by (simp add: word_uint_eq_iff)
qed

end
