(* ===== verification/Bus_Types.thy ===== *)
theory Bus_Types
  imports Infer_Types
begin

text \<open>
  The platform bus as the code uses it (bus.h and bus_common.h are not part of the repository).
  What a call into the bus returns is a parameter: a \<open>bus_env\<close> holds the descriptor's function
  pointers during one call of a wei function, each \<open>None\<close> for NULL or the code the function
  returns. The calls made are recorded in order in \<open>bus_trace\<close>, which the code never reads.
  The union in \<open>raw_data_t\<close> is a record with one field per member the code accesses; the code
  writes the discriminator with the member and reads only the member the discriminator names.
\<close>

datatype bus_error =
    bus_error_success
  | bus_error_general
  | bus_error_invalid_input
  | bus_error_other int

datatype bus_data_type =
    bus_data_type_boolean
  | bus_data_type_uint32
  | bus_data_type_string
  | bus_data_type_bytes
  | bus_data_type_other int

record wei_report_record =
  rr_client_mac :: mac
  rr_score :: u8
  rr_verdict :: wei_infer_verdict
  rr_report_ts_ms :: int

datatype bus_payload = PAYLOAD_NULL | PAYLOAD_TEXT string | PAYLOAD_REPORT wei_report_record

record raw_data =
  data_type :: bus_data_type
  raw_b :: bool
  raw_u32 :: u32
  raw_bytes :: bus_payload
  raw_data_len :: nat

definition zero_raw_data :: raw_data where
  "zero_raw_data =
     \<lparr>data_type = bus_data_type_other 0, raw_b = False, raw_u32 = 0, raw_bytes = PAYLOAD_NULL,
      raw_data_len = 0\<rparr>"

datatype bus_element_type = bus_element_type_property | bus_element_type_event

datatype bus_handler =
    H_enable_get | H_enable_set | H_config_get | H_config_set | H_event_sub

record bus_data_element =
  el_name :: string
  el_type :: bus_element_type
  el_get :: "bus_handler option"
  el_set :: "bus_handler option"
  el_sub :: "bus_handler option"
  el_data_type :: bus_data_type
  el_flag :: bool

datatype bus_call =
    CALL_init
  | CALL_open string bus_error
  | CALL_register "bus_data_element list" bus_error
  | CALL_close
  | CALL_publish string raw_data bus_error

record bus_env =
  desc_present :: bool
  bus_open_fn :: "bus_error option"
  bus_close_fn :: bool
  bus_reg_data_element_fn :: "bus_error option"
  bus_event_publish_fn :: "bus_error option"

text \<open>The static state of weid_bus.c and wei_connperf_dml.c, and the calls made so far.\<close>

record bus_state =
  bus_opened :: bool
  dml_registered :: bool
  dml_config_flags :: u32
  bus_trace :: "bus_call list"

definition g_weid_bus_init :: bus_state where
  "g_weid_bus_init = \<lparr>bus_opened = False, dml_registered = False, dml_config_flags = 0, bus_trace = []\<rparr>"

definition bus_log :: "bus_call \<Rightarrow> bus_state \<Rightarrow> bus_state" where
  "bus_log c s = s\<lparr>bus_trace := bus_trace s @ [c]\<rparr>"

lemma bus_log_simps [simp]:
  "bus_opened (bus_log c s) = bus_opened s" "dml_registered (bus_log c s) = dml_registered s"
  "dml_config_flags (bus_log c s) = dml_config_flags s" "bus_trace (bus_log c s) = bus_trace s @ [c]"
  by (simp_all add: bus_log_def)

end
