(* ===== verification/Rfc.thy ===== *)
theory Rfc
  imports Prelude
begin

text \<open>
  The daemon's enable store (source/weid_rfc.c): one cached boolean and the nvram file it is
  loaded from and persisted to. cJSON and the C library's file functions are parameters:
  \<open>'j cjson\<close> holds the cJSON operations the code calls, \<open>nvram_io\<close> the outcomes of the file
  operations of one call. The file is a string of bytes; \<open>None\<close> is an absent file.
\<close>

record 'j cjson =
  cj_create :: "'j option"
  cj_add_object :: "'j \<Rightarrow> string \<Rightarrow> 'j option"
  cj_add_bool_in :: "'j \<Rightarrow> string \<Rightarrow> string \<Rightarrow> bool \<Rightarrow> 'j option"
  cj_add_string :: "'j \<Rightarrow> string \<Rightarrow> string \<Rightarrow> 'j"
  cj_add_number :: "'j \<Rightarrow> string \<Rightarrow> int \<Rightarrow> 'j"
  cj_print :: "'j \<Rightarrow> nat \<Rightarrow> string option"
  cj_parse :: "string \<Rightarrow> 'j option"
  cj_get :: "'j option \<Rightarrow> string \<Rightarrow> 'j option"
  cj_is_bool :: "'j option \<Rightarrow> bool"
  cj_is_true :: "'j option \<Rightarrow> bool"

text \<open>
  \<open>cj_add_object d k\<close> is \<open>cJSON_AddObjectToObject(d, k)\<close> and \<open>cj_add_bool_in d k f b\<close> is
  \<open>cJSON_AddBoolToObject\<close> on the object so added under \<open>k\<close>: both return the changed document.
\<close>

record nvram_io =
  io_open_r :: bool
  io_fread :: nat  \<comment> \<open>the bytes the stream yields before an error, if it meets one\<close>
  io_open_w :: bool
  io_put :: bool
  io_close :: bool
  io_partial :: "string \<Rightarrow> string"

record rfc_store =
  connperf_enabled :: bool
  nvram :: "string option"

definition WEID_RFC_BUF_MAX :: nat where "WEID_RFC_BUF_MAX = 4096"
definition WEID_RFC_OBJECT :: string where "WEID_RFC_OBJECT = ''RFC''"
definition WEID_RFC_CONNPERF :: string where "WEID_RFC_CONNPERF = ''WhenConnected''"

definition g_weid_rfc_init :: bool where
  "g_weid_rfc_init = False"

section \<open>Operations\<close>

text \<open>At most \<open>cap - 1\<close> bytes are read, fewer on a read error; the result is the buffer and the count.\<close>

definition weid_rfc_read_file :: "nvram_io \<Rightarrow> rfc_store \<Rightarrow> nat \<Rightarrow> string \<times> nat" where
  "weid_rfc_read_file io s cap =
     (case nvram s of
        None \<Rightarrow> ([], 0)
      | Some content \<Rightarrow>
          if \<not> io_open_r io then ([], 0)
          else (let buf = take (min (cap - 1) (io_fread io)) content in (buf, length buf)))"

text \<open>A C string ends at its first NUL.\<close>

definition c_string :: "string \<Rightarrow> string" where
  "c_string bytes = takeWhile (\<lambda>c. c \<noteq> CHR 0x00) bytes"

definition weid_rfc_load :: "'j cjson \<Rightarrow> nvram_io \<Rightarrow> rfc_store \<Rightarrow> rfc_store" where
  "weid_rfc_load cj io s =
     (let s = s\<lparr>connperf_enabled := False\<rparr>;
          (buf, n) = weid_rfc_read_file io s WEID_RFC_BUF_MAX
      in if n = 0 then s
         else case cj_parse cj (c_string buf) of
                None \<Rightarrow> s
              | Some doc \<Rightarrow>
                  let flag = cj_get cj (cj_get cj (Some doc) WEID_RFC_OBJECT) WEID_RFC_CONNPERF
                  in if cj_is_bool cj flag
                     then s\<lparr>connperf_enabled := (if cj_is_true cj flag then True else False)\<rparr>
                     else s)"

definition weid_rfc_connperf_enabled :: "rfc_store \<Rightarrow> bool" where
  "weid_rfc_connperf_enabled s = connperf_enabled s"

text \<open>Opening for writing truncates the file before anything is written.\<close>

definition weid_rfc_connperf_set :: "'j cjson \<Rightarrow> nvram_io \<Rightarrow> rfc_store \<Rightarrow> bool \<Rightarrow> rfc_store \<times> int" where
  "weid_rfc_connperf_set cj io s enabled =
     (let s = s\<lparr>connperf_enabled := enabled\<rparr>
      in case cj_create cj of
           None \<Rightarrow> (s, - 1)
         | Some doc \<Rightarrow>
             (case cj_add_object cj doc WEID_RFC_OBJECT of
                None \<Rightarrow> (s, - 1)
              | Some doc \<Rightarrow>
                  (case cj_add_bool_in cj doc WEID_RFC_OBJECT WEID_RFC_CONNPERF enabled of
                     None \<Rightarrow> (s, - 1)
                   | Some doc \<Rightarrow>
                       (case cj_print cj doc WEID_RFC_BUF_MAX of
                          None \<Rightarrow> (s, - 1)
                        | Some text \<Rightarrow>
                            if \<not> io_open_w io then (s, - 1)
                            else
                              let ok = io_put io;
                                  ok = (if \<not> io_close io then False else ok);
                                  s = s\<lparr>nvram := Some (if ok then text else io_partial io text)\<rparr>
                              in (s, if ok then 0 else - 1)))))"

section \<open>What the code relies on of cJSON\<close>

text \<open>
  Documented behaviour: a document that fits the buffer prints as a nonempty NUL-terminated text
  (so shorter than the buffer, with no NUL inside) that parses back to the document.
\<close>

definition cjson_print_parse :: "'j cjson \<Rightarrow> bool" where
  "cjson_print_parse cj \<longleftrightarrow>
     (\<forall>d n t. cj_print cj d n = Some t \<longrightarrow>
        t \<noteq> [] \<and> length t < n \<and> CHR 0x00 \<notin> set t \<and> cj_parse cj t = Some d)"

text \<open>An item added under a key is the item found under it.\<close>

definition cjson_get_added :: "'j cjson \<Rightarrow> bool" where
  "cjson_get_added cj \<longleftrightarrow>
     (\<forall>d k f b d'. cj_add_bool_in cj d k f b = Some d' \<longrightarrow>
        cj_is_bool cj (cj_get cj (cj_get cj (Some d') k) f) \<and>
        cj_is_true cj (cj_get cj (cj_get cj (Some d') k) f) = b)"

section \<open>Properties\<close>

lemma rfc_load_default:
  "nvram s = None \<or> \<not> io_open_r io \<or> nvram s = Some [] \<Longrightarrow> \<not> connperf_enabled (weid_rfc_load cj io s)"
  by (auto simp: weid_rfc_load_def weid_rfc_read_file_def split: option.splits)

lemma rfc_load_eq:
  "weid_rfc_load cj io s =
     s\<lparr>connperf_enabled :=
         (case nvram s of
            None \<Rightarrow> False
          | Some content \<Rightarrow>
              io_open_r io \<and> take (min 4095 (io_fread io)) content \<noteq> [] \<and>
              (case cj_parse cj (c_string (take (min 4095 (io_fread io)) content)) of
                 None \<Rightarrow> False
               | Some doc \<Rightarrow>
                   (let flag = cj_get cj (cj_get cj (Some doc) ''RFC'') ''WhenConnected''
                    in cj_is_bool cj flag \<and> cj_is_true cj flag)))\<rparr>"
proof (cases "nvram s")
  case (Some content)
  then show ?thesis
    by (cases "take (min 4095 (io_fread io)) content")
      (auto simp: weid_rfc_load_def weid_rfc_read_file_def WEID_RFC_BUF_MAX_def WEID_RFC_OBJECT_def
        WEID_RFC_CONNPERF_def Let_def split: option.splits)
qed (simp add: weid_rfc_load_def weid_rfc_read_file_def)


lemma rfc_set_cases:
  obtains (failed) "weid_rfc_connperf_set cj io s b = (s\<lparr>connperf_enabled := b\<rparr>, - 1)"
  | (torn) t where "weid_rfc_connperf_set cj io s b =
      (s\<lparr>connperf_enabled := b, nvram := Some (io_partial io t)\<rparr>, - 1)"
  | (stored) d d' t where "weid_rfc_connperf_set cj io s b = (s\<lparr>connperf_enabled := b, nvram := Some t\<rparr>, 0)"
      "cj_add_bool_in cj d WEID_RFC_OBJECT WEID_RFC_CONNPERF b = Some d'"
      "cj_print cj d' WEID_RFC_BUF_MAX = Some t"
proof (cases "snd (weid_rfc_connperf_set cj io s b) = 0")
  case True
  then show thesis
    using stored by (auto simp: weid_rfc_connperf_set_def Let_def split: option.splits if_splits)
next
  case False
  then show thesis
    using failed torn
    by (auto simp: weid_rfc_connperf_set_def Let_def split: option.splits if_splits)
qed


text \<open>A concrete cJSON for the one document the daemon writes, to instantiate the hypotheses.\<close>

datatype json_val = JBool bool | JObj "(string \<times> json_val) list"

definition rfc_doc :: "bool \<Rightarrow> json_val" where
  "rfc_doc b = JObj [(''RFC'', JObj [(''WhenConnected'', JBool b)])]"

definition rfc_text :: "bool \<Rightarrow> string" where
  "rfc_text b = (if b then ''{RFC:{WhenConnected:true}}'' else ''{RFC:{WhenConnected:false}}'')"

definition sample_cjson :: "json_val cjson" where
  "sample_cjson =
     \<lparr>cj_create = Some (JObj []),
      cj_add_object = (\<lambda>d k. Some (JObj [(k, JObj [])])),
      cj_add_bool_in = (\<lambda>d k f b. Some (JObj [(k, JObj [(f, JBool b)])])),
      cj_add_string = (\<lambda>d k v. d),
      cj_add_number = (\<lambda>d k v. d),
      cj_print = (\<lambda>d n. if length (rfc_text False) < n
                        then (if d = rfc_doc True then Some (rfc_text True)
                              else if d = rfc_doc False then Some (rfc_text False) else None)
                        else None),
      cj_parse = (\<lambda>t. if t = rfc_text True then Some (rfc_doc True)
                      else if t = rfc_text False then Some (rfc_doc False) else None),
      cj_get = (\<lambda>d k. case d of Some (JObj m) \<Rightarrow> map_of m k | _ \<Rightarrow> None),
      cj_is_bool = (\<lambda>v. case v of Some (JBool b) \<Rightarrow> True | _ \<Rightarrow> False),
      cj_is_true = (\<lambda>v. case v of Some (JBool b) \<Rightarrow> b | _ \<Rightarrow> False)\<rparr>"

lemma sample_cjson_laws: "cjson_print_parse sample_cjson" "cjson_get_added sample_cjson"
  by (auto simp: cjson_print_parse_def cjson_get_added_def sample_cjson_def rfc_text_def rfc_doc_def
      split: if_splits)

definition sample_io :: nvram_io where
  "sample_io = \<lparr>io_open_r = True, io_fread = 4096, io_open_w = True, io_put = True, io_close = True, io_partial = (\<lambda>t. [])\<rparr>"


end
