(* ===== verification/Connperf_Dml.thy ===== *)
theory Connperf_Dml
  imports Bus_Types Rfc
begin

text \<open>
  The connected-performance data-model surface (source/wei_connperf_dml.c): the accessors of the
  enable and config-flags properties, the event subscription handler, and the register-once entry.
  A pointer argument is an option; the accessors write through \<open>p_data\<close>, so they return it.
\<close>

definition WEI_CONNPERF_DM_ENABLE :: string where
  "WEI_CONNPERF_DM_ENABLE = ''Device.WiFi.X_RDK_ConnPerf.Enable''"
definition WEI_CONNPERF_DM_CONFIG_FLAGS :: string where
  "WEI_CONNPERF_DM_CONFIG_FLAGS = ''Device.WiFi.X_RDK_ConnPerf.ConfigFlags''"
definition WEI_CONNPERF_DM_REPORT_EVENT :: string where
  "WEI_CONNPERF_DM_REPORT_EVENT = ''Device.WiFi.X_RDK_ConnPerf.Report''"

section \<open>Accessors\<close>

definition wei_connperf_enable_get ::
    "rfc_store \<Rightarrow> string option \<Rightarrow> raw_data option \<Rightarrow> bus_error \<times> raw_data option" where
  "wei_connperf_enable_get store nm p_data =
     (case (nm, p_data) of
        (Some _, Some d) \<Rightarrow>
          (bus_error_success,
           Some (d\<lparr>data_type := bus_data_type_boolean, raw_b := weid_rfc_connperf_enabled store\<rparr>))
      | _ \<Rightarrow> (bus_error_invalid_input, p_data))"

definition wei_connperf_enable_set ::
    "'j cjson \<Rightarrow> nvram_io \<Rightarrow> rfc_store \<Rightarrow> string option \<Rightarrow> raw_data option \<Rightarrow> bus_error \<times> rfc_store" where
  "wei_connperf_enable_set cj io store nm p_data =
     (case (nm, p_data) of
        (Some _, Some d) \<Rightarrow>
          if data_type d \<noteq> bus_data_type_boolean then (bus_error_invalid_input, store)
          else (case weid_rfc_connperf_set cj io store (raw_b d) of
                  (store', rc) \<Rightarrow>
                    if rc \<noteq> 0 then (bus_error_general, store') else (bus_error_success, store'))
      | _ \<Rightarrow> (bus_error_invalid_input, store))"

definition wei_connperf_config_get ::
    "bus_state \<Rightarrow> string option \<Rightarrow> raw_data option \<Rightarrow> bus_error \<times> raw_data option" where
  "wei_connperf_config_get s nm p_data =
     (case (nm, p_data) of
        (Some _, Some d) \<Rightarrow>
          (bus_error_success,
           Some (d\<lparr>data_type := bus_data_type_uint32, raw_u32 := dml_config_flags s\<rparr>))
      | _ \<Rightarrow> (bus_error_invalid_input, p_data))"

definition wei_connperf_config_set ::
    "bus_state \<Rightarrow> string option \<Rightarrow> raw_data option \<Rightarrow> bus_error \<times> bus_state" where
  "wei_connperf_config_set s nm p_data =
     (case (nm, p_data) of
        (Some _, Some d) \<Rightarrow>
          if data_type d \<noteq> bus_data_type_uint32 then (bus_error_invalid_input, s)
          else (bus_error_success, s\<lparr>dml_config_flags := raw_u32 d\<rparr>)
      | _ \<Rightarrow> (bus_error_invalid_input, s))"

definition wei_connperf_event_sub :: "string option \<Rightarrow> int \<Rightarrow> int \<Rightarrow> bool option \<Rightarrow> bus_error" where
  "wei_connperf_event_sub event_name action interval auto_publish = bus_error_success"

section \<open>Registration\<close>

definition connperf_data_elements :: "bus_data_element list" where
  "connperf_data_elements =
     [\<lparr>el_name = WEI_CONNPERF_DM_ENABLE, el_type = bus_element_type_property,
       el_get = Some H_enable_get, el_set = Some H_enable_set, el_sub = None,
       el_data_type = bus_data_type_boolean, el_flag = True\<rparr>,
      \<lparr>el_name = WEI_CONNPERF_DM_CONFIG_FLAGS, el_type = bus_element_type_property,
       el_get = Some H_config_get, el_set = Some H_config_set, el_sub = None,
       el_data_type = bus_data_type_uint32, el_flag = True\<rparr>,
      \<lparr>el_name = WEI_CONNPERF_DM_REPORT_EVENT, el_type = bus_element_type_event,
       el_get = None, el_set = None, el_sub = Some H_event_sub,
       el_data_type = bus_data_type_bytes, el_flag = False\<rparr>]"

text \<open>The handle argument matters only for being NULL.\<close>

definition wei_connperf_dml_register :: "bus_env \<Rightarrow> unit option \<Rightarrow> bus_state \<Rightarrow> bus_error \<times> bus_state" where
  "wei_connperf_dml_register env handle s =
     (if handle = None then (bus_error_invalid_input, s)
      else if dml_registered s then (bus_error_success, s)
      else if \<not> desc_present env then (bus_error_general, s)
      else case bus_reg_data_element_fn env of
             None \<Rightarrow> (bus_error_general, s)
           | Some rc \<Rightarrow>
               let s = bus_log (CALL_register connperf_data_elements rc) s
               in if rc \<noteq> bus_error_success then (rc, s)
                  else (bus_error_success, s\<lparr>dml_registered := True\<rparr>))"

section \<open>The table as the bus uses it\<close>

text \<open>
  The bus calls the handlers the table registers. The state they share is the enable store and
  the flags word; \<open>None\<close> is a handler used in a role it was not written for.
\<close>

fun dml_read ::
    "rfc_store \<times> bus_state \<Rightarrow> bus_handler \<Rightarrow> string option \<Rightarrow> raw_data option \<Rightarrow> (bus_error \<times> raw_data option) option" where
  "dml_read (store, s) H_enable_get nm p = Some (wei_connperf_enable_get store nm p)"
| "dml_read (store, s) H_config_get nm p = Some (wei_connperf_config_get s nm p)"
| "dml_read st _ nm p = None"

fun dml_write ::
    "'j cjson \<Rightarrow> nvram_io \<Rightarrow> rfc_store \<times> bus_state \<Rightarrow> bus_handler \<Rightarrow> string option \<Rightarrow> raw_data option
      \<Rightarrow> (bus_error \<times> rfc_store \<times> bus_state) option" where
  "dml_write cj io (store, s) H_enable_set nm p =
     (case wei_connperf_enable_set cj io store nm p of (rc, store) \<Rightarrow> Some (rc, store, s))"
| "dml_write cj io (store, s) H_config_set nm p =
     (case wei_connperf_config_set s nm p of (rc, s) \<Rightarrow> Some (rc, store, s))"
| "dml_write cj io st _ nm p = None"

text \<open>Two payloads of one type that hold the same value.\<close>

definition same_value :: "raw_data \<Rightarrow> raw_data \<Rightarrow> bool" where
  "same_value d d' \<longleftrightarrow> data_type d = data_type d' \<and>
     (data_type d = bus_data_type_boolean \<longrightarrow> raw_b d = raw_b d') \<and>
     (data_type d = bus_data_type_uint32 \<longrightarrow> raw_u32 d = raw_u32 d')"

lemma enable_set_eq:
  "wei_connperf_enable_set cj io store nm p =
     (if nm \<noteq> None \<and> p \<noteq> None \<and> data_type (the p) = bus_data_type_boolean
      then (if snd (weid_rfc_connperf_set cj io store (raw_b (the p))) \<noteq> 0 then bus_error_general else bus_error_success,
            fst (weid_rfc_connperf_set cj io store (raw_b (the p))))
      else (bus_error_invalid_input, store))"
  by (cases nm; cases p) (simp_all add: wei_connperf_enable_set_def case_prod_beta)

lemma config_set_eq:
  "wei_connperf_config_set s nm p =
     (if nm \<noteq> None \<and> p \<noteq> None \<and> data_type (the p) = bus_data_type_uint32
      then (bus_error_success, s\<lparr>dml_config_flags := raw_u32 (the p)\<rparr>)
      else (bus_error_invalid_input, s))"
  by (cases nm; cases p) (simp_all add: wei_connperf_config_set_def)

lemma rfc_set_cached: "connperf_enabled (fst (weid_rfc_connperf_set cj io store b)) = b"
  by (rule rfc_set_cases [of cj io store b]) auto

text \<open>
  C31. The registered table is well typed. An element has a getter and a setter, and is then a
  property, or neither, and is then an event with a subscription handler. A get of a property
  succeeds on any buffer and delivers the declared type. A set with any other type, or with a
  NULL name or buffer, is refused and changes nothing; a set with the declared type is never
  refused, is what the next get delivers, and leaves what any other getter delivers alone; and
  it reports success exactly when, for the enable property, the value was also persisted.
\<close>

theorem data_model_typed:
  assumes "e \<in> set connperf_data_elements"
  shows "case (el_get e, el_set e) of
      (None, None) \<Rightarrow> el_type e = bus_element_type_event \<and> el_sub e \<noteq> None
    | (Some g, Some h) \<Rightarrow>
        el_type e = bus_element_type_property \<and>
        (\<exists>d'. dml_read st g (Some n) (Some d) = Some (bus_error_success, Some d') \<and> data_type d' = el_data_type e) \<and>
        (case dml_write cj io st h nm p of
           None \<Rightarrow> False
         | Some (rc, st') \<Rightarrow>
             if nm \<noteq> None \<and> p \<noteq> None \<and> data_type (the p) = el_data_type e
             then (\<exists>d'. dml_read st' g (Some n) (Some d) = Some (bus_error_success, Some d') \<and> same_value d' (the p)) \<and>
                  (g' = g \<or> dml_read st' g' (Some n) (Some d) = dml_read st g' (Some n) (Some d)) \<and>
                  rc = (if h = H_enable_set \<and> snd (weid_rfc_connperf_set cj io (fst st) (raw_b (the p))) \<noteq> 0
                        then bus_error_general else bus_error_success)
             else rc = bus_error_invalid_input \<and> st' = st)
    | _ \<Rightarrow> False"
proof -
  obtain store s where st: "st = (store, s)" by fastforce
  have others: "g' = H_enable_get \<or> dml_read (store', s) g' (Some n) (Some d) = dml_read (store, s) g' (Some n) (Some d)"
    "g' = H_config_get \<or> dml_read (store, s') g' (Some n) (Some d) = dml_read (store, s) g' (Some n) (Some d)" for store' s'
    by (cases g'; simp)+
  consider (enable) "el_get e = Some H_enable_get" "el_set e = Some H_enable_set" "el_data_type e = bus_data_type_boolean"
      "el_type e = bus_element_type_property"
    | (config) "el_get e = Some H_config_get" "el_set e = Some H_config_set" "el_data_type e = bus_data_type_uint32"
      "el_type e = bus_element_type_property"
    | (event) "el_get e = None" "el_set e = None" "el_type e = bus_element_type_event" "el_sub e = Some H_event_sub"
    using assms by (auto simp: connperf_data_elements_def)
  then show ?thesis
  proof cases
    case enable
    show ?thesis
      unfolding enable option.case prod.case st dml_write.simps enable_set_eq
      by (simp add: wei_connperf_enable_get_def weid_rfc_connperf_enabled_def rfc_set_cached same_value_def others)
  next
    case config
    show ?thesis
      unfolding config option.case prod.case st dml_write.simps config_set_eq
      by (simp add: wei_connperf_config_get_def same_value_def others)
  next
    case event
    then show ?thesis by simp
  qed
qed

theorem data_model_typed_witness:
  "case dml_write sample_cjson sample_io (\<lparr>connperf_enabled = False, nvram = None\<rparr>, g_weid_bus_init) H_config_set (Some ''flags'')
       (Some (zero_raw_data\<lparr>data_type := bus_data_type_boolean, raw_b := True\<rparr>)) of
     Some (rc, st') \<Rightarrow> rc = bus_error_invalid_input \<and> st' = (\<lparr>connperf_enabled = False, nvram = None\<rparr>, g_weid_bus_init)
   | None \<Rightarrow> False"
proof -
  have e: "connperf_data_elements ! 1 \<in> set connperf_data_elements" by (rule nth_mem) (simp add: connperf_data_elements_def)
  show ?thesis
    using data_model_typed [OF e, where st = "(\<lparr>connperf_enabled = False, nvram = None\<rparr>, g_weid_bus_init)"
        and n = "''flags''" and d = zero_raw_data and cj = sample_cjson and io = sample_io and nm = "Some ''flags''"
        and p = "Some (zero_raw_data\<lparr>data_type := bus_data_type_boolean, raw_b := True\<rparr>)"]
    by (simp add: connperf_data_elements_def config_set_eq same_value_def)
qed

text \<open>
  The declared type of the report event is bytes, as the record publisher sends it
  (Report_Publish); the edge report is published through the same element as a string.
\<close>

lemma dml_register_frame [simp]:
  "bus_opened (snd (wei_connperf_dml_register env h s)) = bus_opened s"
  by (auto simp: wei_connperf_dml_register_def Let_def split: option.splits)

end
