(* ===== verification/Bus.thy ===== *)
theory Bus
  imports Connperf_Dml
begin

text \<open>
  The daemon's bus lifecycle (source/weid_bus.c): the one bus handle, opened and registered once,
  closed once. A handle pointer is \<open>Some ()\<close> or NULL.
\<close>

definition WEID_BUS_COMPONENT_NAME :: string where "WEID_BUS_COMPONENT_NAME = ''wei''"

definition weid_bus_open :: "bus_env \<Rightarrow> bus_state \<Rightarrow> bus_error \<times> bus_state" where
  "weid_bus_open env s =
     (if bus_opened s then (bus_error_success, s)
      else
        let s = bus_log CALL_init s
        in if \<not> desc_present env \<or> bus_open_fn env = None \<or> \<not> bus_close_fn env
           then (bus_error_general, s)
           else
             let rc = the (bus_open_fn env);
                 s = bus_log (CALL_open WEID_BUS_COMPONENT_NAME rc) s
             in if rc \<noteq> bus_error_success then (rc, s)
                else
                  let s = s\<lparr>bus_opened := True\<rparr>;
                      (rc, s) = wei_connperf_dml_register env (Some ()) s
                  in if rc \<noteq> bus_error_success
                     then (rc, (bus_log CALL_close s)\<lparr>bus_opened := False\<rparr>)
                     else (bus_error_success, s))"

definition weid_bus_close :: "bus_env \<Rightarrow> bus_state \<Rightarrow> bus_state" where
  "weid_bus_close env s =
     (if \<not> bus_opened s then s
      else let s = (if desc_present env \<and> bus_close_fn env then bus_log CALL_close s else s)
           in s\<lparr>bus_opened := False\<rparr>)"

definition weid_bus_handle :: "bus_state \<Rightarrow> unit option" where
  "weid_bus_handle s = (if bus_opened s then Some () else None)"

section \<open>The lifecycle contract\<close>

text \<open>Bus handles held: successful opens minus closes; and successful registrations.\<close>

fun handles_held :: "bus_call list \<Rightarrow> int" where
  "handles_held [] = 0"
| "handles_held (CALL_open n rc # cs) = (if rc = bus_error_success then 1 else 0) + handles_held cs"
| "handles_held (CALL_close # cs) = - 1 + handles_held cs"
| "handles_held (_ # cs) = handles_held cs"

fun registrations :: "bus_call list \<Rightarrow> nat" where
  "registrations [] = 0"
| "registrations (CALL_register els rc # cs) = (if rc = bus_error_success then 1 else 0) + registrations cs"
| "registrations (_ # cs) = registrations cs"

lemma handles_held_append [simp]: "handles_held (cs @ ds) = handles_held cs + handles_held ds"
  by (induction cs rule: handles_held.induct) auto

lemma registrations_append [simp]: "registrations (cs @ ds) = registrations cs + registrations ds"
  by (induction cs rule: registrations.induct) auto

datatype bus_op = OP_open bus_env | OP_close bus_env

definition bus_step :: "bus_state \<Rightarrow> bus_op \<Rightarrow> bus_state" where
  "bus_step s op =
     (case op of OP_open env \<Rightarrow> snd (weid_bus_open env s) | OP_close env \<Rightarrow> weid_bus_close env s)"

definition bus_run :: "bus_op list \<Rightarrow> bus_state" where
  "bus_run ops = foldl bus_step g_weid_bus_init ops"

definition closable :: "bus_op \<Rightarrow> bool" where
  "closable op = (case op of OP_open env \<Rightarrow> True | OP_close env \<Rightarrow> desc_present env \<and> bus_close_fn env)"

definition bus_inv :: "bus_state \<Rightarrow> bool" where
  "bus_inv s \<longleftrightarrow>
     handles_held (bus_trace s) = (if bus_opened s then 1 else 0) \<and>
     registrations (bus_trace s) = (if dml_registered s then 1 else 0) \<and>
     (bus_opened s \<longrightarrow> dml_registered s)"

lemma dml_register_success:
  "fst (wei_connperf_dml_register env (Some ()) s) = bus_error_success \<Longrightarrow>
     dml_registered (snd (wei_connperf_dml_register env (Some ()) s))"
  by (auto simp: wei_connperf_dml_register_def Let_def split: option.splits if_splits)

lemma dml_register_counts:
  "handles_held (bus_trace (snd (wei_connperf_dml_register env h s))) = handles_held (bus_trace s)"
  "registrations (bus_trace s) = (if dml_registered s then 1 else 0) \<Longrightarrow>
     registrations (bus_trace (snd (wei_connperf_dml_register env h s))) =
       (if dml_registered (snd (wei_connperf_dml_register env h s)) then 1 else 0)"
  by (auto simp: wei_connperf_dml_register_def Let_def split: option.splits)

lemma bus_open_inv [wei_inv]:
  assumes "bus_inv s"
  shows "bus_inv (snd (weid_bus_open env s)) \<and>
    (fst (weid_bus_open env s) = bus_error_success \<longleftrightarrow> bus_opened (snd (weid_bus_open env s)))"
proof (cases "bus_opened s \<or> \<not> desc_present env \<or> bus_open_fn env = None \<or> \<not> bus_close_fn env \<or>
    the (bus_open_fn env) \<noteq> bus_error_success")
  case True
  then show ?thesis using assms by (auto simp: weid_bus_open_def bus_inv_def Let_def)
next
  case False
  let ?s = "(bus_log (CALL_open WEID_BUS_COMPONENT_NAME bus_error_success) (bus_log CALL_init s))\<lparr>bus_opened := True\<rparr>"
  have count: "registrations (bus_trace ?s) = (if dml_registered ?s then 1 else 0)"
    using assms by (simp add: bus_inv_def)
  show ?thesis
    using False assms dml_register_counts(1) [of env "Some ()" ?s] dml_register_counts(2) [OF count, of env "Some ()"]
      dml_register_success [of env ?s] dml_register_frame [of env "Some ()" ?s]
    by (auto simp: weid_bus_open_def bus_inv_def Let_def case_prod_beta)
qed

lemma bus_close_inv [wei_inv]:
  "bus_inv s \<Longrightarrow> desc_present env \<and> bus_close_fn env \<Longrightarrow> bus_inv (weid_bus_close env s)"
  by (auto simp: weid_bus_close_def bus_inv_def)

text \<open>
  C27. Over any sequence of opens and closes, with any failure of the bus at any point, exactly
  one bus handle is held while the daemon considers itself open and none otherwise (a failed
  registration leaks nothing), the handle the publish path gets is NULL exactly when none is
  held, the data model is registered at most once in the daemon's life, and never unopened-but-published:
  an open handle implies a completed registration. The bus keeps its close function.
\<close>

theorem bus_lifecycle:
  assumes "list_all closable ops"
  shows "handles_held (bus_trace (bus_run ops)) = (if bus_opened (bus_run ops) then 1 else 0) \<and>
    (weid_bus_handle (bus_run ops) = None) = (handles_held (bus_trace (bus_run ops)) = 0) \<and>
    registrations (bus_trace (bus_run ops)) \<le> 1 \<and>
    (bus_opened (bus_run ops) \<longrightarrow> registrations (bus_trace (bus_run ops)) = 1)"
proof -
  have "bus_inv (bus_run ops)"
    using assms
  proof (induction ops rule: rev_induct)
    case Nil
    show ?case by (simp add: bus_run_def g_weid_bus_init_def bus_inv_def)
  next
    case (snoc op ops)
    then show ?case
      using bus_open_inv [of "bus_run ops"] bus_close_inv [of "bus_run ops"]
      by (cases op) (auto simp: bus_run_def bus_step_def closable_def)
  qed
  then show ?thesis by (auto simp: bus_inv_def weid_bus_handle_def)
qed

definition good_bus :: bus_env where
  "good_bus = \<lparr>desc_present = True, bus_open_fn = Some bus_error_success, bus_close_fn = True,
     bus_reg_data_element_fn = Some bus_error_success, bus_event_publish_fn = Some bus_error_success\<rparr>"

theorem bus_lifecycle_witness:
  "handles_held (bus_trace (bus_run [OP_open good_bus, OP_close good_bus, OP_open good_bus])) = 1"
proof -
  let ?ops = "[OP_open good_bus, OP_close good_bus, OP_open good_bus]"
  have "list_all closable ?ops" by (simp add: closable_def good_bus_def)
  from bus_lifecycle [OF this] show ?thesis
    by (simp add: bus_run_def bus_step_def weid_bus_open_def weid_bus_close_def good_bus_def
        g_weid_bus_init_def wei_connperf_dml_register_def Let_def)
qed

text \<open>
  Registration is once per process, not once per handle: after a close and a second open the
  daemon holds a handle on which no data element was ever registered, and reports success.
\<close>

lemma bus_reopen_unregistered:
  "let s = bus_run [OP_open good_bus, OP_close good_bus];
       (rc, s') = weid_bus_open good_bus s
   in rc = bus_error_success \<and> weid_bus_handle s' = Some () \<and>
      bus_trace s' = bus_trace s @ [CALL_init, CALL_open WEID_BUS_COMPONENT_NAME bus_error_success]"
  by (simp add: bus_run_def bus_step_def weid_bus_open_def weid_bus_close_def good_bus_def
      g_weid_bus_init_def wei_connperf_dml_register_def weid_bus_handle_def Let_def)

end
