(* ===== verification/Perfreport.thy ===== *)
theory Perfreport
  imports Bus
begin

text \<open>
  The edge-triggered report path (source/wei_perfreport.c): the per-client cadence table, the
  reused serialization buffer, the emit gate and the per-interval publish. The static variables
  are the fields of \<open>perf_state\<close>; the buffer is modelled by its capacity (\<open>None\<close> is NULL), since
  its text is returned by the call that filled it and never read again. The environment of one
  call holds cJSON, the formatted time (an external function) and the outcomes of malloc and
  realloc.
\<close>

record wei_perfreport_client_state =
  pc_mac :: mac
  pc_in_use :: bool
  last_emitted_class :: wei_infer_verdict
  warmup_ticks_seen :: u16

record perf_state =
  state_tbl :: "wei_perfreport_client_state list"
  json_buf_cap :: "nat option"

record 'j perf_env =
  pe_cjson :: "'j cjson"
  pe_time :: string
  pe_malloc :: bool
  pe_realloc :: "nat \<Rightarrow> bool"

definition zero_perf_client :: wei_perfreport_client_state where [zero_defs]:
  "zero_perf_client =
     \<lparr>pc_mac = zero_mac, pc_in_use = False, last_emitted_class = WEI_INFER_VERDICT_SMOOTH,
      warmup_ticks_seen = 0\<rparr>"

definition perf_init :: perf_state where
  "perf_init = \<lparr>state_tbl = replicate WEI_TRACK_MAX_CLIENTS zero_perf_client, json_buf_cap = None\<rparr>"

section \<open>The cadence table\<close>

definition perf_fresh :: "mac \<Rightarrow> wei_perfreport_client_state" where
  "perf_fresh m = zero_perf_client\<lparr>pc_mac := m, pc_in_use := True\<rparr>"

definition perf_admit ::
    "wei_perfreport_client_state list \<Rightarrow> mac \<Rightarrow> unit \<Rightarrow> wei_perfreport_client_state list \<times> nat option" where
  "perf_admit tbl m u =
     (case scan_slots pc_in_use pc_mac m 0 None tbl of
        (Some i, _) \<Rightarrow> (tbl, Some i)
      | (None, None) \<Rightarrow> (tbl, None)
      | (None, Some slot) \<Rightarrow> (tbl[slot := perf_fresh m], Some slot))"

definition wei_perfreport_state_find_or_add :: "perf_state \<Rightarrow> mac option \<Rightarrow> perf_state \<times> nat option" where
  "wei_perfreport_state_find_or_add s client_mac =
     (case client_mac of
        None \<Rightarrow> (s, None)
      | Some m \<Rightarrow> (case perf_admit (state_tbl s) m () of (tbl, r) \<Rightarrow> (s\<lparr>state_tbl := tbl\<rparr>, r)))"

interpretation perf_tbl: keyed_table pc_in_use pc_mac "\<lambda>_ e. e" "\<lambda>m _ _. perf_fresh m" perf_admit
proof unfold_locales
  fix es :: "wei_perfreport_client_state list" and m i x
  show "perf_admit es m x = (es[i := es ! i], Some i)" if "slot_of pc_in_use pc_mac es m = Some i"
    using scan_slots_0(1) [OF that] by (auto simp: perf_admit_def)
  show "perf_admit es m x = (es[i := perf_fresh m], Some i)"
    if "slot_of pc_in_use pc_mac es m = None" "free_slot pc_in_use es = Some i"
    using scan_slots_0(2) [OF that(1)] that(2) by (simp add: perf_admit_def)
  show "perf_admit es m x = (es, None)"
    if "slot_of pc_in_use pc_mac es m = None" "free_slot pc_in_use es = None"
    using scan_slots_0(2) [OF that(1)] that(2) by (simp add: perf_admit_def)
qed (simp_all add: perf_fresh_def)

section \<open>The report document\<close>

fun wei_perfreport_verdict_name :: "wei_infer_verdict \<Rightarrow> string" where
  "wei_perfreport_verdict_name WEI_INFER_VERDICT_SMOOTH = ''smooth''"
| "wei_perfreport_verdict_name WEI_INFER_VERDICT_DEGRADED = ''degraded''"

fun wei_perfreport_contributor_name :: "wei_infer_contributor \<Rightarrow> string" where
  "wei_perfreport_contributor_name WEI_INFER_CONTRIB_NONE = ''none''"
| "wei_perfreport_contributor_name WEI_INFER_CONTRIB_SNR = ''snr''"
| "wei_perfreport_contributor_name WEI_INFER_CONTRIB_PHY = ''phy_rate''"
| "wei_perfreport_contributor_name WEI_INFER_CONTRIB_PKT_ERR = ''pkt_err''"
| "wei_perfreport_contributor_name WEI_INFER_CONTRIB_CHAN_UTIL = ''chan_util''"

definition hex_digit :: "nat \<Rightarrow> char" where
  "hex_digit n = ''0123456789abcdef'' ! n"

definition hex2 :: "u8 \<Rightarrow> string" where
  "hex2 b = [hex_digit (unat b div 16), hex_digit (unat b mod 16)]"

text \<open>\<open>"%02x:%02x:%02x:%02x:%02x:%02x"\<close>\<close>

definition mac_str :: "mac \<Rightarrow> string" where
  "mac_str m =
     (case m of Mac a b c d e f \<Rightarrow>
        hex2 a @ '':'' @ hex2 b @ '':'' @ hex2 c @ '':'' @ hex2 d @ '':'' @ hex2 e @ '':'' @ hex2 f)"

definition report_doc ::
    "'j perf_env \<Rightarrow> 'j \<Rightarrow> mac \<Rightarrow> wei_infer_result \<Rightarrow> wei_conn_metric_record \<Rightarrow> 'j" where
  "report_doc pe doc client_mac result metrics =
     (let str = cj_add_string (pe_cjson pe); num = cj_add_number (pe_cjson pe);
          doc = str doc ''client_mac'' (mac_str client_mac);
          doc = str doc ''report_time'' (pe_time pe);
          doc = num doc ''score'' (uint (ir_score result));
          doc = str doc ''verdict'' (wei_perfreport_verdict_name (ir_verdict result));
          doc = str doc ''dominant'' (wei_perfreport_contributor_name (ir_dominant result));
          doc = num doc ''snr_db'' (link_snr_db metrics);
          doc = num doc ''phy_rate_kbps'' (uint (phy_rate_kbps metrics));
          doc = num doc ''pkt_err_pct'' (uint (ir_pkt_err_pct result));
          doc = num doc ''chan_util_pct'' (uint (chan_util_pct metrics));
          doc = num doc ''activity_state'' (wei_conn_metric_state_val (activity_state metrics));
          doc = num doc ''status'' (wei_conn_metric_status_val (status metrics))
      in doc)"

definition WEI_PERFREPORT_JSON_BUF_INIT :: nat where "WEI_PERFREPORT_JSON_BUF_INIT = 512"
definition WEI_PERFREPORT_JSON_BUF_MAX :: nat where "WEI_PERFREPORT_JSON_BUF_MAX = 2048"

text \<open>
  The grow-and-retry loop. The loop has no counter, so the recursion is partial: \<open>None\<close> would be
  an endless loop. The value is the text, if one was produced, and the buffer's capacity.
\<close>

partial_function (option) wei_perfreport_json_serialize ::
    "'j perf_env \<Rightarrow> 'j \<Rightarrow> nat option \<Rightarrow> (string option \<times> nat option) option" where
  "wei_perfreport_json_serialize pe doc buf =
     (if buf = None \<and> \<not> pe_malloc pe then Some (None, None)
      else
        let cap = (case buf of None \<Rightarrow> WEI_PERFREPORT_JSON_BUF_INIT | Some c \<Rightarrow> c)
        in case cj_print (pe_cjson pe) doc cap of
             Some text \<Rightarrow> Some (Some text, Some cap)
           | None \<Rightarrow>
               if cap \<ge> WEI_PERFREPORT_JSON_BUF_MAX then Some (None, Some cap)
               else
                 let next = cap * 2;
                     next = (if next > WEI_PERFREPORT_JSON_BUF_MAX then WEI_PERFREPORT_JSON_BUF_MAX else next)
                 in if \<not> pe_realloc pe next then Some (None, Some cap)
                    else wei_perfreport_json_serialize pe doc (Some next))"

definition wei_perfreport_build_json ::
    "'j perf_env \<Rightarrow> perf_state \<Rightarrow> mac option \<Rightarrow> wei_infer_result option \<Rightarrow> wei_conn_metric_record option
      \<Rightarrow> (string option \<times> perf_state) option" where
  "wei_perfreport_build_json pe s client_mac result metrics =
     (case (client_mac, result, metrics) of
        (Some m, Some r, Some rec) \<Rightarrow>
          (case cj_create (pe_cjson pe) of
             None \<Rightarrow> Some (None, s)
           | Some doc \<Rightarrow>
               map_option (\<lambda>(json, cap). (json, s\<lparr>json_buf_cap := cap\<rparr>))
                 (wei_perfreport_json_serialize pe (report_doc pe doc m r rec) (json_buf_cap s)))
      | _ \<Rightarrow> Some (None, s))"

section \<open>The emit gate and the publish\<close>

definition WEI_PERFREPORT_WARMUP_INTERVALS :: u16 where "WEI_PERFREPORT_WARMUP_INTERVALS = 3"

definition wei_perfreport_should_emit ::
    "rfc_store \<Rightarrow> wei_perfreport_client_state \<Rightarrow> wei_infer_verdict
      \<Rightarrow> wei_perfreport_client_state \<times> bool" where
  "wei_perfreport_should_emit store st current_class =
     (if \<not> weid_rfc_connperf_enabled store then (st, False)
      else if warmup_ticks_seen st < WEI_PERFREPORT_WARMUP_INTERVALS
      then (st\<lparr>warmup_ticks_seen := warmup_ticks_seen st + 1\<rparr>, False)
      else if current_class = last_emitted_class st then (st, False)
      else (st, True))"

definition report_payload :: "string \<Rightarrow> raw_data" where
  "report_payload json =
     zero_raw_data\<lparr>data_type := bus_data_type_string, raw_bytes := PAYLOAD_TEXT json,
       raw_data_len := length json + 1\<rparr>"

definition wei_perfreport_publish_tick ::
    "'j perf_env \<Rightarrow> rfc_store \<Rightarrow> bus_env \<Rightarrow> mac option \<Rightarrow> wei_infer_result option
      \<Rightarrow> wei_conn_metric_record option \<Rightarrow> perf_state \<times> bus_state
      \<Rightarrow> (bus_error \<times> perf_state \<times> bus_state) option" where
  "wei_perfreport_publish_tick pe store env client_mac result metrics ps =
     (case ps of (s, b) \<Rightarrow>
      case (client_mac, result, metrics) of
        (Some m, Some res, Some rec) \<Rightarrow>
          (case wei_perfreport_state_find_or_add s (Some m) of
             (s, None) \<Rightarrow> Some (bus_error_success, s, b)
           | (s, Some i) \<Rightarrow>
               (case wei_perfreport_should_emit store (state_tbl s ! i) (ir_verdict res) of
                  (st, emit) \<Rightarrow>
                    let s = s\<lparr>state_tbl := (state_tbl s)[i := st]\<rparr>
                    in if \<not> emit then Some (bus_error_success, s, b)
                       else if weid_bus_handle b = None \<or> \<not> desc_present env \<or> bus_event_publish_fn env = None
                       then Some (bus_error_general, s, b)
                       else
                         (case wei_perfreport_build_json pe s client_mac result metrics of
                            None \<Rightarrow> None
                          | Some (None, s) \<Rightarrow> Some (bus_error_general, s, b)
                          | Some (Some json, s) \<Rightarrow>
                              let rc = the (bus_event_publish_fn env);
                                  b = bus_log (CALL_publish WEI_CONNPERF_DM_REPORT_EVENT (report_payload json) rc) b
                              in if rc \<noteq> bus_error_success then Some (rc, s, b)
                                 else Some (bus_error_success,
                                        s\<lparr>state_tbl := (state_tbl s)[i :=
                                          (state_tbl s ! i)\<lparr>last_emitted_class := ir_verdict res\<rparr>]\<rparr>, b))))
      | _ \<Rightarrow> Some (bus_error_invalid_input, s, b))"

section \<open>Serialization terminates within its bound\<close>

lemma json_serialize_from:
  assumes "0 < c"
  shows "\<exists>json n. wei_perfreport_json_serialize pe doc (Some c) = Some (json, Some n) \<and>
    c \<le> n \<and> n \<le> max c WEI_PERFREPORT_JSON_BUF_MAX \<and>
    (case json of None \<Rightarrow> True | Some t \<Rightarrow> cj_print (pe_cjson pe) doc n = Some t)"
  using assms
proof (induction "WEI_PERFREPORT_JSON_BUF_MAX - c" arbitrary: c rule: less_induct)
  case less
  let ?next = "if c * 2 > WEI_PERFREPORT_JSON_BUF_MAX then WEI_PERFREPORT_JSON_BUF_MAX else c * 2"
  note unfold = wei_perfreport_json_serialize.simps [of pe doc "Some c"]
  show ?case
  proof (cases "cj_print (pe_cjson pe) doc c = None \<and> c < WEI_PERFREPORT_JSON_BUF_MAX \<and> pe_realloc pe ?next")
    case True
    then have lt: "c < ?next" "?next \<le> WEI_PERFREPORT_JSON_BUF_MAX" using less.prems by auto
    then have "WEI_PERFREPORT_JSON_BUF_MAX - ?next < WEI_PERFREPORT_JSON_BUF_MAX - c" "0 < ?next" by linarith+
    from less.hyps [OF this] obtain json n where
      "wei_perfreport_json_serialize pe doc (Some ?next) = Some (json, Some n)"
      "?next \<le> n" "n \<le> max ?next WEI_PERFREPORT_JSON_BUF_MAX"
      "case json of None \<Rightarrow> True | Some t \<Rightarrow> cj_print (pe_cjson pe) doc n = Some t" by blast
    moreover have "wei_perfreport_json_serialize pe doc (Some c) = wei_perfreport_json_serialize pe doc (Some ?next)"
      using True unfold by (simp add: Let_def not_le)
    ultimately show ?thesis using lt True by (intro exI [of _ json] exI [of _ n]) auto
  next
    case False
    then show ?thesis unfolding unfold by (auto simp: Let_def split: option.splits)
  qed
qed

lemma json_serialize_some:
  assumes "case buf of None \<Rightarrow> True | Some c \<Rightarrow> 0 < c \<and> c \<le> 2048"
  shows "\<exists>json buf'. wei_perfreport_json_serialize pe doc buf = Some (json, buf') \<and>
    (case buf' of None \<Rightarrow> buf = None \<and> json = None
     | Some n \<Rightarrow> 0 < n \<and> n \<le> 2048 \<and> (case buf of None \<Rightarrow> 512 \<le> n | Some c \<Rightarrow> c \<le> n) \<and>
         (case json of None \<Rightarrow> True | Some t \<Rightarrow> cj_print (pe_cjson pe) doc n = Some t))"
proof (cases buf)
  case None
  have same: "pe_malloc pe \<Longrightarrow> wei_perfreport_json_serialize pe doc None =
      wei_perfreport_json_serialize pe doc (Some WEI_PERFREPORT_JSON_BUF_INIT)"
    by (simp add: wei_perfreport_json_serialize.simps [of pe doc None]
        wei_perfreport_json_serialize.simps [of pe doc "Some WEI_PERFREPORT_JSON_BUF_INIT"])
  show ?thesis
  proof (cases "pe_malloc pe")
    case True
    then show ?thesis
      using json_serialize_from [of WEI_PERFREPORT_JSON_BUF_INIT pe doc] None
      by (fastforce simp: same WEI_PERFREPORT_JSON_BUF_INIT_def WEI_PERFREPORT_JSON_BUF_MAX_def)
  qed (simp add: None wei_perfreport_json_serialize.simps)
next
  case (Some c)
  then show ?thesis
    using json_serialize_from [of c pe doc] assms by (fastforce simp: WEI_PERFREPORT_JSON_BUF_MAX_def)
qed

text \<open>
  C26. The grow-and-retry serialization always returns, whatever cJSON and the allocator do, the
  buffer never grows beyond 2048 bytes and never shrinks, a returned text was printed into
  the buffer's final capacity, and a failed allocation leaves the previous buffer in place.
\<close>

theorem json_serialize_total:
  assumes "case buf of None \<Rightarrow> True | Some c \<Rightarrow> 0 < c \<and> c \<le> 2048"
  shows "\<exists>json buf'. wei_perfreport_json_serialize pe doc buf = Some (json, buf') \<and>
    (case buf' of None \<Rightarrow> buf = None \<and> json = None
     | Some n \<Rightarrow> 0 < n \<and> n \<le> 2048 \<and> (case buf of None \<Rightarrow> 512 \<le> n | Some c \<Rightarrow> c \<le> n) \<and>
         (case json of None \<Rightarrow> True | Some t \<Rightarrow> cj_print (pe_cjson pe) doc n = Some t))"
  using assms by (rule json_serialize_some)

theorem json_serialize_total_witness:
  "wei_perfreport_json_serialize
     \<lparr>pe_cjson = sample_cjson, pe_time = ''now'', pe_malloc = True, pe_realloc = (\<lambda>n. n < 2000)\<rparr>
     (JBool True) (Some 512) \<noteq> None"
  using json_serialize_total [of "Some 512"
      "\<lparr>pe_cjson = sample_cjson, pe_time = ''now'', pe_malloc = True, pe_realloc = (\<lambda>n. n < 2000)\<rparr>" "JBool True"]
  by auto

section \<open>The MAC string is a faithful key\<close>

lemma hex_digit_inject: "m < 16 \<Longrightarrow> n < 16 \<Longrightarrow> hex_digit m = hex_digit n \<longleftrightarrow> m = n"
proof -
  have "distinct ''0123456789abcdef''" "length ''0123456789abcdef'' = 16" by simp_all
  then show "m < 16 \<Longrightarrow> n < 16 \<Longrightarrow> hex_digit m = hex_digit n \<longleftrightarrow> m = n"
    unfolding hex_digit_def by (metis nth_eq_iff_index_eq)
qed

lemma hex2_inject [simp]: "hex2 a = hex2 b \<longleftrightarrow> a = b"
proof
  assume "hex2 a = hex2 b"
  have lt: "unat a div 16 < 16" "unat b div 16 < 16"
    using unsigned_less [of a, where 'a = nat] unsigned_less [of b, where 'a = nat] by auto
  have "unat a div 16 = unat b div 16" "unat a mod 16 = unat b mod 16"
    using \<open>hex2 a = hex2 b\<close> hex_digit_inject [OF lt] by (auto simp: hex2_def hex_digit_inject)
  then have "unat a = unat b" by (metis div_mult_mod_eq)
  then show "a = b" by (simp add: word_unat_eq_iff)
qed simp

lemma hex2_length [simp]: "length (hex2 a) = 2"
  by (simp add: hex2_def)

text \<open>
  The key a report carries identifies the client: the formatted MAC always fits its
  18-byte buffer exactly, and two clients with the same string are the same client.
\<close>

lemma mac_str_key: "length (mac_str m) = 17 \<and> (mac_str m = mac_str m') = (m = m')"
  by (cases m; cases m') (auto simp: mac_str_def)

section \<open>The reports are the verdict's edges\<close>

record 'j perf_tick =
  pt_mac :: mac
  pt_result :: wei_infer_result
  pt_metrics :: wei_conn_metric_record
  pt_pe :: "'j perf_env"
  pt_store :: rfc_store
  pt_bus :: bus_env

fun perf_run :: "'j perf_tick list \<Rightarrow> perf_state \<times> bus_state \<Rightarrow> (perf_state \<times> bus_state) option" where
  "perf_run [] ps = Some ps"
| "perf_run (t # ts) ps =
     (case wei_perfreport_publish_tick (pt_pe t) (pt_store t) (pt_bus t) (Some (pt_mac t))
             (Some (pt_result t)) (Some (pt_metrics t)) ps of
        None \<Rightarrow> None
      | Some (rc, s, b) \<Rightarrow> perf_run ts (s, b))"

text \<open>
  The abstract cadence of one client: the intervals of warm-up seen and the verdict of its last
  report. A step says whether the interval's report goes out.
\<close>

type_synonym cadence = "nat \<times> wei_infer_verdict"

definition cadence_step :: "cadence \<Rightarrow> bool \<Rightarrow> wei_infer_verdict \<Rightarrow> cadence \<times> bool" where
  "cadence_step c enabled v =
     (if \<not> enabled then (c, False)
      else if fst c < 3 then ((fst c + 1, snd c), False)
      else if v = snd c then (c, False)
      else ((fst c, v), True))"

definition tick_step :: "cadence \<Rightarrow> 'j perf_tick \<Rightarrow> cadence \<times> bool" where
  "tick_step c t = cadence_step c (connperf_enabled (pt_store t)) (ir_verdict (pt_result t))"

fun emitted :: "(mac \<Rightarrow> cadence) \<Rightarrow> 'j perf_tick list \<Rightarrow> 'j perf_tick list" where
  "emitted c [] = []"
| "emitted c (t # ts) =
     (if snd (tick_step (c (pt_mac t)) t) then [t] else []) @
     emitted (c(pt_mac t := fst (tick_step (c (pt_mac t)) t))) ts"

definition cadence_start :: "mac \<Rightarrow> cadence" where
  "cadence_start m = (0, WEI_INFER_VERDICT_SMOOTH)"

text \<open>The changes of a sequence against a baseline.\<close>

fun edges :: "'a \<Rightarrow> 'a list \<Rightarrow> 'a list" where
  "edges l [] = []"
| "edges l (v # vs) = (if v = l then edges l vs else v # edges v vs)"

lemma emitted_cong:
  "\<forall>t \<in> set ts. c (pt_mac t) = d (pt_mac t) \<Longrightarrow> emitted c ts = emitted d ts"
proof (induction ts arbitrary: c d)
  case (Cons t ts)
  then have "emitted (c(pt_mac t := fst (tick_step (c (pt_mac t)) t))) ts =
      emitted (d(pt_mac t := fst (tick_step (c (pt_mac t)) t))) ts"
    by (intro Cons.IH) auto
  with Cons.prems show ?case by simp
qed simp

lemma emitted_filter: "filter (\<lambda>t. pt_mac t = m) (emitted c ts) = emitted c (filter (\<lambda>t. pt_mac t = m) ts)"
proof (induction ts arbitrary: c)
  case (Cons t ts)
  have "emitted (c(pt_mac t := x)) (filter (\<lambda>t. pt_mac t = m) ts) = emitted c (filter (\<lambda>t. pt_mac t = m) ts)"
    if "pt_mac t \<noteq> m" for x
    using that by (intro emitted_cong) auto
  then show ?case by (cases "pt_mac t = m") (simp_all add: Cons.IH del: fun_upd_apply)
qed simp

lemma emitted_one_client:
  assumes "\<forall>t \<in> set ts. pt_mac t = m" "fst (c m) \<le> 3"
  shows "map (\<lambda>t. ir_verdict (pt_result t)) (emitted c ts) =
     edges (snd (c m)) (drop (3 - fst (c m))
       (map (\<lambda>t. ir_verdict (pt_result t)) (filter (\<lambda>t. connperf_enabled (pt_store t)) ts)))"
  using assms
proof (induction ts arbitrary: c)
  case (Cons t ts)
  let ?c' = "c(m := fst (tick_step (c m) t))"
  have "fst (?c' m) \<le> 3" using Cons.prems(2) by (auto simp: tick_step_def cadence_step_def)
  then have IH: "map (\<lambda>t. ir_verdict (pt_result t)) (emitted ?c' ts) =
     edges (snd (?c' m)) (drop (3 - fst (?c' m))
       (map (\<lambda>t. ir_verdict (pt_result t)) (filter (\<lambda>t. connperf_enabled (pt_store t)) ts)))"
    using Cons.prems(1) by (intro Cons.IH) auto
  have "3 - fst (c m) = Suc (3 - Suc (fst (c m)))" if "fst (c m) < 3" using that by simp
  then show ?case
    using IH Cons.prems by (auto simp: tick_step_def cadence_step_def)
qed simp

text \<open>One client's share of the selected ticks: the edges of its verdicts after the warm-up.\<close>

lemma emitted_edges:
  "map (\<lambda>t. ir_verdict (pt_result t)) (filter (\<lambda>t. pt_mac t = m) (emitted cadence_start ts)) =
    edges WEI_INFER_VERDICT_SMOOTH (drop 3
      (map (\<lambda>t. ir_verdict (pt_result t))
        (filter (\<lambda>t. connperf_enabled (pt_store t)) (filter (\<lambda>t. pt_mac t = m) ts))))"
  using emitted_one_client [of "filter (\<lambda>t. pt_mac t = m) ts" m cadence_start]
  by (simp add: emitted_filter cadence_start_def)

section \<open>The table implements the cadence\<close>

definition perf_ok :: "perf_state \<Rightarrow> bool" where
  "perf_ok s \<longleftrightarrow>
     length (state_tbl s) = WEI_TRACK_MAX_CLIENTS \<and> unique_keys pc_in_use pc_mac (state_tbl s) \<and>
     (case json_buf_cap s of None \<Rightarrow> True | Some c \<Rightarrow> 512 \<le> c \<and> c \<le> 2048)"

definition client_cadence :: "wei_perfreport_client_state \<Rightarrow> cadence" where
  "client_cadence st = (unat (warmup_ticks_seen st), last_emitted_class st)"

definition cadence_rel :: "(mac \<Rightarrow> cadence) \<Rightarrow> wei_perfreport_client_state list \<Rightarrow> bool" where
  "cadence_rel c tbl \<longleftrightarrow>
     (\<forall>m. c m = (case slot_of pc_in_use pc_mac tbl m of
                   None \<Rightarrow> cadence_start m | Some i \<Rightarrow> client_cadence (tbl ! i)))"

lemma perf_init_ok [wei_inv]: "perf_ok perf_init" "cadence_rel cadence_start (state_tbl perf_init)"
  "table_keys pc_in_use pc_mac (state_tbl perf_init) = []"
  by (auto simp: perf_ok_def perf_init_def unique_keys_replicate zero_perf_client_def cadence_rel_def
      slot_of_None_iff table_keys_def split: option.splits)
    (use slot_of_SomeD in fastforce)

lemma cadence_rel_admit:
  assumes "cadence_rel c tbl" "unique_keys pc_in_use pc_mac tbl" "perf_admit tbl m () = (tbl', Some i)"
  shows "cadence_rel c tbl' \<and> slot_of pc_in_use pc_mac tbl' m = Some i"
proof -
  have slot: "slot_of pc_in_use pc_mac tbl' m = Some i"
    using perf_tbl.admit_found [OF assms(2,3)] .
  have "c m = client_cadence (tbl' ! i)"
  proof (rule perf_tbl.admit_cases [of tbl m "()"])
    fix j assume "slot_of pc_in_use pc_mac tbl m = None" "perf_admit tbl m () = (tbl[j := perf_fresh m], Some j)"
      "j < length tbl"
    then show ?thesis using assms(1,3)
      by (simp add: cadence_rel_def cadence_start_def client_cadence_def perf_fresh_def zero_perf_client_def)
  qed (use assms(1,3) in \<open>auto simp: cadence_rel_def\<close>)
  moreover have "c m' = (case slot_of pc_in_use pc_mac tbl' m' of
      None \<Rightarrow> cadence_start m' | Some i \<Rightarrow> client_cadence (tbl' ! i))" if "m' \<noteq> m" for m'
  proof -
    have same: "slot_of pc_in_use pc_mac tbl' m' = slot_of pc_in_use pc_mac tbl m'"
      using perf_tbl.admit_other [OF that, of tbl "()"] assms(3) by simp
    show ?thesis
    proof (cases "slot_of pc_in_use pc_mac tbl m'")
      case (Some j)
      have "j \<noteq> i"
        using slot_of_SomeD(3) [OF slot] slot_of_SomeD(3) [of pc_in_use pc_mac tbl' m' j] same Some that by auto
      then have "tbl' ! j = tbl ! j" using perf_tbl.admit_frame [OF assms(3), of j] by simp
      then show ?thesis using assms(1) same Some by (simp add: cadence_rel_def)
    qed (use assms(1) same in \<open>simp add: cadence_rel_def\<close>)
  qed
  ultimately have "c m' = (case slot_of pc_in_use pc_mac tbl' m' of
      None \<Rightarrow> cadence_start m' | Some i \<Rightarrow> client_cadence (tbl' ! i))" for m'
    using slot by (cases "m' = m") simp_all
  then show ?thesis using slot by (simp add: cadence_rel_def)
qed

lemma cadence_rel_update:
  assumes "cadence_rel c tbl" "slot_of pc_in_use pc_mac tbl m = Some i"
    and "pc_in_use st" "pc_mac st = m" "unique_keys pc_in_use pc_mac tbl"
  shows "cadence_rel (c(m := client_cadence st)) (tbl[i := st])"
    "slot_of pc_in_use pc_mac (tbl[i := st]) m = Some i"
    "unique_keys pc_in_use pc_mac (tbl[i := st])"
    "table_keys pc_in_use pc_mac (tbl[i := st]) = table_keys pc_in_use pc_mac tbl"
proof -
  note i = slot_of_SomeD [OF assms(2)]
  show uniq: "unique_keys pc_in_use pc_mac (tbl[i := st])"
    using assms i by (intro unique_keys_update_same) auto
  then show slot: "slot_of pc_in_use pc_mac (tbl[i := st]) m = Some i"
    using i assms by (intro slot_of_unique) auto
  have other: "slot_of pc_in_use pc_mac (tbl[i := st]) m' = slot_of pc_in_use pc_mac tbl m'" if "m' \<noteq> m" for m'
    using i assms(3,4) that by (intro slot_of_update_other) auto
  have "j \<noteq> i" if "m' \<noteq> m" "slot_of pc_in_use pc_mac tbl m' = Some j" for m' j
    using that i slot_of_SomeD(3) [OF that(2)] by auto
  then show "cadence_rel (c(m := client_cadence st)) (tbl[i := st])"
    using assms(1) slot other i(1) by (fastforce simp: cadence_rel_def split: option.splits)
  show "table_keys pc_in_use pc_mac (tbl[i := st]) = table_keys pc_in_use pc_mac tbl"
    using i assms(3,4) by (intro table_keys_update) auto
qed


text \<open>A tick whose bus and allocator work and whose document fits the initial buffer.\<close>

definition report_text :: "'j perf_tick \<Rightarrow> string" where
  "report_text t =
     the (cj_print (pe_cjson (pt_pe t))
       (report_doc (pt_pe t) (the (cj_create (pe_cjson (pt_pe t)))) (pt_mac t) (pt_result t) (pt_metrics t)) 512)"

definition tick_delivers :: "'j perf_tick \<Rightarrow> bool" where
  "tick_delivers t \<longleftrightarrow>
     desc_present (pt_bus t) \<and> bus_event_publish_fn (pt_bus t) = Some bus_error_success \<and>
     pe_malloc (pt_pe t) \<and> cj_create (pe_cjson (pt_pe t)) \<noteq> None \<and>
     (\<forall>n \<ge> 512. cj_print (pe_cjson (pt_pe t))
        (report_doc (pt_pe t) (the (cj_create (pe_cjson (pt_pe t)))) (pt_mac t) (pt_result t) (pt_metrics t)) n
          = Some (report_text t))"

definition report_call :: "'j perf_tick \<Rightarrow> bus_call" where
  "report_call t = CALL_publish WEI_CONNPERF_DM_REPORT_EVENT (report_payload (report_text t)) bus_error_success"

lemma build_json_delivers:
  assumes "tick_delivers t" "perf_ok s"
  shows "\<exists>c. wei_perfreport_build_json (pt_pe t) s (Some (pt_mac t)) (Some (pt_result t)) (Some (pt_metrics t)) =
      Some (Some (report_text t), s\<lparr>json_buf_cap := Some c\<rparr>) \<and> 512 \<le> c \<and> c \<le> 2048"
proof -
  obtain d where d: "cj_create (pe_cjson (pt_pe t)) = Some d" using assms(1) by (auto simp: tick_delivers_def)
  define c where "c = (case json_buf_cap s of None \<Rightarrow> 512 | Some c \<Rightarrow> c)"
  have c: "512 \<le> c" "c \<le> 2048" using assms(2) by (auto simp: c_def perf_ok_def split: option.splits)
  have "wei_perfreport_json_serialize (pt_pe t) (report_doc (pt_pe t) d (pt_mac t) (pt_result t) (pt_metrics t))
      (json_buf_cap s) = Some (Some (report_text t), Some c)"
    using assms(1) c d
    by (subst wei_perfreport_json_serialize.simps)
      (auto simp: tick_delivers_def c_def WEI_PERFREPORT_JSON_BUF_INIT_def Let_def split: option.splits)
  then show ?thesis using c d
    by (intro exI [of _ c]) (simp add: wei_perfreport_build_json_def)
qed

lemma should_emit_step:
  assumes "warmup_ticks_seen st \<le> 3"
  shows "case wei_perfreport_should_emit store st v of (st', e) \<Rightarrow>
    pc_in_use st' = pc_in_use st \<and> pc_mac st' = pc_mac st \<and> warmup_ticks_seen st' \<le> 3 \<and>
    e = snd (cadence_step (client_cadence st) (connperf_enabled store) v) \<and>
    client_cadence (if e then st'\<lparr>last_emitted_class := v\<rparr> else st') =
      fst (cadence_step (client_cadence st) (connperf_enabled store) v)"
proof -
  have "unat (warmup_ticks_seen st) < 3 \<Longrightarrow> unat (warmup_ticks_seen st + 1) = unat (warmup_ticks_seen st) + 1"
    by (simp add: unat_word_ariths)
  then show ?thesis
    using assms
    by (auto simp: wei_perfreport_should_emit_def weid_rfc_connperf_enabled_def client_cadence_def
        cadence_step_def WEI_PERFREPORT_WARMUP_INTERVALS_def word_less_nat_alt word_le_nat_alt)
qed

definition warm_bounded :: "wei_perfreport_client_state list \<Rightarrow> bool" where
  "warm_bounded tbl \<longleftrightarrow> list_all (\<lambda>st. warmup_ticks_seen st \<le> 3) tbl"

lemma warm_admit: "warm_bounded tbl \<Longrightarrow> warm_bounded (fst (perf_admit tbl m u))"
  by (rule perf_tbl.admit_cases [of tbl m u])
    (auto simp: warm_bounded_def perf_fresh_def zero_perf_client_def intro!: list_all_update)

definition perf_rel :: "mac set \<Rightarrow> (mac \<Rightarrow> cadence) \<Rightarrow> perf_state \<Rightarrow> bool" where
  "perf_rel M c s \<longleftrightarrow> perf_ok s \<and> cadence_rel c (state_tbl s) \<and> warm_bounded (state_tbl s) \<and>
     set (table_keys pc_in_use pc_mac (state_tbl s)) \<subseteq> M"

lemma perf_admitted:
  assumes rel: "perf_rel M c s" and M: "finite M" "card M \<le> WEI_TRACK_MAX_CLIENTS" "m \<in> M"
  shows "\<exists>tbl i. wei_perfreport_state_find_or_add s (Some m) = (s\<lparr>state_tbl := tbl\<rparr>, Some i) \<and>
    cadence_rel c tbl \<and> slot_of pc_in_use pc_mac tbl m = Some i \<and>
    unique_keys pc_in_use pc_mac tbl \<and> warm_bounded tbl \<and> length tbl = WEI_TRACK_MAX_CLIENTS \<and>
    set (table_keys pc_in_use pc_mac tbl) \<subseteq> M"
proof -
  have uniq: "unique_keys pc_in_use pc_mac (state_tbl s)" and len: "length (state_tbl s) = WEI_TRACK_MAX_CLIENTS"
    using rel by (auto simp: perf_rel_def perf_ok_def)
  obtain tbl i where adm: "perf_admit (state_tbl s) m () = (tbl, Some i)"
    using perf_tbl.admit_room [OF uniq M(1) _ M(3), of "()"] M(2) len rel
    by (metis perf_rel_def prod.collapse)
  have "cadence_rel c tbl \<and> slot_of pc_in_use pc_mac tbl m = Some i"
    "unique_keys pc_in_use pc_mac tbl" "warm_bounded tbl" "length tbl = WEI_TRACK_MAX_CLIENTS"
    "set (table_keys pc_in_use pc_mac tbl) \<subseteq> M"
    using cadence_rel_admit [OF _ uniq adm] rel perf_tbl.admit_unique [OF uniq, of m "()"]
      warm_admit [of "state_tbl s" m "()"] perf_tbl.admit_length [of "state_tbl s" m "()"]
      perf_tbl.admit_keys [of "state_tbl s" m "()"] M(3) len
    by (auto simp: perf_rel_def adm)
  then show ?thesis
    by (intro exI [of _ tbl] exI [of _ i]) (simp add: wei_perfreport_state_find_or_add_def adm)
qed

lemma publish_tick_step:
  assumes rel: "perf_rel M c s" and b: "bus_opened b" and t: "tick_delivers t"
    and M: "finite M" "card M \<le> WEI_TRACK_MAX_CLIENTS" "pt_mac t \<in> M"
  shows "\<exists>s'. wei_perfreport_publish_tick (pt_pe t) (pt_store t) (pt_bus t) (Some (pt_mac t))
      (Some (pt_result t)) (Some (pt_metrics t)) (s, b) =
        Some (bus_error_success, s', if snd (tick_step (c (pt_mac t)) t) then bus_log (report_call t) b else b) \<and>
      perf_rel M (c(pt_mac t := fst (tick_step (c (pt_mac t)) t))) s'"
proof -
  let ?m = "pt_mac t" and ?v = "ir_verdict (pt_result t)"
  obtain tbl i where foa: "wei_perfreport_state_find_or_add s (Some ?m) = (s\<lparr>state_tbl := tbl\<rparr>, Some i)"
    and tbl: "cadence_rel c tbl" "slot_of pc_in_use pc_mac tbl ?m = Some i"
      "unique_keys pc_in_use pc_mac tbl" "warm_bounded tbl" "length tbl = WEI_TRACK_MAX_CLIENTS"
      "set (table_keys pc_in_use pc_mac tbl) \<subseteq> M"
    using perf_admitted [OF rel M] by metis
  note i = slot_of_SomeD [OF tbl(2)]
  have cm: "c ?m = client_cadence (tbl ! i)" using tbl(1,2) by (simp add: cadence_rel_def)
  obtain st e where se: "wei_perfreport_should_emit (pt_store t) (tbl ! i) ?v = (st, e)" by fastforce
  have "warmup_ticks_seen (tbl ! i) \<le> 3" using tbl(4) i(1) by (simp add: warm_bounded_def list_all_length)
  note step = should_emit_step [OF this, of "pt_store t" ?v, unfolded se prod.case]
  define st' where "st' = (if e then st\<lparr>last_emitted_class := ?v\<rparr> else st)"
  have st': "pc_in_use st'" "pc_mac st' = ?m" "warmup_ticks_seen st' \<le> 3"
    "client_cadence st' = fst (tick_step (c ?m) t)" "e = snd (tick_step (c ?m) t)"
    using step i cm by (auto simp: st'_def tick_step_def)
  note upd = cadence_rel_update [OF tbl(1,2) st'(1,2) tbl(3)]
  have rel': "perf_rel M (c(?m := fst (tick_step (c ?m) t))) (s\<lparr>state_tbl := tbl[i := st'], json_buf_cap := cap\<rparr>)"
    if "case cap of None \<Rightarrow> True | Some n \<Rightarrow> 512 \<le> n \<and> n \<le> 2048" for cap
    using upd st' tbl that
    by (auto simp: perf_rel_def perf_ok_def warm_bounded_def intro!: list_all_update)
  show ?thesis
  proof (cases e)
    case False
    have "wei_perfreport_publish_tick (pt_pe t) (pt_store t) (pt_bus t) (Some ?m)
      (Some (pt_result t)) (Some (pt_metrics t)) (s, b) =
        Some (bus_error_success, s\<lparr>state_tbl := tbl[i := st'], json_buf_cap := json_buf_cap s\<rparr>, b)"
      using False foa se by (simp add: wei_perfreport_publish_tick_def st'_def Let_def)
    moreover have "case json_buf_cap s of None \<Rightarrow> True | Some n \<Rightarrow> 512 \<le> n \<and> n \<le> 2048"
      using rel by (simp add: perf_rel_def perf_ok_def)
    ultimately show ?thesis using rel' [of "json_buf_cap s"] st'(5) False
      by (intro exI [of _ "s\<lparr>state_tbl := tbl[i := st'], json_buf_cap := json_buf_cap s\<rparr>"] conjI) simp_all
  next
    case True
    let ?s = "s\<lparr>state_tbl := tbl[i := st]\<rparr>"
    have "perf_ok ?s"
      using tbl i step rel by (auto simp: perf_ok_def perf_rel_def intro!: unique_keys_update_same)
    then obtain n where n: "wei_perfreport_build_json (pt_pe t) ?s (Some ?m) (Some (pt_result t)) (Some (pt_metrics t)) =
      Some (Some (report_text t), ?s\<lparr>json_buf_cap := Some n\<rparr>)" "512 \<le> n" "n \<le> 2048"
      using build_json_delivers [OF t] by blast
    have "wei_perfreport_publish_tick (pt_pe t) (pt_store t) (pt_bus t) (Some ?m)
      (Some (pt_result t)) (Some (pt_metrics t)) (s, b) =
        Some (bus_error_success, s\<lparr>state_tbl := tbl[i := st'], json_buf_cap := Some n\<rparr>, bus_log (report_call t) b)"
      using True foa se n(1) t b i(1)
      by (simp add: wei_perfreport_publish_tick_def st'_def Let_def weid_bus_handle_def tick_delivers_def
          report_call_def)
    then show ?thesis using rel' [of "Some n"] n st'(5) True by auto
  qed
qed

lemma perf_run_refines:
  assumes "perf_rel M c s" "bus_opened b" "\<forall>t \<in> set ts. tick_delivers t \<and> pt_mac t \<in> M"
    and "finite M" "card M \<le> WEI_TRACK_MAX_CLIENTS"
  shows "\<exists>s' b'. perf_run ts (s, b) = Some (s', b') \<and> perf_ok s' \<and>
    bus_trace b' = bus_trace b @ map report_call (emitted c ts)"
  using assms(1-3)
proof (induction ts arbitrary: c s b)
  case (Cons t ts)
  let ?c = "c(pt_mac t := fst (tick_step (c (pt_mac t)) t))"
  let ?b = "if snd (tick_step (c (pt_mac t)) t) then bus_log (report_call t) b else b"
  obtain s1 where s1: "wei_perfreport_publish_tick (pt_pe t) (pt_store t) (pt_bus t) (Some (pt_mac t))
      (Some (pt_result t)) (Some (pt_metrics t)) (s, b) = Some (bus_error_success, s1, ?b)" "perf_rel M ?c s1"
    using publish_tick_step [OF Cons.prems(1,2) _ assms(4,5), of t] Cons.prems(3) by auto
  have b: "bus_opened ?b" using Cons.prems(2) by simp
  have rest: "\<forall>t \<in> set ts. tick_delivers t \<and> pt_mac t \<in> M" using Cons.prems(3) by simp
  from Cons.IH [OF s1(2) b rest] obtain s' b' where "perf_run ts (s1, ?b) = Some (s', b')" "perf_ok s'"
    "bus_trace b' = bus_trace ?b @ map report_call (emitted ?c ts)"
    by blast
  then show ?case using s1(1) by auto
qed (simp add: perf_rel_def)

lemma perf_rel_init: "perf_rel M cadence_start perf_init"
  using perf_init_ok by (simp add: perf_rel_def warm_bounded_def) (simp add: perf_init_def zero_perf_client_def list_all_iff)

text \<open>
  C2. The report path publishes exactly the verdict's edges, client by client. For any
  interleaving of at most 64 clients' ticks on a working bus, every call returns, and the bus
  receives one report per tick selected by the abstract cadence and nothing else; and the
  verdicts reported for a client are the changes of its verdict sequence, counted from the
  fourth interval seen with the pillar enabled and against an initial "smooth". Other clients'
  ticks have no influence.
\<close>

theorem reports_are_edges:
  assumes "\<forall>t \<in> set ts. tick_delivers t" "card (pt_mac ` set ts) \<le> 64" "bus_opened b"
  shows "(\<exists>s' b'. perf_run ts (perf_init, b) = Some (s', b') \<and>
           bus_trace b' = bus_trace b @ map report_call (emitted cadence_start ts)) \<and>
    map (\<lambda>t. ir_verdict (pt_result t)) (filter (\<lambda>t. pt_mac t = m) (emitted cadence_start ts)) =
      edges WEI_INFER_VERDICT_SMOOTH (drop 3
        (map (\<lambda>t. ir_verdict (pt_result t))
          (filter (\<lambda>t. connperf_enabled (pt_store t)) (filter (\<lambda>t. pt_mac t = m) ts))))"
proof
  have "perf_rel (pt_mac ` set ts) cadence_start perf_init" by (rule perf_rel_init)
  then show "\<exists>s' b'. perf_run ts (perf_init, b) = Some (s', b') \<and>
      bus_trace b' = bus_trace b @ map report_call (emitted cadence_start ts)"
    using perf_run_refines [of "pt_mac ` set ts" cadence_start perf_init b ts] assms
    by (auto simp: WEI_TRACK_MAX_CLIENTS_def)
qed (rule emitted_edges)

definition sample_tick :: "wei_infer_verdict \<Rightarrow> unit perf_tick" where
  "sample_tick v =
     \<lparr>pt_mac = zero_mac, pt_result = zero_infer_result\<lparr>ir_verdict := v\<rparr>, pt_metrics = zero_metric_record,
      pt_pe = \<lparr>pe_cjson =
                \<lparr>cj_create = Some (), cj_add_object = (\<lambda>d k. Some ()), cj_add_bool_in = (\<lambda>d k f b. Some ()),
                 cj_add_string = (\<lambda>d k v. ()), cj_add_number = (\<lambda>d k v. ()),
                 cj_print = (\<lambda>d n. if 2 < n then Some ''{}'' else None), cj_parse = (\<lambda>t. None),
                 cj_get = (\<lambda>d k. None), cj_is_bool = (\<lambda>d. False), cj_is_true = (\<lambda>d. False)\<rparr>,
               pe_time = ''now'', pe_malloc = True, pe_realloc = (\<lambda>n. True)\<rparr>,
      pt_store = \<lparr>connperf_enabled = True, nvram = None\<rparr>, pt_bus = good_bus\<rparr>"

lemma sample_tick_delivers: "tick_delivers (sample_tick v)"
  by (simp add: tick_delivers_def sample_tick_def good_bus_def report_text_def)

theorem reports_are_edges_witness:
  "map (\<lambda>t. ir_verdict (pt_result t)) (filter (\<lambda>t. pt_mac t = zero_mac)
     (emitted cadence_start (replicate 6 (sample_tick WEI_INFER_VERDICT_DEGRADED)))) =
   [WEI_INFER_VERDICT_DEGRADED]"
  using reports_are_edges [of "replicate 6 (sample_tick WEI_INFER_VERDICT_DEGRADED)"
      "g_weid_bus_init\<lparr>bus_opened := True\<rparr>" zero_mac] sample_tick_delivers
  by (simp add: numeral_eq_Suc) (simp add: sample_tick_def)

section \<open>A failed report is retried\<close>

lemma build_json_any:
  assumes "perf_ok s"
  shows "\<exists>json cap. wei_perfreport_build_json pe s (Some m) (Some r) (Some rec) =
      Some (json, s\<lparr>json_buf_cap := cap\<rparr>) \<and>
    (case cap of None \<Rightarrow> True | Some n \<Rightarrow> 512 \<le> n \<and> n \<le> 2048)"
proof (cases "cj_create (pe_cjson pe)")
  case None
  then show ?thesis
    using assms by (intro exI [of _ None] exI [of _ "json_buf_cap s"])
      (simp add: wei_perfreport_build_json_def perf_ok_def)
next
  case (Some d)
  have "case json_buf_cap s of None \<Rightarrow> True | Some c \<Rightarrow> 0 < c \<and> c \<le> 2048"
    using assms by (auto simp: perf_ok_def split: option.splits)
  from json_serialize_some [OF this, of pe "report_doc pe d m r rec"] obtain json cap where
    "wei_perfreport_json_serialize pe (report_doc pe d m r rec) (json_buf_cap s) = Some (json, cap)"
    "case cap of None \<Rightarrow> json_buf_cap s = None \<and> json = None
     | Some n \<Rightarrow> 0 < n \<and> n \<le> 2048 \<and> (case json_buf_cap s of None \<Rightarrow> 512 \<le> n | Some c \<Rightarrow> c \<le> n) \<and>
         (case json of None \<Rightarrow> True | Some t \<Rightarrow> cj_print (pe_cjson pe) (report_doc pe d m r rec) n = Some t)"
    by blast
  then show ?thesis using Some assms
    by (intro exI [of _ json] exI [of _ cap])
      (auto simp: wei_perfreport_build_json_def perf_ok_def split: option.splits)
qed

text \<open>
  C25. A report that could not be delivered is not forgotten. Whatever the bus, cJSON and the
  allocator do during a tick, the call returns and leaves the cadence table consistent; if it
  reports success the client's cadence has advanced by one interval, and if it reports any error
  the cadence of every client is unchanged, so the same verdict is offered again next interval.
\<close>

theorem publish_tick_any_outcome:
  assumes rel: "perf_rel M c s" and M: "finite M" "card M \<le> WEI_TRACK_MAX_CLIENTS" "pt_mac t \<in> M"
  shows "case wei_perfreport_publish_tick (pt_pe t) (pt_store t) (pt_bus t) (Some (pt_mac t))
      (Some (pt_result t)) (Some (pt_metrics t)) (s, b) of
        None \<Rightarrow> False
      | Some (rc, s', b') \<Rightarrow>
          perf_rel M (if rc = bus_error_success then c(pt_mac t := fst (tick_step (c (pt_mac t)) t)) else c) s'"
proof -
  let ?m = "pt_mac t" and ?v = "ir_verdict (pt_result t)"
  obtain tbl i where adm: "wei_perfreport_state_find_or_add s (Some ?m) = (s\<lparr>state_tbl := tbl\<rparr>, Some i)"
    and tbl: "cadence_rel c tbl" "slot_of pc_in_use pc_mac tbl ?m = Some i"
      "unique_keys pc_in_use pc_mac tbl" "warm_bounded tbl" "length tbl = WEI_TRACK_MAX_CLIENTS"
      "set (table_keys pc_in_use pc_mac tbl) \<subseteq> M"
    using perf_admitted [OF rel M] by metis
  note i = slot_of_SomeD [OF tbl(2)]
  have cm: "c ?m = client_cadence (tbl ! i)" using tbl(1,2) by (simp add: cadence_rel_def)
  obtain st e where se: "wei_perfreport_should_emit (pt_store t) (tbl ! i) ?v = (st, e)" by fastforce
  have "warmup_ticks_seen (tbl ! i) \<le> 3" using tbl(4) i(1) by (simp add: warm_bounded_def list_all_length)
  note step = should_emit_step [OF this, of "pt_store t" ?v, unfolded se prod.case]
  have rel': "perf_rel M (c(?m := client_cadence st')) (s\<lparr>state_tbl := tbl[i := st'], json_buf_cap := cap\<rparr>)"
    if "pc_in_use st'" "pc_mac st' = ?m" "warmup_ticks_seen st' \<le> 3"
      "case cap of None \<Rightarrow> True | Some n \<Rightarrow> 512 \<le> n \<and> n \<le> 2048" for st' cap
    using cadence_rel_update [OF tbl(1,2) that(1,2) tbl(3)] tbl that
    by (auto simp: perf_rel_def perf_ok_def warm_bounded_def intro!: list_all_update)
  have cap: "case json_buf_cap s of None \<Rightarrow> True | Some n \<Rightarrow> 512 \<le> n \<and> n \<le> 2048"
    using rel by (simp add: perf_rel_def perf_ok_def)
  have swap: "s\<lparr>json_buf_cap := cap, state_tbl := x\<rparr> = s\<lparr>state_tbl := x, json_buf_cap := cap\<rparr>" for cap x
    by simp
  show ?thesis
  proof (cases e)
    case False
    then have "perf_rel M (c(?m := fst (tick_step (c ?m) t))) (s\<lparr>state_tbl := tbl[i := st]\<rparr>)"
      using rel' [of st "json_buf_cap s"] step i cap cm False by (simp add: tick_step_def)
    then show ?thesis using False adm se by (simp add: wei_perfreport_publish_tick_def Let_def)
  next
    case True
    then have same: "st = tbl ! i"
      using se by (auto simp: wei_perfreport_should_emit_def split: if_splits)
    have kept: "perf_rel M c (s\<lparr>state_tbl := tbl[i := st], json_buf_cap := cap\<rparr>)"
      if "case cap of None \<Rightarrow> True | Some n \<Rightarrow> 512 \<le> n \<and> n \<le> 2048" for cap
      using rel' [of st cap] step i that cm by (simp add: same fun_upd_idem)
    let ?s = "s\<lparr>state_tbl := tbl[i := st]\<rparr>"
    have "perf_ok ?s" using kept [OF cap] by (simp add: perf_rel_def)
    then obtain json n where n: "wei_perfreport_build_json (pt_pe t) ?s (Some ?m) (Some (pt_result t)) (Some (pt_metrics t)) =
      Some (json, ?s\<lparr>json_buf_cap := n\<rparr>)" "case n of None \<Rightarrow> True | Some n \<Rightarrow> 512 \<le> n \<and> n \<le> 2048"
      using build_json_any by blast
    have pub: "perf_rel M (c(?m := fst (tick_step (c ?m) t)))
        (s\<lparr>state_tbl := tbl[i := st\<lparr>last_emitted_class := ?v\<rparr>], json_buf_cap := n\<rparr>)"
      using rel' [of "st\<lparr>last_emitted_class := ?v\<rparr>" n] step i True n(2) cm by (simp add: tick_step_def)
    show ?thesis
      using True adm se n kept [OF cap] kept [OF n(2)] pub i(1)
      by (cases json) (auto simp: wei_perfreport_publish_tick_def Let_def swap)
  qed
qed

theorem publish_tick_any_outcome_witness:
  "wei_perfreport_publish_tick (pt_pe (sample_tick WEI_INFER_VERDICT_DEGRADED))
     (pt_store (sample_tick WEI_INFER_VERDICT_DEGRADED)) (pt_bus (sample_tick WEI_INFER_VERDICT_DEGRADED))
     (Some (pt_mac (sample_tick WEI_INFER_VERDICT_DEGRADED))) (Some (pt_result (sample_tick WEI_INFER_VERDICT_DEGRADED)))
     (Some (pt_metrics (sample_tick WEI_INFER_VERDICT_DEGRADED))) (perf_init, g_weid_bus_init) \<noteq> None"
proof -
  let ?t = "sample_tick WEI_INFER_VERDICT_DEGRADED"
  have "perf_rel {pt_mac ?t} cadence_start perf_init" using perf_rel_init by simp
  from publish_tick_any_outcome [OF this, of ?t g_weid_bus_init] show ?thesis
    by (auto simp: WEI_TRACK_MAX_CLIENTS_def split: option.splits)
qed

end
