(* ===== verification/Infer.thy ===== *)
theory Infer
  imports Infer_Client Infer_Ledger Perfreport
begin

text \<open>
  The inference engine (source/wei_infer.c): the membership map, the excursion tracker, the
  per-slot snapshots, results and ledgers, staging of one record, the per-tick sweep, the reap,
  and the engine's life. The sweep publishes every scored client through wei_perfreport, whose
  state and the bus state are threaded through it. A result \<open>None\<close> is undefined behaviour or an
  endless loop; the theorems show when it cannot occur.
\<close>

record wei_infer_engine =
  eng_map :: wei_infer_map
  eng_tracker :: wei_track_table
  eng_policy :: wei_infer_policy
  eng_snapshot :: "wei_conn_metric_record list"
  eng_result :: "wei_infer_result list"
  eng_ledger :: "wei_infer_episode_log list"

definition wei_infer_now_ms :: "c_timespec \<Rightarrow> int" where
  "wei_infer_now_ms ts = tv_sec ts * 1000 + tv_nsec ts div 1000000"

section \<open>Creation\<close>

text \<open>The image \<open>calloc\<close> returns, with the tracker initialised and the policy copied in.\<close>

definition wei_infer_create :: "wei_infer_policy option \<Rightarrow> bool \<Rightarrow> wei_infer_engine option" where
  "wei_infer_create policy calloc_ok =
     (case policy of
        None \<Rightarrow> None
      | Some p \<Rightarrow>
          if \<not> calloc_ok then None
          else Some
            \<lparr>eng_map = \<lparr>map_slots = replicate WEI_TRACK_MAX_CLIENTS zero_infer_slot, map_count = 0\<rparr>,
             eng_tracker = the (wei_track_init (Some zero_track_table)),
             eng_policy = p,
             eng_snapshot = replicate WEI_TRACK_MAX_CLIENTS zero_metric_record,
             eng_result = replicate WEI_TRACK_MAX_CLIENTS zero_infer_result,
             eng_ledger = replicate WEI_TRACK_MAX_CLIENTS zero_episode_log\<rparr>)"

text \<open>Freeing leaves no engine.\<close>

definition wei_infer_destroy :: "wei_infer_engine option \<Rightarrow> wei_infer_engine option" where
  "wei_infer_destroy eng = None"

section \<open>Staging\<close>

definition map_claim :: "mac \<Rightarrow> int \<Rightarrow> wei_infer_slot \<Rightarrow> wei_infer_slot" where
  "map_claim m now_ms slot = slot\<lparr>sl_mac := m, sl_in_use := True, sl_last_seen := now_ms\<rparr>"

definition wei_infer_stage_record ::
    "c_timespec \<Rightarrow> wei_infer_engine \<Rightarrow> mac \<Rightarrow> wei_conn_metric_record \<Rightarrow> wei_infer_engine" where
  "wei_infer_stage_record ts eng m rec =
     (let now_ms = wei_infer_now_ms ts; mp = eng_map eng; slots = map_slots mp
      in case scan_slots sl_in_use sl_mac m 0 None slots of
           (Some i, _) \<Rightarrow>
             eng\<lparr>eng_map := mp\<lparr>map_slots := slots[i := (slots ! i)\<lparr>sl_last_seen := now_ms\<rparr>]\<rparr>,
                 eng_snapshot := (eng_snapshot eng)[i := rec]\<rparr>
         | (None, None) \<Rightarrow> eng
         | (None, Some free) \<Rightarrow>
             eng\<lparr>eng_map := \<lparr>map_slots = slots[free := map_claim m now_ms (slots ! free)],
                             map_count = (if unat (map_count mp) < WEI_TRACK_MAX_CLIENTS
                                          then map_count mp + 1 else map_count mp)\<rparr>,
                 eng_snapshot := (eng_snapshot eng)[free := rec]\<rparr>)"

definition wei_infer_stage_record_ptr ::
    "c_timespec \<Rightarrow> wei_infer_engine option \<Rightarrow> mac option \<Rightarrow> wei_conn_metric_record option
      \<Rightarrow> wei_infer_engine option" where
  "wei_infer_stage_record_ptr ts eng m rec =
     (case (eng, m, rec) of
        (Some e, Some k, Some r) \<Rightarrow> Some (wei_infer_stage_record ts e k r)
      | _ \<Rightarrow> eng)"

section \<open>The reap\<close>

text \<open>One iteration of the loop over the slots.\<close>

definition map_reap_slot :: "int \<Rightarrow> wei_infer_engine \<Rightarrow> nat \<Rightarrow> wei_infer_engine" where
  "map_reap_slot now_ms eng i =
     (let mp = eng_map eng; slot = map_slots mp ! i
      in if sl_in_use slot \<and> now_ms - sl_last_seen slot > WEI_TRACK_ABSENCE_DEFAULT_MS
         then eng\<lparr>eng_map := \<lparr>map_slots = (map_slots mp)[i := zero_infer_slot],
                              map_count = (if map_count mp > 0 then map_count mp - 1 else map_count mp)\<rparr>,
                  eng_ledger := (eng_ledger eng)[i := zero_episode_log]\<rparr>
         else eng)"

definition wei_infer_map_reap :: "wei_infer_engine \<Rightarrow> int \<Rightarrow> wei_infer_engine" where
  "wei_infer_map_reap eng now_ms = foldl (map_reap_slot now_ms) eng [0..<WEI_TRACK_MAX_CLIENTS]"

section \<open>The tick\<close>

text \<open>What the publish of one client meets: cJSON and allocator, enable store, bus.\<close>

record 'j tick_world =
  tw_pe :: "'j perf_env"
  tw_store :: rfc_store
  tw_bus :: bus_env

text \<open>The verdict stage of one scored client: flags, attribution, ledger.\<close>

definition engine_judge ::
    "wei_infer_engine \<Rightarrow> nat \<Rightarrow> wei_infer_client \<Rightarrow> wei_infer_result \<Rightarrow> int \<Rightarrow> wei_infer_engine option" where
  "engine_judge eng i st out now_ms =
     (let slot = map_slots (eng_map eng) ! i; rec = eng_snapshot eng ! i
      in case wei_infer_flag_instability (eng_policy eng) (eng_tracker eng) (sl_mac slot) st out now_ms of
           None \<Rightarrow> None
         | Some (tracker, out) \<Rightarrow>
             let (st, out) = wei_infer_flag_latency_risk (eng_policy eng) st out;
                 out = wei_infer_flag_video_degrade (eng_policy eng) out;
                 out = (if ir_verdict out = WEI_INFER_VERDICT_DEGRADED
                        then out\<lparr>ir_dominant := wei_infer_attribute st rec\<rparr> else out);
                 lg = wei_infer_ledger_update (eng_ledger eng ! i) (ir_verdict out) now_ms
             in Some (eng\<lparr>eng_map := (eng_map eng)\<lparr>map_slots :=
                            (map_slots (eng_map eng))[i := slot\<lparr>sl_state := st\<rparr>]\<rparr>,
                          eng_tracker := tracker,
                          eng_result := (eng_result eng)[i := out],
                          eng_ledger := (eng_ledger eng)[i := lg]\<rparr>))"

definition engine_score ::
    "scorer_env \<Rightarrow> wei_infer_engine \<Rightarrow> nat \<Rightarrow> int \<Rightarrow> (bool \<times> wei_infer_engine) option" where
  "engine_score env eng i now_ms =
     (let slot = map_slots (eng_map eng) ! i
      in if \<not> sl_in_use slot then Some (False, eng)
         else case wei_infer_score_client env (sl_state slot) (eng_snapshot eng ! i) (eng_result eng ! i) of
                None \<Rightarrow> None
              | Some (scored, st, out) \<Rightarrow>
                  if \<not> scored then Some (False, eng)
                  else map_option (\<lambda>e. (True, e)) (engine_judge eng i st out now_ms))"

fun engine_sweep ::
    "scorer_env \<Rightarrow> (nat \<Rightarrow> 'j tick_world) \<Rightarrow> int \<Rightarrow> nat list \<Rightarrow> wei_infer_engine \<times> perf_state \<times> bus_state
      \<Rightarrow> (wei_infer_engine \<times> perf_state \<times> bus_state) option" where
  "engine_sweep env world now_ms [] s = Some s"
| "engine_sweep env world now_ms (i # is) (eng, ps, b) =
     (case engine_score env eng i now_ms of
        None \<Rightarrow> None
      | Some (False, eng) \<Rightarrow> engine_sweep env world now_ms is (eng, ps, b)
      | Some (True, eng) \<Rightarrow>
          (case wei_perfreport_publish_tick (tw_pe (world i)) (tw_store (world i)) (tw_bus (world i))
                  (Some (sl_mac (map_slots (eng_map eng) ! i))) (Some (eng_result eng ! i))
                  (Some (eng_snapshot eng ! i)) (ps, b) of
             None \<Rightarrow> None
           | Some (rc, ps, b) \<Rightarrow> engine_sweep env world now_ms is (eng, ps, b)))"

definition wei_infer_tick ::
    "scorer_env \<Rightarrow> (nat \<Rightarrow> 'j tick_world) \<Rightarrow> c_timespec \<Rightarrow> wei_infer_engine option \<times> perf_state \<times> bus_state
      \<Rightarrow> (wei_infer_engine option \<times> perf_state \<times> bus_state) option" where
  "wei_infer_tick env world ts s =
     (case s of
        (None, ps, b) \<Rightarrow> Some s
      | (Some eng, ps, b) \<Rightarrow>
          let now_ms = wei_infer_now_ms ts
          in (case engine_sweep env world now_ms [0..<WEI_TRACK_MAX_CLIENTS] (eng, ps, b) of
                None \<Rightarrow> None
              | Some (eng, ps, b) \<Rightarrow>
                  let eng = eng\<lparr>eng_tracker := wei_track_reap (eng_tracker eng) now_ms WEI_TRACK_ABSENCE_DEFAULT_MS\<rparr>;
                      eng = wei_infer_map_reap eng now_ms
                  in Some (Some eng, ps, b)))"

section \<open>The membership map meets the aging-table contract\<close>

definition map_admit :: "wei_infer_slot list \<Rightarrow> mac \<Rightarrow> int \<Rightarrow> wei_infer_slot list \<times> nat option" where
  "map_admit slots m now_ms =
     (case scan_slots sl_in_use sl_mac m 0 None slots of
        (Some i, _) \<Rightarrow> (slots[i := (slots ! i)\<lparr>sl_last_seen := now_ms\<rparr>], Some i)
      | (None, None) \<Rightarrow> (slots, None)
      | (None, Some free) \<Rightarrow> (slots[free := map_claim m now_ms (slots ! free)], Some free))"

definition map_reap_list :: "wei_infer_slot list \<Rightarrow> int \<Rightarrow> int \<Rightarrow> wei_infer_slot list" where
  "map_reap_list slots now_ms absence_ms =
     map (\<lambda>s. if sl_in_use s \<and> now_ms - sl_last_seen s > absence_ms then zero_infer_slot else s) slots"

interpretation map_tbl: aging_table sl_in_use sl_mac
  "\<lambda>t s. s\<lparr>sl_last_seen := t\<rparr>" "\<lambda>m t s. map_claim m t s" map_admit
  sl_last_seen zero_infer_slot map_reap_list
proof unfold_locales
  fix es :: "wei_infer_slot list" and m i and x :: int
  show "map_admit es m x = (es[i := (es ! i)\<lparr>sl_last_seen := x\<rparr>], Some i)"
    if "slot_of sl_in_use sl_mac es m = Some i"
    using scan_slots_0(1) [OF that] by (auto simp: map_admit_def)
  show "map_admit es m x = (es[i := map_claim m x (es ! i)], Some i)"
    if "slot_of sl_in_use sl_mac es m = None" "free_slot sl_in_use es = Some i"
    using scan_slots_0(2) [OF that(1)] that(2) by (simp add: map_admit_def)
  show "map_admit es m x = (es, None)"
    if "slot_of sl_in_use sl_mac es m = None" "free_slot sl_in_use es = None"
    using scan_slots_0(2) [OF that(1)] that(2) by (simp add: map_admit_def)
qed (auto simp: map_claim_def map_reap_list_def zero_infer_slot_def)

lemma stage_admit:
  "map_slots (eng_map (wei_infer_stage_record ts eng m rec)) =
     fst (map_admit (map_slots (eng_map eng)) m (wei_infer_now_ms ts))"
  "eng_snapshot (wei_infer_stage_record ts eng m rec) =
     (case snd (map_admit (map_slots (eng_map eng)) m (wei_infer_now_ms ts)) of
        None \<Rightarrow> eng_snapshot eng | Some i \<Rightarrow> (eng_snapshot eng)[i := rec])"
  "eng_tracker (wei_infer_stage_record ts eng m rec) = eng_tracker eng"
  "eng_policy (wei_infer_stage_record ts eng m rec) = eng_policy eng"
  "eng_result (wei_infer_stage_record ts eng m rec) = eng_result eng"
  "eng_ledger (wei_infer_stage_record ts eng m rec) = eng_ledger eng"
  by (auto simp: wei_infer_stage_record_def map_admit_def Let_def split: prod.splits option.splits)

section \<open>The engine's invariant\<close>

text \<open>A free slot is the zero image, with a zero ledger, so a reused slot inherits nothing.\<close>

definition slot_ok :: "wei_infer_slot \<Rightarrow> wei_infer_episode_log \<Rightarrow> bool" where
  "slot_ok s lg \<longleftrightarrow> client_ok (sl_state s) \<and> ledger_ok lg \<and>
     (\<not> sl_in_use s \<longrightarrow> s = zero_infer_slot \<and> lg = zero_episode_log)"

definition live_slots :: "wei_infer_slot list \<Rightarrow> nat" where
  "live_slots slots = length (filter sl_in_use slots)"

definition engine_ok :: "wei_infer_engine \<Rightarrow> bool" where
  "engine_ok eng \<longleftrightarrow>
     length (map_slots (eng_map eng)) = WEI_TRACK_MAX_CLIENTS \<and>
     length (eng_snapshot eng) = WEI_TRACK_MAX_CLIENTS \<and>
     length (eng_result eng) = WEI_TRACK_MAX_CLIENTS \<and>
     track_table_wf (eng_tracker eng) \<and>
     unique_keys sl_in_use sl_mac (map_slots (eng_map eng)) \<and>
     unat (map_count (eng_map eng)) = live_slots (map_slots (eng_map eng)) \<and>
     infer_policy_ok (eng_policy eng) \<and>
     list_all2 slot_ok (map_slots (eng_map eng)) (eng_ledger eng)"

definition rates_ok :: "wei_infer_engine \<Rightarrow> bool" where
  "rates_ok eng \<longleftrightarrow>
     list_all (\<lambda>s. \<forall>v \<in> set (phy_samples (sl_state s)). uint v \<le> PHY_SAFE_KBPS) (map_slots (eng_map eng)) \<and>
     list_all (\<lambda>r. uint (phy_rate_kbps r) \<le> PHY_SAFE_KBPS) (eng_snapshot eng)"

lemma live_slots_update:
  assumes "i < length slots"
  shows "live_slots (slots[i := s]) + (if sl_in_use (slots ! i) then 1 else 0) =
    live_slots slots + (if sl_in_use s then 1 else 0)"
  using assms unfolding live_slots_def by (rule length_filter_update)

lemma live_slots_le: "live_slots slots \<le> length slots"
  by (simp add: live_slots_def)

lemma zero_slot_ok: "slot_ok zero_infer_slot zero_episode_log"
  by (simp add: slot_ok_def zero_infer_slot_def zero_client_ok zero_ledger)

lemma create_ok [wei_inv]:
  assumes "wei_infer_create (Some p) calloc_ok = Some eng" "infer_policy_ok p"
  shows "engine_ok eng" "rates_ok eng"
proof -
  have eng: "map_slots (eng_map eng) = replicate WEI_TRACK_MAX_CLIENTS zero_infer_slot"
    "map_count (eng_map eng) = 0" "eng_tracker eng = zero_track_table"
    "eng_snapshot eng = replicate WEI_TRACK_MAX_CLIENTS zero_metric_record"
    "eng_result eng = replicate WEI_TRACK_MAX_CLIENTS zero_infer_result"
    "eng_ledger eng = replicate WEI_TRACK_MAX_CLIENTS zero_episode_log" "eng_policy eng = p"
    using assms by (auto simp: wei_infer_create_def wei_track_init_def split: if_splits)
  show "engine_ok eng"
    using zero_slot_ok assms(2)
    by (simp add: engine_ok_def eng track_init_wf live_slots_def zero_infer_slot_def
        list_all2_conv_all_nth unique_keys_replicate)
  show "rates_ok eng"
    by (auto simp: rates_ok_def eng zero_infer_slot_def zero_client_windows zero_metric_record_def
        PHY_SAFE_KBPS_def list_all_iff)
qed

lemma u8_inc: "unat (c :: u8) < 64 \<Longrightarrow> unat (c + 1) = unat c + 1"
  by (simp add: unat_word_ariths)

lemma u8_dec: "(0 :: u8) < c \<Longrightarrow> unat (c - 1) = unat c - 1"
  by (simp add: unat_minus_one word_gt_0)

lemma stage_count:
  assumes "engine_ok eng"
  shows "unat (map_count (eng_map (wei_infer_stage_record ts eng m rec))) =
    live_slots (map_slots (eng_map (wei_infer_stage_record ts eng m rec)))"
proof (rule map_tbl.admit_cases [of "map_slots (eng_map eng)" m "wei_infer_now_ms ts"])
  let ?slots = "map_slots (eng_map eng)" and ?t = "wei_infer_now_ms ts"
  have len: "length ?slots = 64" and cnt: "unat (map_count (eng_map eng)) = live_slots ?slots"
    using assms by (auto simp: engine_ok_def WEI_TRACK_MAX_CLIENTS_def)
  {
    fix i assume hit: "slot_of sl_in_use sl_mac ?slots m = Some i" "i < length ?slots" "sl_in_use (?slots ! i)"
    then show ?thesis
      using scan_slots_0(1) [OF hit(1)] live_slots_update [OF hit(2), of "(?slots ! i)\<lparr>sl_last_seen := ?t\<rparr>"] cnt
      by (auto simp: wei_infer_stage_record_def Let_def)
  next
    fix i assume claim: "slot_of sl_in_use sl_mac ?slots m = None"
      "map_admit ?slots m ?t = (?slots[i := map_claim m ?t (?slots ! i)], Some i)"
      "i < length ?slots" "\<not> sl_in_use (?slots ! i)"
    have scan: "scan_slots sl_in_use sl_mac m 0 None ?slots = (None, Some i)"
      using scan_slots_0(2) [OF claim(1)] claim(2)
      by (auto simp: map_admit_def split: option.splits)
    have live: "live_slots (?slots[i := map_claim m ?t (?slots ! i)]) = live_slots ?slots + 1"
      using live_slots_update [OF claim(3), of "map_claim m ?t (?slots ! i)"] claim(4)
      by (simp add: map_claim_def)
    then have "live_slots ?slots < 64" using live_slots_le [of "?slots[i := map_claim m ?t (?slots ! i)]"] len by simp
    then show ?thesis
      using live cnt u8_inc [of "map_count (eng_map eng)"]
      by (simp add: wei_infer_stage_record_def scan Let_def WEI_TRACK_MAX_CLIENTS_def)
  next
    assume full: "slot_of sl_in_use sl_mac ?slots m = None" "\<forall>e \<in> set ?slots. sl_in_use e"
    then have "free_slot sl_in_use ?slots = None" by (simp add: free_slot_None_iff)
    then show ?thesis using scan_slots_0(2) [OF full(1)] cnt
      by (simp add: wei_infer_stage_record_def Let_def)
  }
qed

lemma list_all2_update_left:
  assumes "list_all2 P xs ys" "i < length xs \<Longrightarrow> P x (ys ! i)"
  shows "list_all2 P (xs[i := x]) ys"
  using assms by (cases "i < length xs") (auto simp: list_all2_conv_all_nth nth_list_update)

lemma stage_ok [wei_inv]:
  assumes "engine_ok eng"
  shows "engine_ok (wei_infer_stage_record ts eng m rec)"
proof -
  let ?slots = "map_slots (eng_map eng)" and ?t = "wei_infer_now_ms ts"
  have all2: "list_all2 slot_ok ?slots (eng_ledger eng)" using assms by (simp add: engine_ok_def)
  have "list_all2 slot_ok (fst (map_admit ?slots m ?t)) (eng_ledger eng)"
    by (rule map_tbl.admit_cases [of ?slots m ?t])
      (use all2 list_all2_nthD [OF all2] in
        \<open>auto simp: slot_ok_def map_claim_def zero_ledger intro!: list_all2_update_left\<close>)
  then show ?thesis
    using assms stage_count [OF assms, of ts m rec]
    by (auto simp: engine_ok_def stage_admit map_tbl.admit_length map_tbl.admit_unique split: option.splits)
qed

lemma stage_rates:
  assumes "rates_ok eng" "uint (phy_rate_kbps rec) \<le> PHY_SAFE_KBPS"
  shows "rates_ok (wei_infer_stage_record ts eng m rec)"
proof -
  let ?slots = "map_slots (eng_map eng)" and ?t = "wei_infer_now_ms ts"
  let ?P = "\<lambda>s. \<forall>v \<in> set (phy_samples (sl_state s)). uint v \<le> PHY_SAFE_KBPS"
  have all: "list_all ?P ?slots" using assms by (simp add: rates_ok_def)
  then have "?P (?slots ! i)" if "i < length ?slots" for i using that by (simp add: list_all_length)
  then have "list_all ?P (fst (map_admit ?slots m ?t))"
    using all by - (rule map_tbl.admit_cases [of ?slots m ?t],
      simp_all add: map_claim_def list_all_update)
  then show ?thesis
    using assms by (auto simp: rates_ok_def stage_admit intro: list_all_update split: option.splits)
qed

section \<open>The reap\<close>

definition slot_expired :: "int \<Rightarrow> wei_infer_slot \<Rightarrow> bool" where
  "slot_expired now_ms s \<longleftrightarrow> sl_in_use s \<and> now_ms - sl_last_seen s > WEI_TRACK_ABSENCE_DEFAULT_MS"

lemma reap_slot_ok [wei_inv]:
  assumes "engine_ok eng" "i < WEI_TRACK_MAX_CLIENTS"
  shows "engine_ok (map_reap_slot now_ms eng i)"
proof (cases "slot_expired now_ms (map_slots (eng_map eng) ! i)")
  case True
  let ?slots = "map_slots (eng_map eng)"
  have i: "i < length ?slots" "sl_in_use (?slots ! i)"
    using assms True by (auto simp: engine_ok_def slot_expired_def)
  have live: "live_slots (?slots[i := zero_infer_slot]) + 1 = live_slots ?slots"
    using live_slots_update [OF i(1), of zero_infer_slot] i(2) by (simp add: zero_infer_slot_def)
  have count: "0 < map_count (eng_map eng)" "unat (map_count (eng_map eng) - 1) = live_slots (?slots[i := zero_infer_slot])"
    using assms(1) live u8_dec [of "map_count (eng_map eng)"]
    by (auto simp: engine_ok_def word_gt_0 unat_eq_0 [symmetric])
  have "list_all2 slot_ok (?slots[i := zero_infer_slot]) ((eng_ledger eng)[i := zero_episode_log])"
    using assms(1) zero_slot_ok by (auto simp: engine_ok_def intro: list_all2_update_cong)
  then show ?thesis
    using True assms(1) count
    by (auto simp: map_reap_slot_def slot_expired_def engine_ok_def Let_def zero_infer_slot_def
        intro!: unique_keys_update_same)
next
  case False
  then have "map_reap_slot now_ms eng i = eng" by (auto simp: map_reap_slot_def slot_expired_def Let_def)
  with assms(1) show ?thesis by simp
qed

text \<open>The loop, slot by slot.\<close>

lemma reap_slot_fields:
  assumes "engine_ok eng" "i < WEI_TRACK_MAX_CLIENTS"
  shows "map_slots (eng_map (map_reap_slot now_ms eng i)) ! j =
      (if j = i \<and> slot_expired now_ms (map_slots (eng_map eng) ! i) then zero_infer_slot
       else map_slots (eng_map eng) ! j)"
    "eng_ledger (map_reap_slot now_ms eng i) ! j =
      (if j = i \<and> slot_expired now_ms (map_slots (eng_map eng) ! i) then zero_episode_log
       else eng_ledger eng ! j)"
    "eng_snapshot (map_reap_slot now_ms eng i) = eng_snapshot eng"
    "eng_result (map_reap_slot now_ms eng i) = eng_result eng"
    "eng_tracker (map_reap_slot now_ms eng i) = eng_tracker eng"
    "eng_policy (map_reap_slot now_ms eng i) = eng_policy eng"
proof -
  have "length (map_slots (eng_map eng)) = WEI_TRACK_MAX_CLIENTS" "length (eng_ledger eng) = WEI_TRACK_MAX_CLIENTS"
    using assms(1) by (auto simp: engine_ok_def dest: list_all2_lengthD)
  then show "map_slots (eng_map (map_reap_slot now_ms eng i)) ! j =
      (if j = i \<and> slot_expired now_ms (map_slots (eng_map eng) ! i) then zero_infer_slot
       else map_slots (eng_map eng) ! j)"
    "eng_ledger (map_reap_slot now_ms eng i) ! j =
      (if j = i \<and> slot_expired now_ms (map_slots (eng_map eng) ! i) then zero_episode_log
       else eng_ledger eng ! j)"
    using assms(2) by (cases "j = i"; simp add: map_reap_slot_def slot_expired_def Let_def)+
qed (simp_all add: map_reap_slot_def Let_def)

lemma reap_prefix:
  assumes "engine_ok eng" "k \<le> WEI_TRACK_MAX_CLIENTS"
  shows "engine_ok (foldl (map_reap_slot now_ms) eng [0..<k]) \<and>
    map_slots (eng_map (foldl (map_reap_slot now_ms) eng [0..<k])) ! j =
      (if j < k \<and> slot_expired now_ms (map_slots (eng_map eng) ! j) then zero_infer_slot
       else map_slots (eng_map eng) ! j) \<and>
    eng_ledger (foldl (map_reap_slot now_ms) eng [0..<k]) ! j =
      (if j < k \<and> slot_expired now_ms (map_slots (eng_map eng) ! j) then zero_episode_log
       else eng_ledger eng ! j) \<and>
    eng_snapshot (foldl (map_reap_slot now_ms) eng [0..<k]) = eng_snapshot eng \<and>
    eng_result (foldl (map_reap_slot now_ms) eng [0..<k]) = eng_result eng \<and>
    eng_tracker (foldl (map_reap_slot now_ms) eng [0..<k]) = eng_tracker eng \<and>
    eng_policy (foldl (map_reap_slot now_ms) eng [0..<k]) = eng_policy eng"
  using assms(2)
proof (induction k arbitrary: j)
  case 0
  then show ?case using assms(1) by simp
next
  case (Suc k)
  let ?e = "foldl (map_reap_slot now_ms) eng [0..<k]"
  have k: "k < WEI_TRACK_MAX_CLIENTS" and ok: "engine_ok ?e" using Suc by auto
  have step: "foldl (map_reap_slot now_ms) eng [0..<Suc k] = map_reap_slot now_ms ?e k" by simp
  have at: "map_slots (eng_map ?e) ! k = map_slots (eng_map eng) ! k" using Suc.IH [of k] k by simp
  show ?case
    unfolding step using Suc.IH [of j] k reap_slot_ok [OF ok k, of now_ms] at
    by (cases "j = k") (simp_all add: less_Suc_eq reap_slot_fields [OF ok k])
qed

lemma map_reap_slots:
  assumes "engine_ok eng"
  shows "map_slots (eng_map (wei_infer_map_reap eng now_ms)) =
    map_reap_list (map_slots (eng_map eng)) now_ms WEI_TRACK_ABSENCE_DEFAULT_MS"
proof (rule nth_equalityI)
  note R = reap_prefix [OF assms order_refl, of now_ms, folded wei_infer_map_reap_def]
  have len: "length (map_slots (eng_map (wei_infer_map_reap eng now_ms))) = WEI_TRACK_MAX_CLIENTS"
    "length (map_slots (eng_map eng)) = WEI_TRACK_MAX_CLIENTS"
    using R assms by (auto simp: engine_ok_def)
  then show "length (map_slots (eng_map (wei_infer_map_reap eng now_ms))) =
      length (map_reap_list (map_slots (eng_map eng)) now_ms WEI_TRACK_ABSENCE_DEFAULT_MS)"
    by (simp add: map_tbl.reap_length)
  fix i assume "i < length (map_slots (eng_map (wei_infer_map_reap eng now_ms)))"
  then show "map_slots (eng_map (wei_infer_map_reap eng now_ms)) ! i =
      map_reap_list (map_slots (eng_map eng)) now_ms WEI_TRACK_ABSENCE_DEFAULT_MS ! i"
    using R [of i] len by (simp add: map_tbl.reap_nth slot_expired_def)
qed

lemma map_reap_ok [wei_inv]: "engine_ok eng \<Longrightarrow> engine_ok (wei_infer_map_reap eng now_ms)"
  using reap_prefix [of eng WEI_TRACK_MAX_CLIENTS now_ms] by (simp add: wei_infer_map_reap_def)

lemma map_reap_frame:
  assumes "engine_ok eng"
  shows "eng_snapshot (wei_infer_map_reap eng now_ms) = eng_snapshot eng"
    "eng_result (wei_infer_map_reap eng now_ms) = eng_result eng"
    "eng_tracker (wei_infer_map_reap eng now_ms) = eng_tracker eng"
    "eng_policy (wei_infer_map_reap eng now_ms) = eng_policy eng"
  using reap_prefix [OF assms order_refl, of now_ms] by (simp_all add: wei_infer_map_reap_def)

lemma map_reap_rates: "engine_ok eng \<Longrightarrow> rates_ok eng \<Longrightarrow> rates_ok (wei_infer_map_reap eng now_ms)"
  by (auto simp: rates_ok_def map_reap_slots map_reap_frame map_reap_list_def list_all_iff
      zero_infer_slot_def zero_client_windows)

section \<open>The verdict stage\<close>

lemma latency_frame [simp]:
  "windows_ok (fst (wei_infer_flag_latency_risk p st out)) = windows_ok st"
  "reconnect_ramp (fst (wei_infer_flag_latency_risk p st out)) = reconnect_ramp st"
  "phy_samples (fst (wei_infer_flag_latency_risk p st out)) = phy_samples st"
  by (auto simp: wei_infer_flag_latency_risk_def Let_def phy_samples_def)

lemma latency_client_ok [wei_inv]: "client_ok st \<Longrightarrow> client_ok (fst (wei_infer_flag_latency_risk p st out))"
  by (simp add: client_ok_def)

lemma scored_state_samples:
  "client_ok st \<Longrightarrow> phy_samples (scored_state st rec) = slide WEI_INFER_PHY_WINDOW (phy_samples st) (phy_rate_kbps rec)"
  using ingest_samples(1) [of st rec]
  by (auto simp: scored_state_def warm_state_def client_ok_def phy_samples_def)

lemma set_slide_subset: "set (slide cap xs v) \<subseteq> insert v (set xs)"
  unfolding slide_def by (cases xs) auto

lemma flag_instability_some:
  assumes "wei_infer_phy_instability st = Some n" "0 \<le> n" "track_table_wf tracker" "infer_policy_ok p"
  shows "\<exists>tracker' v. wei_infer_flag_instability p tracker m st out now_ms =
      Some (tracker', if v then out\<lparr>ir_verdict := WEI_INFER_VERDICT_DEGRADED\<rparr> else out) \<and> track_table_wf tracker'"
proof -
  obtain t r where get: "wei_track_get tracker m now_ms = (t, r)" by fastforce
  have wf: "track_table_wf t" using track_get_wf [OF assms(3), of m now_ms] get by simp
  show ?thesis
  proof (cases r)
    case None
    then show ?thesis using assms(1) get wf
      by (auto simp: wei_infer_flag_instability_def Let_def)
  next
    case (Some i)
    define e where "e = wei_track_tick (entries t ! i) (- n) now_ms (- tput_var_band p) (tput_floor_ms p)"
    have "track_table_wf (t\<lparr>entries := (entries t)[i := fst (wei_track_collect e)]\<rparr>)"
      using wf by (intro track_update_wf) (simp_all add: e_def)
    moreover have "neg_i32 n = Some (- n)" "neg_i32 (tput_var_band p) = Some (- tput_var_band p)"
      using assms(2,4) by (simp_all add: neg_i32_def infer_policy_ok_def)
    ultimately show ?thesis using assms(1) get Some
      by (auto simp: wei_infer_flag_instability_def Let_def e_def case_prod_beta)
  qed
qed

lemma ledger_update_ok [wei_inv]: "ledger_ok lg \<Longrightarrow> ledger_ok (wei_infer_ledger_update lg v now_ms)"
  using ledger_update_degraded ledger_update_smooth by (cases v) auto

lemma engine_judge_some:
  assumes ok: "engine_ok eng" and i: "i < WEI_TRACK_MAX_CLIENTS" "sl_in_use (map_slots (eng_map eng) ! i)"
    and st: "client_ok st" "\<forall>v \<in> set (phy_samples st). uint v \<le> PHY_SAFE_KBPS"
    and rates: "rates_ok eng"
  shows "\<exists>eng'. engine_judge eng i st out now_ms = Some eng' \<and> engine_ok eng' \<and> rates_ok eng' \<and>
    eng_snapshot eng' = eng_snapshot eng \<and> eng_policy eng' = eng_policy eng \<and>
    sl_mac (map_slots (eng_map eng') ! i) = sl_mac (map_slots (eng_map eng) ! i)"
proof -
  let ?slots = "map_slots (eng_map eng)"
  obtain n where n: "wei_infer_phy_instability st = Some n" "0 \<le> n"
    using phy_instability_some st by (fastforce simp: client_ok_def)
  have wf: "track_table_wf (eng_tracker eng)" "infer_policy_ok (eng_policy eng)" using ok by (simp_all add: engine_ok_def)
  from flag_instability_some [OF n wf] obtain tr o1 where
    fi: "wei_infer_flag_instability (eng_policy eng) (eng_tracker eng) (sl_mac (?slots ! i)) st out now_ms = Some (tr, o1)"
    and tr: "track_table_wf tr" by metis
  define st2 where "st2 = fst (wei_infer_flag_latency_risk (eng_policy eng) st o1)"
  have st2: "client_ok st2" "\<forall>v \<in> set (phy_samples st2). uint v \<le> PHY_SAFE_KBPS"
    using st by (simp_all add: st2_def latency_client_ok)
  define o2 where "o2 = wei_infer_flag_video_degrade (eng_policy eng)
      (snd (wei_infer_flag_latency_risk (eng_policy eng) st o1))"
  define o3 where "o3 = (if ir_verdict o2 = WEI_INFER_VERDICT_DEGRADED
      then o2\<lparr>ir_dominant := wei_infer_attribute st2 (eng_snapshot eng ! i)\<rparr> else o2)"
  define lg where "lg = wei_infer_ledger_update (eng_ledger eng ! i) (ir_verdict o3) now_ms"
  have j: "engine_judge eng i st out now_ms =
      Some (eng\<lparr>eng_map := (eng_map eng)\<lparr>map_slots := ?slots[i := (?slots ! i)\<lparr>sl_state := st2\<rparr>]\<rparr>,
                eng_tracker := tr, eng_result := (eng_result eng)[i := o3],
                eng_ledger := (eng_ledger eng)[i := lg]\<rparr>)"
    unfolding engine_judge_def Let_def fi option.case case_prod_beta fst_conv snd_conv
    unfolding st2_def [symmetric] o2_def [symmetric] o3_def [symmetric] lg_def [symmetric] ..
  have lg: "ledger_ok lg"
    using ok i(1) by (auto simp: lg_def engine_ok_def list_all2_conv_all_nth slot_ok_def ledger_update_ok)
  have len: "i < length ?slots" using ok i by (simp add: engine_ok_def)
  have "slot_ok ((?slots ! i)\<lparr>sl_state := st2\<rparr>) lg" using st2 lg i(2) by (simp add: slot_ok_def)
  then have "list_all2 slot_ok (?slots[i := (?slots ! i)\<lparr>sl_state := st2\<rparr>]) ((eng_ledger eng)[i := lg])"
    using ok by (intro list_all2_update_cong) (auto simp: engine_ok_def)
  moreover have "live_slots (?slots[i := (?slots ! i)\<lparr>sl_state := st2\<rparr>]) = live_slots ?slots"
    using live_slots_update [OF len, of "(?slots ! i)\<lparr>sl_state := st2\<rparr>"] by simp
  moreover have "unique_keys sl_in_use sl_mac (?slots[i := (?slots ! i)\<lparr>sl_state := st2\<rparr>])"
    using ok by (intro unique_keys_update_same) (auto simp: engine_ok_def)
  ultimately show ?thesis
    using j ok tr rates st2(2) len by (auto simp: engine_ok_def rates_ok_def intro!: list_all_update)
qed

lemma engine_score_some:
  assumes env: "libm_exp_ok env" and ok: "engine_ok eng" "rates_ok eng" and i: "i < WEI_TRACK_MAX_CLIENTS"
  shows "\<exists>scored eng'. engine_score env eng i now_ms = Some (scored, eng') \<and>
    engine_ok eng' \<and> rates_ok eng' \<and> eng_policy eng' = eng_policy eng \<and>
    eng_snapshot eng' = eng_snapshot eng \<and>
    sl_mac (map_slots (eng_map eng') ! i) = sl_mac (map_slots (eng_map eng) ! i) \<and>
    scored = (sl_in_use (map_slots (eng_map eng) ! i) \<and> metric_scoreable (eng_snapshot eng ! i)) \<and>
    (scored \<or> eng' = eng)"
proof (cases "sl_in_use (map_slots (eng_map eng) ! i) \<and> metric_scoreable (eng_snapshot eng ! i)")
  case False
  then show ?thesis using ok by (auto simp: engine_score_def Let_def score_client_gated)
next
  case True
  let ?s = "map_slots (eng_map eng) ! i" and ?rec = "eng_snapshot eng ! i"
  have st: "client_ok (sl_state ?s)"
    using ok(1) i by (auto simp: engine_ok_def list_all2_conv_all_nth slot_ok_def)
  have safe: "\<forall>v \<in> set (phy_samples (sl_state ?s)). uint v \<le> PHY_SAFE_KBPS" "uint (phy_rate_kbps ?rec) \<le> PHY_SAFE_KBPS"
    using ok i by (auto simp: engine_ok_def rates_ok_def list_all_length)
  have "\<forall>v \<in> set (phy_samples (scored_state (sl_state ?s) ?rec)). uint v \<le> PHY_SAFE_KBPS"
    using safe set_slide_subset [of WEI_INFER_PHY_WINDOW "phy_samples (sl_state ?s)" "phy_rate_kbps ?rec"]
    by (auto simp: scored_state_samples [OF st])
  note judge = engine_judge_some [OF ok(1) i _ scored_state_ok(1) [OF st] this ok(2)]
  obtain b where "c_uint8_of (dadd (damped_score env (sl_state ?s) ?rec) (1 / 2)) = Some b"
    using score_byte damped_score_range [OF env st] by blast
  then obtain out where out: "wei_infer_score_client env (sl_state ?s) ?rec (eng_result eng ! i) =
      Some (True, scored_state (sl_state ?s) ?rec, out)"
    using True by (simp add: score_client_eq)
  from judge [of out now_ms] True obtain eng' where
    "engine_judge eng i (scored_state (sl_state ?s) ?rec) out now_ms = Some eng'"
    "engine_ok eng'" "rates_ok eng'" "eng_snapshot eng' = eng_snapshot eng" "eng_policy eng' = eng_policy eng"
    "sl_mac (map_slots (eng_map eng') ! i) = sl_mac ?s"
    by blast
  then show ?thesis using True out
    by (intro exI [of _ True] exI [of _ eng']) (simp add: engine_score_def Let_def)
qed

section \<open>Publishing never stops the sweep\<close>

lemma publish_tick_total:
  assumes "perf_ok s"
  shows "\<exists>rc s' b'. wei_perfreport_publish_tick pe store env (Some m) (Some r) (Some rec) (s, b) = Some (rc, s', b') \<and>
    perf_ok s'"
proof -
  obtain tbl x where adm: "perf_admit (state_tbl s) m () = (tbl, x)" by fastforce
  have tbl: "length tbl = WEI_TRACK_MAX_CLIENTS" "unique_keys pc_in_use pc_mac tbl"
    using assms perf_tbl.admit_length [of "state_tbl s" m "()"] perf_tbl.admit_unique [of "state_tbl s" m "()"]
    by (auto simp: perf_ok_def adm)
  have ok: "perf_ok (s\<lparr>state_tbl := tbl\<rparr>)" using assms tbl by (simp add: perf_ok_def)
  have foa: "wei_perfreport_state_find_or_add s (Some m) = (s\<lparr>state_tbl := tbl\<rparr>, x)"
    by (simp add: wei_perfreport_state_find_or_add_def adm)
  show ?thesis
  proof (cases x)
    case None
    then show ?thesis using foa ok by (simp add: wei_perfreport_publish_tick_def)
  next
    case (Some i)
    obtain st e where se: "wei_perfreport_should_emit store (tbl ! i) (ir_verdict r) = (st, e)" by fastforce
    have frame: "pc_in_use st = pc_in_use (tbl ! i)" "pc_mac st = pc_mac (tbl ! i)"
      using se by (auto simp: wei_perfreport_should_emit_def split: if_splits)
    have upd: "perf_ok (s\<lparr>state_tbl := tbl[i := st'], json_buf_cap := cap\<rparr>)"
      if "pc_in_use st' = pc_in_use (tbl ! i)" "pc_mac st' = pc_mac (tbl ! i)"
        "case cap of None \<Rightarrow> True | Some n \<Rightarrow> 512 \<le> n \<and> n \<le> 2048" for st' cap
      using tbl that by (auto simp: perf_ok_def intro!: unique_keys_update_same)
    have cap: "case json_buf_cap s of None \<Rightarrow> True | Some n \<Rightarrow> 512 \<le> n \<and> n \<le> 2048"
      using assms by (simp add: perf_ok_def)
    have ok1: "perf_ok (s\<lparr>state_tbl := tbl[i := st]\<rparr>)" using upd [OF frame cap] by simp
    from build_json_any [OF ok1, of pe m r rec] obtain json n where
      n: "wei_perfreport_build_json pe (s\<lparr>state_tbl := tbl[i := st]\<rparr>) (Some m) (Some r) (Some rec) =
        Some (json, s\<lparr>state_tbl := tbl[i := st], json_buf_cap := n\<rparr>)"
        "case n of None \<Rightarrow> True | Some n \<Rightarrow> 512 \<le> n \<and> n \<le> 2048" by auto
    have i: "i < length tbl" using perf_tbl.admit_slot [of "state_tbl s" m "()"] adm Some by simp
    have swap: "s\<lparr>json_buf_cap := cap, state_tbl := x\<rparr> = s\<lparr>state_tbl := x, json_buf_cap := cap\<rparr>" for cap x
      by simp
    show ?thesis
      using foa se Some n ok1 i upd [OF frame n(2)]
        upd [of "st\<lparr>last_emitted_class := ir_verdict r\<rparr>" n] frame
      by (cases e; cases json) (auto simp: wei_perfreport_publish_tick_def Let_def swap)
  qed
qed

lemma perf_run_total: "perf_ok s \<Longrightarrow> \<exists>s' b'. perf_run ts (s, b) = Some (s', b') \<and> perf_ok s'"
proof (induction ts arbitrary: s b)
  case (Cons t ts)
  from publish_tick_total [OF Cons.prems] obtain rc s1 b1 where
    "wei_perfreport_publish_tick (pt_pe t) (pt_store t) (pt_bus t) (Some (pt_mac t))
      (Some (pt_result t)) (Some (pt_metrics t)) (s, b) = Some (rc, s1, b1)" "perf_ok s1" by blast
  then show ?case using Cons.IH [of s1 b1] by simp
qed simp

section \<open>The sweep, with its reports set apart\<close>

text \<open>The scoring part of the sweep: the engine it leaves and the scored clients in order.\<close>

fun sweep_scores ::
    "scorer_env \<Rightarrow> int \<Rightarrow> nat list \<Rightarrow> wei_infer_engine \<Rightarrow> (wei_infer_engine \<times> (nat \<times> mac \<times> wei_infer_result \<times> wei_conn_metric_record) list) option" where
  "sweep_scores env now_ms [] eng = Some (eng, [])"
| "sweep_scores env now_ms (i # is) eng =
     (case engine_score env eng i now_ms of
        None \<Rightarrow> None
      | Some (scored, eng) \<Rightarrow>
          map_option (\<lambda>(e, rs).
              (e, if scored then (i, sl_mac (map_slots (eng_map eng) ! i), eng_result eng ! i, eng_snapshot eng ! i) # rs
                  else rs))
            (sweep_scores env now_ms is eng))"

definition report_tick :: "(nat \<Rightarrow> 'j tick_world) \<Rightarrow> nat \<times> mac \<times> wei_infer_result \<times> wei_conn_metric_record \<Rightarrow> 'j perf_tick" where
  "report_tick world r =
     (case r of (i, m, res, rec) \<Rightarrow>
        \<lparr>pt_mac = m, pt_result = res, pt_metrics = rec, pt_pe = tw_pe (world i),
         pt_store = tw_store (world i), pt_bus = tw_bus (world i)\<rparr>)"

lemma sweep_scores_some:
  assumes "libm_exp_ok env" "engine_ok eng" "rates_ok eng" "\<forall>i \<in> set is. i < WEI_TRACK_MAX_CLIENTS"
  shows "\<exists>eng' rs. sweep_scores env now_ms is eng = Some (eng', rs) \<and> engine_ok eng' \<and> rates_ok eng' \<and>
    eng_policy eng' = eng_policy eng \<and> eng_snapshot eng' = eng_snapshot eng"
  using assms(2-)
proof (induction "is" arbitrary: eng)
  case (Cons i "is")
  from engine_score_some [OF assms(1) Cons.prems(1,2), of i now_ms] Cons.prems(3) obtain scored e where
    e: "engine_score env eng i now_ms = Some (scored, e)" "engine_ok e" "rates_ok e"
      "eng_policy e = eng_policy eng" "eng_snapshot e = eng_snapshot eng" by auto
  with Cons.IH [OF e(2,3)] Cons.prems(3) show ?case by fastforce
qed simp

lemma engine_sweep_split:
  assumes "perf_ok ps"
  shows "engine_sweep env world now_ms is (eng, ps, b) =
    (case sweep_scores env now_ms is eng of
       None \<Rightarrow> None
     | Some (eng', rs) \<Rightarrow> map_option (\<lambda>(ps', b'). (eng', ps', b')) (perf_run (map (report_tick world) rs) (ps, b)))"
  using assms
proof (induction "is" arbitrary: eng ps b)
  case (Cons i "is")
  show ?case
  proof (cases "engine_score env eng i now_ms")
    case (Some r)
    then obtain scored e where e: "engine_score env eng i now_ms = Some (scored, e)" by (cases r) auto
    show ?thesis
    proof (cases scored)
      case True
      let ?m = "sl_mac (map_slots (eng_map e) ! i)" and ?r = "eng_result e ! i" and ?rec = "eng_snapshot e ! i"
      from publish_tick_total [OF Cons.prems] obtain rc ps1 b1 where
        p: "wei_perfreport_publish_tick (tw_pe (world i)) (tw_store (world i)) (tw_bus (world i))
          (Some ?m) (Some ?r) (Some ?rec) (ps, b) = Some (rc, ps1, b1)" "perf_ok ps1" by blast
      show ?thesis
        using Cons.IH [OF p(2), of e b1] True e p(1)
        by (cases "sweep_scores env now_ms is e") (auto simp: report_tick_def)
    next
      case False
      then show ?thesis
        using Cons.IH [OF Cons.prems, of e b] e
        by (cases "sweep_scores env now_ms is e") auto
    qed
  qed simp
qed simp

text \<open>One tick of a live engine, as a function of the engine alone.\<close>

definition engine_tick :: "scorer_env \<Rightarrow> c_timespec \<Rightarrow> wei_infer_engine
    \<Rightarrow> (wei_infer_engine \<times> (nat \<times> mac \<times> wei_infer_result \<times> wei_conn_metric_record) list) option" where
  "engine_tick env ts eng =
     map_option (\<lambda>(e, rs).
        (wei_infer_map_reap
           (e\<lparr>eng_tracker := wei_track_reap (eng_tracker e) (wei_infer_now_ms ts) WEI_TRACK_ABSENCE_DEFAULT_MS\<rparr>)
           (wei_infer_now_ms ts), rs))
       (sweep_scores env (wei_infer_now_ms ts) [0..<WEI_TRACK_MAX_CLIENTS] eng)"

lemma engine_ok_tracker: "engine_ok e \<Longrightarrow> engine_ok (e\<lparr>eng_tracker := wei_track_reap (eng_tracker e) t a\<rparr>)"
  by (simp add: engine_ok_def track_reap_wf)

lemma rates_ok_tracker [simp]: "rates_ok (e\<lparr>eng_tracker := t\<rparr>) = rates_ok e"
  by (simp add: rates_ok_def)

lemma engine_tick_some:
  assumes "libm_exp_ok env" "engine_ok eng" "rates_ok eng"
  shows "\<exists>eng' rs. engine_tick env ts eng = Some (eng', rs) \<and> engine_ok eng' \<and> rates_ok eng'"
proof -
  obtain e rs where e: "sweep_scores env (wei_infer_now_ms ts) [0..<WEI_TRACK_MAX_CLIENTS] eng = Some (e, rs)"
    "engine_ok e" "rates_ok e"
    using sweep_scores_some [OF assms, of "[0..<WEI_TRACK_MAX_CLIENTS]" "wei_infer_now_ms ts"] by auto
  have "engine_ok (e\<lparr>eng_tracker := wei_track_reap (eng_tracker e) (wei_infer_now_ms ts) WEI_TRACK_ABSENCE_DEFAULT_MS\<rparr>)"
    using e(2) by (rule engine_ok_tracker)
  then show ?thesis using e by (simp add: engine_tick_def map_reap_ok map_reap_rates)
qed

lemma tick_split:
  assumes "perf_ok ps"
  shows "wei_infer_tick env world ts (Some eng, ps, b) =
    (case engine_tick env ts eng of
       None \<Rightarrow> None
     | Some (eng', rs) \<Rightarrow>
         map_option (\<lambda>(ps', b'). (Some eng', ps', b')) (perf_run (map (report_tick world) rs) (ps, b)))"
  unfolding wei_infer_tick_def engine_tick_def Let_def
  by (auto simp: engine_sweep_split [OF assms] split: option.splits)

lemma tick_some:
  assumes "libm_exp_ok env" "engine_ok eng" "rates_ok eng" "perf_ok ps"
  shows "\<exists>eng' ps' b'. wei_infer_tick env world ts (Some eng, ps, b) = Some (Some eng', ps', b') \<and>
    engine_ok eng' \<and> rates_ok eng' \<and> perf_ok ps'"
proof -
  obtain e rs where e: "engine_tick env ts eng = Some (e, rs)" "engine_ok e" "rates_ok e"
    using engine_tick_some [OF assms(1-3)] by blast
  obtain ps1 b1 where "perf_run (map (report_tick world) rs) (ps, b) = Some (ps1, b1)" "perf_ok ps1"
    using perf_run_total [OF assms(4)] by blast
  then show ?thesis using e by (simp add: tick_split [OF assms(4)])
qed

text \<open>
  C8. Scoring does not depend on reporting: one tick is the engine's own step, which no bus,
  enable flag, cJSON or allocator outcome can influence, followed by the publication of the
  clients it scored, in slot order. In particular a dead bus never changes a score or verdict.
\<close>

theorem tick_scores_then_reports:
  assumes "perf_ok ps"
  shows "wei_infer_tick env world ts (Some eng, ps, b) =
    (case engine_tick env ts eng of
       None \<Rightarrow> None
     | Some (eng', rs) \<Rightarrow>
         map_option (\<lambda>(ps', b'). (Some eng', ps', b')) (perf_run (map (report_tick world) rs) (ps, b)))"
  using assms by (rule tick_split)

section \<open>The engine never fails\<close>

datatype 'j engine_op =
    OP_stage c_timespec mac wei_conn_metric_record
  | OP_tick c_timespec "nat \<Rightarrow> 'j tick_world"

fun engine_run :: "scorer_env \<Rightarrow> 'j engine_op list \<Rightarrow> wei_infer_engine \<times> perf_state \<times> bus_state
    \<Rightarrow> (wei_infer_engine option \<times> perf_state \<times> bus_state) option" where
  "engine_run env [] (eng, ps, b) = Some (Some eng, ps, b)"
| "engine_run env (OP_stage ts m rec # ops) (eng, ps, b) =
     engine_run env ops (wei_infer_stage_record ts eng m rec, ps, b)"
| "engine_run env (OP_tick ts world # ops) (eng, ps, b) =
     (case wei_infer_tick env world ts (Some eng, ps, b) of
        None \<Rightarrow> None
      | Some (None, ps, b) \<Rightarrow> Some (None, ps, b)
      | Some (Some eng, ps, b) \<Rightarrow> engine_run env ops (eng, ps, b))"

definition plausible :: "'j engine_op \<Rightarrow> bool" where
  "plausible op =
     (case op of OP_stage ts m rec \<Rightarrow> uint (phy_rate_kbps rec) \<le> PHY_SAFE_KBPS | OP_tick ts world \<Rightarrow> True)"

lemma engine_run_ok:
  assumes "libm_exp_ok env" "list_all plausible ops" "engine_ok eng" "rates_ok eng" "perf_ok ps"
  shows "\<exists>eng' ps' b'. engine_run env ops (eng, ps, b) = Some (Some eng', ps', b') \<and>
    engine_ok eng' \<and> rates_ok eng' \<and> perf_ok ps'"
  using assms(2-)
proof (induction ops arbitrary: eng ps b)
  case (Cons op ops)
  show ?case
  proof (cases op)
    case (OP_stage ts m rec)
    then show ?thesis
      using Cons.IH [of "wei_infer_stage_record ts eng m rec" ps b] Cons.prems stage_ok stage_rates
      by (simp add: plausible_def)
  next
    case (OP_tick ts world)
    obtain e ps1 b1 where e: "wei_infer_tick env world ts (Some eng, ps, b) = Some (Some e, ps1, b1)"
      "engine_ok e" "rates_ok e" "perf_ok ps1"
      using tick_some [OF assms(1) Cons.prems(2-4)] by blast
    show ?thesis using OP_tick Cons.IH [OF _ e(2-4), of b1] Cons.prems(1) e(1) by simp
  qed
qed simp

text \<open>Concrete inputs for the instances below.\<close>

definition sample_policy :: wei_infer_policy where
  "sample_policy = \<lparr>tput_var_band = 400, tput_floor_ms = 2000, latency_score_band = 40,
     latency_sustain_ticks = 3, video_degrade_band = 50\<rparr>"

lemma sample_policy_ok: "infer_policy_ok sample_policy"
  by (simp add: infer_policy_ok_def sample_policy_def)

definition sample_world :: "nat \<Rightarrow> unit tick_world" where
  "sample_world i = \<lparr>tw_pe = pt_pe (sample_tick WEI_INFER_VERDICT_SMOOTH),
     tw_store = pt_store (sample_tick WEI_INFER_VERDICT_SMOOTH), tw_bus = good_bus\<rparr>"

section \<open>Results are coherent\<close>

definition result_ok :: "wei_infer_result \<Rightarrow> bool" where
  "result_ok r \<longleftrightarrow> uint (ir_score r) \<le> 100 \<and> uint (ir_pkt_err_pct r) \<le> 100 \<and>
     (ir_verdict r = WEI_INFER_VERDICT_DEGRADED \<longleftrightarrow> ir_dominant r \<noteq> WEI_INFER_CONTRIB_NONE)"

lemma flag_instability_result:
  "wei_infer_flag_instability p tr m st out t = Some (tr', out') \<Longrightarrow>
     ir_score out' = ir_score out \<and> ir_pkt_err_pct out' = ir_pkt_err_pct out \<and> ir_dominant out' = ir_dominant out"
  by (auto simp: wei_infer_flag_instability_def Let_def split: option.splits prod.splits)

lemma latency_result [simp]:
  "ir_score (snd (wei_infer_flag_latency_risk p st out)) = ir_score out"
  "ir_pkt_err_pct (snd (wei_infer_flag_latency_risk p st out)) = ir_pkt_err_pct out"
  "ir_dominant (snd (wei_infer_flag_latency_risk p st out)) = ir_dominant out"
  by (auto simp: wei_infer_flag_latency_risk_def Let_def)

lemma video_result [simp]:
  "ir_score (wei_infer_flag_video_degrade p out) = ir_score out"
  "ir_pkt_err_pct (wei_infer_flag_video_degrade p out) = ir_pkt_err_pct out"
  "ir_dominant (wei_infer_flag_video_degrade p out) = ir_dominant out"
  by (auto simp: wei_infer_flag_video_degrade_def)

lemma attribute_not_none: "wei_infer_attribute st rec \<noteq> WEI_INFER_CONTRIB_NONE"
proof -
  have "attribute_badness st rec \<noteq> []" "length (attribute_badness st rec) = 4"
    by (simp_all add: attribute_badness_def)
  then have "worst_scan (attribute_badness st rec) < 4"
    using worst_scan_correct [of "attribute_badness st rec"] by simp
  then show ?thesis by (auto simp: wei_infer_attribute_def)
qed

lemma engine_judge_result:
  assumes "engine_judge eng i st out t = Some eng'" "ir_dominant out = WEI_INFER_CONTRIB_NONE"
    "uint (ir_score out) \<le> 100" "uint (ir_pkt_err_pct out) \<le> 100"
  shows "\<exists>o'. eng_result eng' = (eng_result eng)[i := o'] \<and> result_ok o'"
proof -
  obtain tr o1 where fi: "wei_infer_flag_instability (eng_policy eng) (eng_tracker eng)
      (sl_mac (map_slots (eng_map eng) ! i)) st out t = Some (tr, o1)"
    using assms(1) by (auto simp: engine_judge_def Let_def split: option.splits)
  let ?l = "wei_infer_flag_latency_risk (eng_policy eng) st o1"
  let ?v = "wei_infer_flag_video_degrade (eng_policy eng) (snd ?l)"
  let ?o = "if ir_verdict ?v = WEI_INFER_VERDICT_DEGRADED
      then ?v\<lparr>ir_dominant := wei_infer_attribute (fst ?l) (eng_snapshot eng ! i)\<rparr> else ?v"
  have "eng_result eng' = (eng_result eng)[i := ?o]"
    using assms(1) fi by (auto simp: engine_judge_def Let_def case_prod_beta)
  moreover have "result_ok ?o"
    using flag_instability_result [OF fi] assms(2-4) attribute_not_none by (simp add: result_ok_def)
  ultimately show ?thesis by blast
qed

lemma engine_score_result:
  assumes env: "libm_exp_ok env" and ok: "engine_ok eng" and i: "i < WEI_TRACK_MAX_CLIENTS"
    and s: "engine_score env eng i t = Some (True, eng')"
  shows "result_ok (eng_result eng' ! i)"
proof -
  let ?s = "map_slots (eng_map eng) ! i"
  have st: "client_ok (sl_state ?s)"
    using ok i by (auto simp: engine_ok_def list_all2_conv_all_nth slot_ok_def)
  have len: "i < length (eng_result eng)" using ok i by (simp add: engine_ok_def)
  obtain st' out where c: "wei_infer_score_client env (sl_state ?s) (eng_snapshot eng ! i) (eng_result eng ! i) = Some (True, st', out)"
    and j: "engine_judge eng i st' out t = Some eng'"
    using s by (auto simp: engine_score_def Let_def split: if_splits option.splits prod.splits)
  have "uint (ir_score out) \<le> 100" "uint (ir_pkt_err_pct out) \<le> 100" "ir_dominant out = WEI_INFER_CONTRIB_NONE"
    using score_client_some [OF env st, of "eng_snapshot eng ! i" "eng_result eng ! i"] c by auto
  with engine_judge_result [OF j] obtain o' where "eng_result eng' = (eng_result eng)[i := o']" "result_ok o'" by blast
  then show ?thesis using len by simp
qed

lemma sweep_scores_result:
  assumes env: "libm_exp_ok env"
    and "sweep_scores env t is eng = Some (eng', rs)" "engine_ok eng" "rates_ok eng"
    "\<forall>i \<in> set is. i < WEI_TRACK_MAX_CLIENTS"
  shows "list_all (\<lambda>(i, m, r, rec). result_ok r \<and> metric_scoreable rec) rs"
  using assms(2-)
proof (induction "is" arbitrary: eng rs)
  case (Cons i "is")
  have i: "i < WEI_TRACK_MAX_CLIENTS" using Cons.prems(4) by simp
  from engine_score_some [OF env Cons.prems(2,3) i, of t] obtain scored e where
    e: "engine_score env eng i t = Some (scored, e)" "engine_ok e" "rates_ok e"
      "scored \<longrightarrow> metric_scoreable (eng_snapshot e ! i)" by auto
  have r: "result_ok (eng_result e ! i)" if scored
    using engine_score_result [OF env Cons.prems(2) i] e(1) that by simp
  obtain rs' where rs': "sweep_scores env t is e = Some (eng', rs')"
    using Cons.prems(1) e(1) by auto
  have "list_all (\<lambda>(i, m, r, rec). result_ok r \<and> metric_scoreable rec) rs'"
    using Cons.IH [OF rs' e(2,3)] Cons.prems(4) by simp
  then show ?case using Cons.prems(1) e r rs' by auto
qed simp

text \<open>
  C4. The engine cannot fail. From creation, after any sequence of staged records and ticks, in
  any order, with any bus and allocator behaviour, and provided only that \<open>exp\<close> is correct and
  the staged PHY rates are below 46.34 Gbit/s (and the variance band of the policy is not the
  least \<open>int32_t\<close>, which cannot be negated), nothing undefined has happened and every call has
  returned; the map is consistent (64 slots, no station twice, the count equal to the live
  slots, every free slot and its ledger zero), and a further tick reports only results on the
  0-100 scales whose dominant contributor is named exactly when the verdict is degraded.
\<close>

theorem engine_always_runs:
  assumes "libm_exp_ok env" "list_all plausible ops" "wei_infer_create (Some p) True = Some eng"
    "infer_policy_ok p"
  shows "case engine_run env ops (eng, perf_init, b) of
      Some (Some eng', ps', b') \<Rightarrow>
        engine_ok eng' \<and>
        (case engine_tick env ts eng' of
           None \<Rightarrow> False
         | Some (eng'', rs) \<Rightarrow> list_all (\<lambda>(i, m, r, rec). result_ok r \<and> metric_scoreable rec) rs)
    | _ \<Rightarrow> False"
proof -
  obtain eng' ps' b' where run: "engine_run env ops (eng, perf_init, b) = Some (Some eng', ps', b')"
    "engine_ok eng'" "rates_ok eng'"
    using engine_run_ok [OF assms(1,2) create_ok [OF assms(3,4)] perf_init_ok(1)] by blast
  obtain e rs where e: "sweep_scores env (wei_infer_now_ms ts) [0..<WEI_TRACK_MAX_CLIENTS] eng' = Some (e, rs)"
    using sweep_scores_some [OF assms(1) run(2,3), of "[0..<WEI_TRACK_MAX_CLIENTS]" "wei_infer_now_ms ts"] by auto
  then show ?thesis
    using run sweep_scores_result [OF assms(1) e run(2,3)] by (simp add: engine_tick_def)
qed

theorem engine_always_runs_witness:
  "engine_run exact_env
     [OP_stage \<lparr>tv_sec = 5, tv_nsec = 0\<rparr> zero_mac zero_metric_record,
      OP_tick \<lparr>tv_sec = 6, tv_nsec = 0\<rparr> sample_world]
     (the (wei_infer_create (Some sample_policy) True), perf_init, g_weid_bus_init) \<noteq> None"
proof -
  let ?ops = "[OP_stage \<lparr>tv_sec = 5, tv_nsec = 0\<rparr> zero_mac zero_metric_record,
      OP_tick \<lparr>tv_sec = 6, tv_nsec = 0\<rparr> sample_world]"
  obtain eng where eng: "wei_infer_create (Some sample_policy) True = Some eng" by (simp add: wei_infer_create_def)
  have ops: "list_all plausible ?ops" by (simp add: plausible_def zero_metric_record_def PHY_SAFE_KBPS_def)
  show ?thesis
    using engine_always_runs [OF exact_env_ok ops eng sample_policy_ok, where b = g_weid_bus_init and ts = "\<lparr>tv_sec = 9, tv_nsec = 0\<rparr>"] eng
    by (auto simp del: engine_run.simps split: option.splits)
qed

section \<open>Membership\<close>

lemma live_slots_full: "live_slots slots = length slots \<longleftrightarrow> (\<forall>s \<in> set slots. sl_in_use s)"
proof (induction slots)
  case (Cons s slots)
  have "length (filter sl_in_use slots) \<noteq> Suc (length slots)"
    using length_filter_le [of sl_in_use slots] by linarith
  then show ?case using Cons.IH by (auto simp: live_slots_def)
qed (simp add: live_slots_def)

text \<open>
  C24. Staging admits, refreshes or drops, and a reused slot is clean. A known station keeps its
  slot and its scoring state, its snapshot is the new record and its stamp is refreshed; an
  unknown one, as long as a slot is free, gets one whose scoring state and episode ledger are
  zero, whatever station had the slot before; when all 64 slots are live the record is dropped
  and nothing changes. No other station is moved.
\<close>

theorem stage_record_outcome:
  assumes "engine_ok eng"
  shows "let eng' = wei_infer_stage_record ts eng m rec; slots = map_slots (eng_map eng);
             slots' = map_slots (eng_map eng')
         in (case slot_of sl_in_use sl_mac slots m of
               Some i \<Rightarrow>
                 slot_of sl_in_use sl_mac slots' m = Some i \<and> sl_state (slots' ! i) = sl_state (slots ! i) \<and>
                 sl_last_seen (slots' ! i) = wei_infer_now_ms ts \<and> eng_snapshot eng' ! i = rec
             | None \<Rightarrow>
                 if live_slots slots = WEI_TRACK_MAX_CLIENTS then eng' = eng
                 else (case slot_of sl_in_use sl_mac slots' m of
                         None \<Rightarrow> False
                       | Some i \<Rightarrow> sl_state (slots' ! i) = zero_infer_client \<and>
                           eng_ledger eng' ! i = zero_episode_log \<and>
                           sl_last_seen (slots' ! i) = wei_infer_now_ms ts \<and> eng_snapshot eng' ! i = rec)) \<and>
            (m' = m \<or> slot_of sl_in_use sl_mac slots' m' = slot_of sl_in_use sl_mac slots m')"
proof -
  let ?slots = "map_slots (eng_map eng)" and ?t = "wei_infer_now_ms ts"
  let ?eng' = "wei_infer_stage_record ts eng m rec"
  have uniq: "unique_keys sl_in_use sl_mac ?slots" and len: "length ?slots = WEI_TRACK_MAX_CLIENTS"
    "length (eng_snapshot eng) = WEI_TRACK_MAX_CLIENTS" using assms by (auto simp: engine_ok_def)
  have other: "m' = m \<or> slot_of sl_in_use sl_mac (map_slots (eng_map ?eng')) m' = slot_of sl_in_use sl_mac ?slots m'"
    using map_tbl.admit_other [of m' m ?slots ?t] by (auto simp: stage_admit)
  have found: "slot_of sl_in_use sl_mac (map_slots (eng_map ?eng')) m = snd (map_admit ?slots m ?t)"
    using map_tbl.admit_slot_of [OF uniq] by (simp add: stage_admit)
  have "case slot_of sl_in_use sl_mac ?slots m of
      Some i \<Rightarrow> slot_of sl_in_use sl_mac (map_slots (eng_map ?eng')) m = Some i \<and>
        sl_state (map_slots (eng_map ?eng') ! i) = sl_state (?slots ! i) \<and>
        sl_last_seen (map_slots (eng_map ?eng') ! i) = ?t \<and> eng_snapshot ?eng' ! i = rec
    | None \<Rightarrow>
        if live_slots ?slots = WEI_TRACK_MAX_CLIENTS then ?eng' = eng
        else (case slot_of sl_in_use sl_mac (map_slots (eng_map ?eng')) m of
                None \<Rightarrow> False
              | Some i \<Rightarrow> sl_state (map_slots (eng_map ?eng') ! i) = zero_infer_client \<and>
                  eng_ledger ?eng' ! i = zero_episode_log \<and>
                  sl_last_seen (map_slots (eng_map ?eng') ! i) = ?t \<and> eng_snapshot ?eng' ! i = rec)"
  proof (rule map_tbl.admit_cases [of ?slots m ?t])
    fix i assume "slot_of sl_in_use sl_mac ?slots m = Some i" "i < length ?slots"
      "map_admit ?slots m ?t = (?slots[i := (?slots ! i)\<lparr>sl_last_seen := ?t\<rparr>], Some i)"
    then show ?thesis using found len by (simp add: stage_admit)
  next
    fix i assume claim: "slot_of sl_in_use sl_mac ?slots m = None" "i < length ?slots"
      "map_admit ?slots m ?t = (?slots[i := map_claim m ?t (?slots ! i)], Some i)" "\<not> sl_in_use (?slots ! i)"
    then have "slot_ok (?slots ! i) (eng_ledger eng ! i)"
      using assms by (simp add: engine_ok_def list_all2_nthD)
    moreover have "live_slots ?slots \<noteq> WEI_TRACK_MAX_CLIENTS"
      using claim(2,4) live_slots_full [of ?slots] len nth_mem [of i ?slots] by auto
    ultimately show ?thesis using claim found len
      by (simp add: stage_admit slot_ok_def map_claim_def zero_infer_slot_def)
  next
    assume full: "slot_of sl_in_use sl_mac ?slots m = None" "\<forall>s \<in> set ?slots. sl_in_use s"
    then have "free_slot sl_in_use ?slots = None" by (simp add: free_slot_None_iff)
    then have "?eng' = eng" using scan_slots_0(2) [OF full(1)] by (simp add: wei_infer_stage_record_def Let_def)
    then show ?thesis using full live_slots_full [of ?slots] len by simp
  qed
  with other show ?thesis unfolding Let_def by blast
qed

theorem stage_record_outcome_witness:
  "case wei_infer_create (Some sample_policy) True of
     None \<Rightarrow> False
   | Some eng \<Rightarrow> slot_of sl_in_use sl_mac
       (map_slots (eng_map (wei_infer_stage_record \<lparr>tv_sec = 5, tv_nsec = 0\<rparr> eng zero_mac zero_metric_record))) zero_mac
         \<noteq> None"
proof -
  obtain eng where eng: "wei_infer_create (Some sample_policy) True = Some eng" by (simp add: wei_infer_create_def)
  have "map_slots (eng_map eng) = replicate WEI_TRACK_MAX_CLIENTS zero_infer_slot"
    using eng by (auto simp: wei_infer_create_def)
  then have "slot_of sl_in_use sl_mac (map_slots (eng_map eng)) zero_mac = None"
    "live_slots (map_slots (eng_map eng)) = 0"
    by (auto simp: slot_of_def find_index_None_iff live_slots_def zero_infer_slot_def)
  then show ?thesis
    using stage_record_outcome [OF create_ok(1) [OF eng sample_policy_ok], where ts = "\<lparr>tv_sec = 5, tv_nsec = 0\<rparr>"
        and m = zero_mac and rec = zero_metric_record and m' = zero_mac] eng
    by (auto simp: Let_def WEI_TRACK_MAX_CLIENTS_def split: option.splits if_splits)
qed

definition slot_key :: "wei_infer_slot \<Rightarrow> bool \<times> mac \<times> int" where
  "slot_key s = (sl_in_use s, sl_mac s, sl_last_seen s)"

lemma engine_score_keys:
  assumes "engine_score env eng i t = Some (scored, eng')"
  shows "map slot_key (map_slots (eng_map eng')) = map slot_key (map_slots (eng_map eng))"
proof -
  have upd: "map slot_key (slots[i := (slots ! i)\<lparr>sl_state := st\<rparr>]) = map slot_key slots" for slots i st
    by (cases "i < length slots") (simp_all add: map_update list_update_same_conv list_update_beyond slot_key_def)
  have "map slot_key (map_slots (eng_map e)) = map slot_key (map_slots (eng_map eng))"
    if "engine_judge eng i st out t = Some e" for st out e
    using that by (auto simp: engine_judge_def Let_def case_prod_beta upd split: option.splits)
  then show ?thesis
    using assms by (auto simp: engine_score_def Let_def split: if_splits option.splits prod.splits)
qed

lemma sweep_scores_keys:
  "sweep_scores env t is eng = Some (eng', rs) \<Longrightarrow>
     map slot_key (map_slots (eng_map eng')) = map slot_key (map_slots (eng_map eng))"
proof (induction "is" arbitrary: eng rs)
  case (Cons i "is")
  then obtain scored e rs' where "engine_score env eng i t = Some (scored, e)"
    "sweep_scores env t is e = Some (eng', rs')"
    by (auto split: option.splits)
  then show ?case using Cons.IH engine_score_keys by metis
qed simp

lemma slot_of_keys:
  assumes "map slot_key xs = map slot_key ys"
  shows "slot_of sl_in_use sl_mac xs m = slot_of sl_in_use sl_mac ys m"
    "i < length ys \<Longrightarrow> sl_last_seen (xs ! i) = sl_last_seen (ys ! i)"
proof -
  have len: "length xs = length ys" using assms by (rule map_eq_imp_length_eq)
  have "slot_key (xs ! j) = slot_key (ys ! j)" if "j < length ys" for j
    using assms that len by (metis nth_map)
  then show "slot_of sl_in_use sl_mac xs m = slot_of sl_in_use sl_mac ys m"
    "i < length ys \<Longrightarrow> sl_last_seen (xs ! i) = sl_last_seen (ys ! i)"
    using len by (auto simp: slot_of_def slot_key_def intro!: find_index_cong)
qed

text \<open>
  A tick keeps exactly the stations heard of within the last 30 seconds. After a tick at a
  given time a station is in the map, in the slot it had, if and only if it was in the map and
  its last record is at most 30000 ms old; the slots of the others are zero again.
\<close>

lemma tick_membership:
  assumes "libm_exp_ok env" "engine_ok eng" "rates_ok eng"
  shows "case engine_tick env ts eng of
      None \<Rightarrow> False
    | Some (eng', rs) \<Rightarrow>
        slot_of sl_in_use sl_mac (map_slots (eng_map eng')) m =
          (case slot_of sl_in_use sl_mac (map_slots (eng_map eng)) m of
             None \<Rightarrow> None
           | Some i \<Rightarrow> if wei_infer_now_ms ts - sl_last_seen (map_slots (eng_map eng) ! i) \<le> 30000
                        then Some i else None) \<and>
        list_all (\<lambda>s. sl_in_use s \<or> s = zero_infer_slot) (map_slots (eng_map eng'))"
proof -
  let ?t = "wei_infer_now_ms ts"
  obtain e rs where e: "sweep_scores env ?t [0..<WEI_TRACK_MAX_CLIENTS] eng = Some (e, rs)" "engine_ok e"
    using sweep_scores_some [OF assms, of "[0..<WEI_TRACK_MAX_CLIENTS]" ?t] by auto
  define e' where "e' = e\<lparr>eng_tracker := wei_track_reap (eng_tracker e) ?t WEI_TRACK_ABSENCE_DEFAULT_MS\<rparr>"
  have e': "engine_ok e'" using e(2) unfolding e'_def by (rule engine_ok_tracker)
  have tick: "engine_tick env ts eng = Some (wei_infer_map_reap e' ?t, rs)"
    using e(1) by (simp add: engine_tick_def e'_def)
  have slots: "map_slots (eng_map (wei_infer_map_reap e' ?t)) =
      map_reap_list (map_slots (eng_map e)) ?t WEI_TRACK_ABSENCE_DEFAULT_MS"
    using map_reap_slots [OF e', of ?t] by (simp add: e'_def)
  have uniq: "unique_keys sl_in_use sl_mac (map_slots (eng_map e))" using e(2) by (simp add: engine_ok_def)
  note keys = slot_of_keys [OF sweep_scores_keys [OF e(1)]]
  have "slot_of sl_in_use sl_mac (map_slots (eng_map (wei_infer_map_reap e' ?t))) m =
      (case slot_of sl_in_use sl_mac (map_slots (eng_map eng)) m of
         None \<Rightarrow> None
       | Some i \<Rightarrow> if ?t - sl_last_seen (map_slots (eng_map eng) ! i) \<le> 30000 then Some i else None)"
    unfolding slots map_tbl.reap_slot_of [OF uniq] keys(1)
    using keys(2) slot_of_SomeD(1) by (fastforce simp: WEI_TRACK_ABSENCE_DEFAULT_MS_def split: option.splits)
  moreover have "list_all (\<lambda>s. sl_in_use s \<or> s = zero_infer_slot) (map_slots (eng_map (wei_infer_map_reap e' ?t)))"
    using map_reap_ok [OF e', of ?t] by (auto simp: engine_ok_def slot_ok_def list_all2_conv_all_nth list_all_length)
  ultimately show ?thesis unfolding tick by simp
qed

theorem tick_scores_then_reports_witness:
  "case wei_infer_create (Some sample_policy) True of
     None \<Rightarrow> False
   | Some eng \<Rightarrow>
       wei_infer_tick exact_env sample_world \<lparr>tv_sec = 5, tv_nsec = 0\<rparr> (Some eng, perf_init, g_weid_bus_init) \<noteq> None"
proof -
  let ?ts = "\<lparr>tv_sec = 5, tv_nsec = 0\<rparr>"
  obtain eng where eng: "wei_infer_create (Some sample_policy) True = Some eng" by (simp add: wei_infer_create_def)
  obtain e rs where e: "engine_tick exact_env ?ts eng = Some (e, rs)"
    using engine_tick_some [OF exact_env_ok create_ok [OF eng sample_policy_ok], of ?ts] by blast
  obtain ps b where "perf_run (map (report_tick sample_world) rs) (perf_init, g_weid_bus_init) = Some (ps, b)"
    using perf_run_total [OF perf_init_ok(1)] by blast
  then show ?thesis
    using tick_scores_then_reports [OF perf_init_ok(1), of exact_env sample_world ?ts eng g_weid_bus_init] eng e
    by simp
qed

end
