(* ===== verification/Report_Publish.thy ===== *)
theory Report_Publish
  imports Bus
begin

text \<open>
  The per-interval record publisher (source/wei_report_publish.c): the enable gate through the
  data-model accessor, the wall-clock stamp, the marshalled fixed-size record and the fire path.
  \<open>sizeof(wei_report_record_t)\<close> depends on the ABI and is an argument, and so is the clock
  reading. A pointer argument is an option.
\<close>

definition wei_report_enabled :: "rfc_store \<Rightarrow> bool" where
  "wei_report_enabled store =
     (case wei_connperf_enable_get store (Some WEI_CONNPERF_DM_ENABLE) (Some zero_raw_data) of
        (rc, d) \<Rightarrow>
          if rc \<noteq> bus_error_success then False
          else (case d of
                  None \<Rightarrow> False
                | Some d \<Rightarrow> if data_type d \<noteq> bus_data_type_boolean then False else raw_b d))"

definition wei_report_stamp_time :: "c_timespec \<Rightarrow> wei_report_record option \<Rightarrow> wei_report_record option" where
  "wei_report_stamp_time ts rec =
     (case rec of
        None \<Rightarrow> None
      | Some r \<Rightarrow> Some (r\<lparr>rr_report_ts_ms := tv_sec ts * 1000 + tv_nsec ts div 1000000\<rparr>))"

definition wei_report_marshal ::
    "nat \<Rightarrow> c_timespec \<Rightarrow> mac option \<Rightarrow> wei_infer_result option \<Rightarrow> wei_report_record option
      \<Rightarrow> raw_data option \<Rightarrow> bus_error \<times> wei_report_record option \<times> raw_data option" where
  "wei_report_marshal sizeof_rec ts client_mac result rec out =
     (case (client_mac, result, rec, out) of
        (Some m, Some res, Some r, Some _) \<Rightarrow>
          let r = r\<lparr>rr_client_mac := m, rr_score := ir_score res, rr_verdict := ir_verdict res\<rparr>;
              r = the (wei_report_stamp_time ts (Some r))
          in (bus_error_success, Some r,
              Some (zero_raw_data\<lparr>data_type := bus_data_type_bytes, raw_bytes := PAYLOAD_REPORT r,
                                  raw_data_len := sizeof_rec\<rparr>))
      | _ \<Rightarrow> (bus_error_invalid_input, rec, out))"

definition wei_report_fire :: "bus_env \<Rightarrow> unit option \<Rightarrow> raw_data option \<Rightarrow> bus_state \<Rightarrow> bus_error \<times> bus_state" where
  "wei_report_fire env handle out b =
     (case (handle, out) of
        (Some _, Some d) \<Rightarrow>
          if \<not> desc_present env then (bus_error_general, b)
          else (case bus_event_publish_fn env of
                  None \<Rightarrow> (bus_error_general, b)
                | Some rc \<Rightarrow>
                    let b = bus_log (CALL_publish WEI_CONNPERF_DM_REPORT_EVENT d rc) b
                    in if rc \<noteq> bus_error_success then (rc, b) else (bus_error_success, b))
      | _ \<Rightarrow> (bus_error_invalid_input, b))"

definition wei_report_should_emit :: "wei_infer_result \<Rightarrow> bool" where
  "wei_report_should_emit result = True"

definition zero_report_record :: wei_report_record where [zero_defs]:
  "zero_report_record =
     \<lparr>rr_client_mac = zero_mac, rr_score = 0, rr_verdict = WEI_INFER_VERDICT_SMOOTH, rr_report_ts_ms = 0\<rparr>"

definition wei_report_publish_tick ::
    "nat \<Rightarrow> c_timespec \<Rightarrow> rfc_store \<Rightarrow> bus_env \<Rightarrow> mac option \<Rightarrow> wei_infer_result option \<Rightarrow> bus_state
      \<Rightarrow> bus_error \<times> bus_state" where
  "wei_report_publish_tick sizeof_rec ts store env client_mac result b =
     (case (client_mac, result) of
        (Some m, Some res) \<Rightarrow>
          if \<not> wei_report_enabled store then (bus_error_success, b)
          else if \<not> wei_report_should_emit res then (bus_error_success, b)
          else (case weid_bus_handle b of
                  None \<Rightarrow> (bus_error_general, b)
                | Some h \<Rightarrow>
                    (case wei_report_marshal sizeof_rec ts (Some m) (Some res) (Some zero_report_record)
                            (Some zero_raw_data) of
                       (rc, _, payload) \<Rightarrow>
                         if rc \<noteq> bus_error_success then (rc, b)
                         else wei_report_fire env (Some h) payload b))
      | _ \<Rightarrow> (bus_error_invalid_input, b))"

section \<open>Properties\<close>

text \<open>
  C33. The record publisher is total and fires at most one event: nothing on a NULL argument, on a
  disabled pillar or without an open handle and a publish function, each with its own return
  code; otherwise exactly one event on the report element, a bytes payload that carries the
  client's key, score, verdict and wall-clock stamp, and the bus's own return code.
\<close>

theorem report_publish_outcome:
  "case wei_report_publish_tick sizeof_rec ts store env m res b of (rc, b') \<Rightarrow>
     (case (m, res) of
        (Some k, Some r) \<Rightarrow>
          if \<not> connperf_enabled store then rc = bus_error_success \<and> b' = b
          else if bus_opened b \<and> desc_present env \<and> bus_event_publish_fn env \<noteq> None
          then rc = the (bus_event_publish_fn env) \<and>
               (\<exists>d. bus_trace b' = bus_trace b @ [CALL_publish WEI_CONNPERF_DM_REPORT_EVENT d rc] \<and>
                    data_type d = bus_data_type_bytes \<and> raw_data_len d = sizeof_rec \<and>
                    raw_bytes d = PAYLOAD_REPORT
                      \<lparr>rr_client_mac = k, rr_score = ir_score r, rr_verdict = ir_verdict r,
                       rr_report_ts_ms = tv_sec ts * 1000 + tv_nsec ts div 1000000\<rparr>)
          else rc = bus_error_general \<and> b' = b
      | _ \<Rightarrow> rc = bus_error_invalid_input \<and> b' = b)"
proof (cases "m = None \<or> res = None")
  case False
  then obtain k r where "m = Some k" "res = Some r" by auto
  moreover have en: "wei_report_enabled store = connperf_enabled store"
    by (simp add: wei_report_enabled_def wei_connperf_enable_get_def weid_rfc_connperf_enabled_def)
  ultimately show ?thesis
    by (cases "bus_opened b")
      (auto simp: wei_report_publish_tick_def wei_report_should_emit_def weid_bus_handle_def
        wei_report_marshal_def wei_report_stamp_time_def wei_report_fire_def zero_report_record_def
        Let_def split: option.splits)
qed (cases m; cases res; auto simp: wei_report_publish_tick_def)

end
