(* ===== verification/Poll.thy ===== *)
theory Poll
  imports Prelude
begin

text \<open>
  The single receive and tick loop (source/wei_poll.c): opening the datagram socket, draining it,
  re-creating it when its path has vanished, the loop itself, retuning, stopping and the role
  dispatch. What the kernel answers is a parameter: the result of each \<open>socket\<close>, \<open>fcntl\<close>,
  \<open>bind\<close>, \<open>stat\<close>, \<open>poll\<close>, \<open>recv\<close> and clock reading is an argument of the operation that
  makes the call, and the calls that matter are recorded in order in a trace the code never
  reads. The two callbacks are state transformers of a user state; \<open>None\<close> is a callback that
  fails, or results that end before the drain loop does.
\<close>

datatype sys_call =
    SYS_socket int
  | SYS_setsockopt int
  | SYS_unlink string
  | SYS_bind int string bool
  | SYS_close int
  | SYS_poll int int
  | SYS_tick int u32

definition SUN_PATH_SIZE :: nat where "SUN_PATH_SIZE = 108"
definition WEI_DGRAM_MAX :: nat where "WEI_DGRAM_MAX = 65535 + 64"
definition WEI_TICK_DEFAULT_MS :: u32 where "WEI_TICK_DEFAULT_MS = 5000"
definition WEI_POLL_ROLE_MAX :: int where "WEI_POLL_ROLE_MAX = 8"

section \<open>The socket\<close>

record sock_env =
  se_socket :: int
  se_fcntl_ok :: bool
  se_bind_ok :: bool

definition wei_sock_open :: "sock_env \<Rightarrow> string option \<Rightarrow> sys_call list \<Rightarrow> int \<times> sys_call list" where
  "wei_sock_open env sock_path tr =
     (case sock_path of
        None \<Rightarrow> (- 1, tr)
      | Some p \<Rightarrow>
          if length p \<ge> SUN_PATH_SIZE then (- 1, tr)
          else
            let fd = se_socket env; tr = tr @ [SYS_socket fd]
            in if fd < 0 then (- 1, tr)
               else if \<not> se_fcntl_ok env then (- 1, tr @ [SYS_close fd])
               else
                 let tr = tr @ [SYS_setsockopt fd, SYS_unlink p,
                                SYS_bind fd (take (SUN_PATH_SIZE - 1) p) (se_bind_ok env)]
                 in if \<not> se_bind_ok env then (- 1, tr @ [SYS_close fd])
                    else (fd, tr))"

record ('e, 't, 's) wei_poll_ctx =
  pc_fd :: int
  tick_ms :: u32
  on_datagram :: "('e \<Rightarrow> u8 list \<Rightarrow> 's \<Rightarrow> 's option) option"
  on_tick :: "('t \<Rightarrow> 's \<Rightarrow> 's option) option"
  pc_sock_path :: string

definition wei_poll_create ::
    "sock_env \<Rightarrow> bool \<Rightarrow> string option \<Rightarrow> ('e \<Rightarrow> u8 list \<Rightarrow> 's \<Rightarrow> 's option) option
      \<Rightarrow> ('t \<Rightarrow> 's \<Rightarrow> 's option) option \<Rightarrow> sys_call list
      \<Rightarrow> ('e, 't, 's) wei_poll_ctx option \<times> sys_call list" where
  "wei_poll_create env calloc_ok sock_path dg tk tr =
     (let (fd, tr) = wei_sock_open env sock_path tr
      in if fd < 0 then (None, tr)
         else if \<not> calloc_ok then (None, tr @ [SYS_close fd])
         else (Some \<lparr>pc_fd = fd, tick_ms = WEI_TICK_DEFAULT_MS, on_datagram = dg, on_tick = tk,
                     pc_sock_path = take (SUN_PATH_SIZE - 1) (the sock_path)\<rparr>, tr))"

text \<open>\<open>stat_sock\<close>: the path exists and is a socket.\<close>

definition wei_poll_revive_socket ::
    "bool \<Rightarrow> sock_env \<Rightarrow> ('e, 't, 's) wei_poll_ctx \<Rightarrow> sys_call list
      \<Rightarrow> int \<times> ('e, 't, 's) wei_poll_ctx \<times> sys_call list" where
  "wei_poll_revive_socket stat_sock env ctx tr =
     (if stat_sock then (0, ctx, tr)
      else
        let (ctx, tr) = (if pc_fd ctx \<ge> 0 then (ctx\<lparr>pc_fd := - 1\<rparr>, tr @ [SYS_close (pc_fd ctx)])
                         else (ctx, tr));
            (fd, tr) = wei_sock_open env (Some (pc_sock_path ctx)) tr
        in if fd < 0 then (- 1, ctx, tr) else (0, ctx\<lparr>pc_fd := fd\<rparr>, tr))"

definition wei_poll_stop :: "('e, 't, 's) wei_poll_ctx option \<Rightarrow> sys_call list \<Rightarrow> sys_call list" where
  "wei_poll_stop ctx tr =
     (case ctx of None \<Rightarrow> tr | Some c \<Rightarrow> if pc_fd c \<ge> 0 then tr @ [SYS_close (pc_fd c)] else tr)"

definition wei_poll_retune ::
    "('e, 't, 's) wei_poll_ctx option \<Rightarrow> u32 \<Rightarrow> int \<times> ('e, 't, 's) wei_poll_ctx option" where
  "wei_poll_retune ctx period_ms =
     (case ctx of
        None \<Rightarrow> (- 1, None)
      | Some c \<Rightarrow> if period_ms = 0 then (- 1, Some c) else (0, Some (c\<lparr>tick_ms := period_ms\<rparr>)))"

section \<open>Draining\<close>

text \<open>One \<open>recv\<close>: a datagram (cut to the buffer), an interrupted call, or another error.\<close>

datatype 'e recv_result = RECV "u8 list" 'e | RECV_EINTR | RECV_FAIL

fun wei_sock_drain :: "('e, 't, 's) wei_poll_ctx \<Rightarrow> 'e recv_result list \<Rightarrow> 's \<Rightarrow> 's option" where
  "wei_sock_drain ctx [] s = None"
| "wei_sock_drain ctx (RECV_EINTR # rs) s = wei_sock_drain ctx rs s"
| "wei_sock_drain ctx (RECV_FAIL # rs) s = Some s"
| "wei_sock_drain ctx (RECV d e # rs) s =
     (let buf = take WEI_DGRAM_MAX d
      in if length buf > 0 \<and> on_datagram ctx \<noteq> None
         then (case (the (on_datagram ctx)) e buf s of
                 None \<Rightarrow> None
               | Some s \<Rightarrow> wei_sock_drain ctx rs s)
         else wei_sock_drain ctx rs s)"

section \<open>The loop\<close>

datatype poll_result = POLL_EINTR | POLL_FAIL | POLL_DONE bool bool
  \<comment> \<open>the revents: any of the error flags, readable\<close>

record ('e, 't) poll_event =
  ev_now :: c_timespec
  ev_poll :: poll_result
  ev_recv :: "'e recv_result list"
  ev_after :: c_timespec
  ev_stat :: bool
  ev_sock :: sock_env
  ev_tick :: 't

text \<open>The clock of the loop, in milliseconds; \<open>clock_gettime\<close> is the argument.\<close>

definition wei_now_ms :: "c_timespec \<Rightarrow> int" where
  "wei_now_ms ts = tv_sec ts * 1000 + tv_nsec ts div 1000000"

text \<open>A reading of a given number of milliseconds.\<close>

definition at_ms :: "int \<Rightarrow> c_timespec" where
  "at_ms n = \<lparr>tv_sec = n div 1000, tv_nsec = 1000000 * (n mod 1000)\<rparr>"

lemma at_ms [simp]: "wei_now_ms (at_ms n) = n"
  by (simp add: wei_now_ms_def at_ms_def)

text \<open>The timeout handed to \<open>poll\<close>: the wait, cut at zero, cast to \<open>int\<close>.\<close>

definition poll_timeout :: "int \<Rightarrow> int \<Rightarrow> int" where
  "poll_timeout next_tick now =
     (let wait = next_tick - now; wait = (if wait < 0 then 0 else wait)
      in to_i32 (word_of_int wait))"

record ('e, 't, 's) loop_state =
  ls_ctx :: "('e, 't, 's) wei_poll_ctx"
  ls_next_tick :: int
  ls_user :: 's
  ls_trace :: "sys_call list"

datatype 'a loop_outcome = LOOP_RUNNING 'a | LOOP_RETURNED 'a

text \<open>The tail of one iteration: when the deadline has passed, revive, tick, rearm.\<close>

definition poll_deadline ::
    "('e, 't) poll_event \<Rightarrow> ('e, 't, 's) loop_state \<Rightarrow> ('e, 't, 's) loop_state option" where
  "poll_deadline ev st =
     (let now = wei_now_ms (ev_after ev)
      in if now \<ge> ls_next_tick st
         then let (rc, ctx, tr) = wei_poll_revive_socket (ev_stat ev) (ev_sock ev) (ls_ctx st) (ls_trace st)
              in case (case on_tick ctx of None \<Rightarrow> Some (ls_user st) | Some f \<Rightarrow> f (ev_tick ev) (ls_user st)) of
                   None \<Rightarrow> None
                 | Some s \<Rightarrow> Some \<lparr>ls_ctx = ctx, ls_next_tick = now + uint (tick_ms ctx), ls_user = s,
                                  ls_trace = tr @ [SYS_tick now (tick_ms ctx)]\<rparr>
         else Some st)"

definition poll_iter ::
    "('e, 't) poll_event \<Rightarrow> ('e, 't, 's) loop_state \<Rightarrow> ('e, 't, 's) loop_state loop_outcome option" where
  "poll_iter ev st =
     (let st = st\<lparr>ls_trace := ls_trace st @
                   [SYS_poll (pc_fd (ls_ctx st)) (poll_timeout (ls_next_tick st) (wei_now_ms (ev_now ev)))]\<rparr>
      in case ev_poll ev of
           POLL_EINTR \<Rightarrow> Some (LOOP_RUNNING st)
         | POLL_FAIL \<Rightarrow> Some (LOOP_RETURNED st)
         | POLL_DONE err readable \<Rightarrow>
             if err then Some (LOOP_RETURNED st)
             else (case (if readable then wei_sock_drain (ls_ctx st) (ev_recv ev) (ls_user st)
                         else Some (ls_user st)) of
                     None \<Rightarrow> None
                   | Some s \<Rightarrow> map_option LOOP_RUNNING (poll_deadline ev (st\<lparr>ls_user := s\<rparr>))))"

text \<open>
  The run: iterations, with retunes arriving between them. It is \<open>LOOP_RUNNING\<close> while the loop
  has not returned, which is all it does when nothing fails.
\<close>

datatype ('e, 't) loop_input = ITER "('e, 't) poll_event" | RETUNE u32

fun poll_loop ::
    "('e, 't) loop_input list \<Rightarrow> ('e, 't, 's) loop_state \<Rightarrow> ('e, 't, 's) loop_state loop_outcome option" where
  "poll_loop [] st = Some (LOOP_RUNNING st)"
| "poll_loop (RETUNE p # is) st =
     poll_loop is (st\<lparr>ls_ctx := the (snd (wei_poll_retune (Some (ls_ctx st)) p))\<rparr>)"
| "poll_loop (ITER ev # is) st =
     (case poll_iter ev st of
        None \<Rightarrow> None
      | Some (LOOP_RETURNED st) \<Rightarrow> Some (LOOP_RETURNED st)
      | Some (LOOP_RUNNING st) \<Rightarrow> poll_loop is st)"

definition wei_poll_run ::
    "c_timespec \<Rightarrow> ('e, 't) loop_input list \<Rightarrow> ('e, 't, 's) wei_poll_ctx \<Rightarrow> 's \<Rightarrow> sys_call list
      \<Rightarrow> ('e, 't, 's) loop_state loop_outcome option" where
  "wei_poll_run start is ctx s tr =
     poll_loop is \<lparr>ls_ctx = ctx, ls_next_tick = wei_now_ms start + uint (tick_ms ctx), ls_user = s, ls_trace = tr\<rparr>"

text \<open>The C entry point, whose context may be NULL.\<close>

definition wei_poll_run_ptr ::
    "c_timespec \<Rightarrow> ('e, 't) loop_input list \<Rightarrow> ('e, 't, 's) wei_poll_ctx option \<Rightarrow> 's \<Rightarrow> sys_call list
      \<Rightarrow> ('e, 't, 's) loop_state loop_outcome option option" where
  "wei_poll_run_ptr start is ctx s tr =
     (case ctx of None \<Rightarrow> Some None | Some c \<Rightarrow> map_option Some (wei_poll_run start is c s tr))"

section \<open>Role dispatch\<close>

record ('b, 's) wei_poll_dispatch_t =
  role_of :: "('b \<Rightarrow> 's \<Rightarrow> int \<times> 's) option"
  handler :: "('b \<Rightarrow> 's \<Rightarrow> 's) option list"

text \<open>\<open>handler\<close> has \<open>WEI_POLL_ROLE_MAX\<close> entries; \<open>None\<close> is an index outside it.\<close>

definition wei_poll_dispatch :: "('b, 's) wei_poll_dispatch_t option \<Rightarrow> 'b \<Rightarrow> 's \<Rightarrow> 's option" where
  "wei_poll_dispatch d buf s =
     (case d of
        None \<Rightarrow> Some s
      | Some d \<Rightarrow>
          (case role_of d of
             None \<Rightarrow> Some s
           | Some f \<Rightarrow>
               let (role, s) = f buf s
               in if role < 0 \<or> role \<ge> WEI_POLL_ROLE_MAX then Some s
                  else if nat role \<ge> length (handler d) then None
                  else case handler d ! nat role of
                         None \<Rightarrow> Some s
                       | Some h \<Rightarrow> Some (h buf s)))"

section \<open>Descriptors held\<close>

definition fds_step :: "int list \<Rightarrow> sys_call \<Rightarrow> int list" where
  "fds_step fds c =
     (case c of SYS_socket fd \<Rightarrow> if fd < 0 then fds else fds @ [fd]
      | SYS_close fd \<Rightarrow> remove1 fd fds | _ \<Rightarrow> fds)"

definition fds_open :: "sys_call list \<Rightarrow> int list" where
  "fds_open tr = foldl fds_step [] tr"

lemma fds_open_simps [simp]:
  "fds_open [] = []" "fds_open (tr @ cs) = foldl fds_step (fds_open tr) cs"
  by (simp_all add: fds_open_def)

definition holds_only :: "int \<Rightarrow> sys_call list \<Rightarrow> bool" where
  "holds_only fd tr \<longleftrightarrow> fds_open tr = (if fd < 0 then [] else [fd])"

lemma sock_open_holds:
  "fds_open tr = [] \<Longrightarrow> holds_only (fst (wei_sock_open env p tr)) (snd (wei_sock_open env p tr))"
  by (auto simp: wei_sock_open_def holds_only_def fds_step_def Let_def split: option.splits)

lemma revive_holds [wei_inv]:
  assumes "holds_only (pc_fd ctx) tr"
    and "wei_poll_revive_socket stat env ctx tr = (rc, ctx', tr')"
  shows "holds_only (pc_fd ctx') tr'"
  using assms sock_open_holds [of "tr @ [SYS_close (pc_fd ctx)]" env "Some (pc_sock_path ctx)"]
    sock_open_holds [of tr env "Some (pc_sock_path ctx)"]
  by (auto simp: wei_poll_revive_socket_def Let_def holds_only_def fds_step_def split: if_splits prod.splits)

lemma revive_frame:
  assumes "wei_poll_revive_socket stat env ctx tr = (rc, ctx', tr')"
  shows "tick_ms ctx' = tick_ms ctx" "on_tick ctx' = on_tick ctx" "on_datagram ctx' = on_datagram ctx"
    "pc_sock_path ctx' = pc_sock_path ctx"
  using assms by (auto simp: wei_poll_revive_socket_def Let_def split: if_splits prod.splits)

section \<open>The tick schedule\<close>

fun tick_times :: "sys_call list \<Rightarrow> (int \<times> u32) list" where
  "tick_times [] = []"
| "tick_times (SYS_tick t p # cs) = (t, p) # tick_times cs"
| "tick_times (_ # cs) = tick_times cs"

lemma tick_times_append [simp]: "tick_times (cs @ ds) = tick_times cs @ tick_times ds"
  by (induction cs rule: tick_times.induct) auto

text \<open>
  The timer as its users see it, with no socket and no datagram: the deadline, the period, and
  the clock read at the end of each wait. A tick fires at the first reading at or past the
  deadline, and the next deadline is one current period after that reading.
\<close>

fun tick_schedule :: "int \<Rightarrow> u32 \<Rightarrow> ('e, 't) loop_input list \<Rightarrow> (int \<times> u32) list" where
  "tick_schedule d p [] = []"
| "tick_schedule d p (RETUNE q # is) = tick_schedule d (if q = 0 then p else q) is"
| "tick_schedule d p (ITER ev # is) =
     (case ev_poll ev of
        POLL_EINTR \<Rightarrow> tick_schedule d p is
      | POLL_FAIL \<Rightarrow> []
      | POLL_DONE err r \<Rightarrow>
          if err then []
          else if wei_now_ms (ev_after ev) \<ge> d then (wei_now_ms (ev_after ev), p) # tick_schedule (wei_now_ms (ev_after ev) + uint p) p is
          else tick_schedule d p is)"

fun spaced :: "int \<Rightarrow> (int \<times> u32) list \<Rightarrow> bool" where
  "spaced d [] = True"
| "spaced d ((t, p) # ts) = (t \<ge> d \<and> spaced (t + uint p) ts)"

lemma schedule_spaced: "spaced d (tick_schedule d p is)"
  by (induction d p "is" rule: tick_schedule.induct) (auto split: poll_result.splits)

lemma sock_open_ticks: "wei_sock_open env p tr = (fd, tr') \<Longrightarrow> tick_times tr' = tick_times tr"
  by (auto simp: wei_sock_open_def Let_def split: option.splits if_splits)

lemma revive_ticks:
  "wei_poll_revive_socket stat env ctx tr = (rc, ctx', tr') \<Longrightarrow> tick_times tr' = tick_times tr"
  by (auto simp: wei_poll_revive_socket_def Let_def split: if_splits prod.splits dest: sock_open_ticks)

section \<open>The contract between the loop and its callbacks\<close>

text \<open>
  What the loop relies on: each callback, on a state it keeps, returns and keeps it; a datagram
  never exceeds the receive buffer.
\<close>

locale poll_client =
  fixes ok :: "'s \<Rightarrow> bool" and e_ok :: "'e \<Rightarrow> u8 list \<Rightarrow> bool" and t_ok :: "'t \<Rightarrow> bool"
    and dg :: "'e \<Rightarrow> u8 list \<Rightarrow> 's \<Rightarrow> 's option" and tk :: "'t \<Rightarrow> 's \<Rightarrow> 's option"
  assumes dg_step: "ok s \<Longrightarrow> e_ok e buf \<Longrightarrow> length buf \<le> WEI_DGRAM_MAX \<Longrightarrow> \<exists>s'. dg e buf s = Some s' \<and> ok s'"
    and tk_step: "ok s \<Longrightarrow> t_ok t \<Longrightarrow> \<exists>s'. tk t s = Some s' \<and> ok s'"
begin

definition recv_ok :: "'e recv_result list \<Rightarrow> bool" where
  "recv_ok rs \<longleftrightarrow> RECV_FAIL \<in> set rs \<and> (\<forall>d e. RECV d e \<in> set rs \<longrightarrow> e_ok e (take WEI_DGRAM_MAX d))"

definition event_ok :: "('e, 't) loop_input \<Rightarrow> bool" where
  "event_ok i = (case i of RETUNE p \<Rightarrow> True | ITER ev \<Rightarrow> recv_ok (ev_recv ev) \<and> t_ok (ev_tick ev))"

definition bound_to :: "('e, 't, 's) wei_poll_ctx \<Rightarrow> bool" where
  "bound_to ctx \<longleftrightarrow> (on_datagram ctx = None \<or> on_datagram ctx = Some dg) \<and>
     (on_tick ctx = None \<or> on_tick ctx = Some tk)"

definition loop_inv :: "('e, 't, 's) loop_state \<Rightarrow> bool" where
  "loop_inv st \<longleftrightarrow> bound_to (ls_ctx st) \<and> holds_only (pc_fd (ls_ctx st)) (ls_trace st) \<and> ok (ls_user st)"

lemma drain_total:
  "bound_to ctx \<Longrightarrow> recv_ok rs \<Longrightarrow> ok s \<Longrightarrow> \<exists>s'. wei_sock_drain ctx rs s = Some s' \<and> ok s'"
proof (induction ctx rs s rule: wei_sock_drain.induct)
  case (4 ctx d e rs s)
  have rs: "recv_ok rs" and e: "e_ok e (take WEI_DGRAM_MAX d)" using "4.prems" by (auto simp: recv_ok_def)
  obtain s' where "dg e (take WEI_DGRAM_MAX d) s = Some s'" "ok s'"
    using dg_step [of s e "take WEI_DGRAM_MAX d"] e "4.prems" by auto
  then show ?case
    using "4.IH"(1) [OF refl _ _ _ rs, of s'] "4.IH"(2) [OF refl _ _ rs] "4.prems"
    by (auto simp: Let_def bound_to_def)
qed (auto simp: recv_ok_def)

lemma deadline_total:
  assumes "loop_inv st" "t_ok (ev_tick ev)"
  shows "\<exists>st'. poll_deadline ev st = Some st' \<and> loop_inv st' \<and> tick_ms (ls_ctx st') = tick_ms (ls_ctx st) \<and>
    ls_next_tick st' = (if wei_now_ms (ev_after ev) \<ge> ls_next_tick st then wei_now_ms (ev_after ev) + uint (tick_ms (ls_ctx st))
                        else ls_next_tick st) \<and>
    tick_times (ls_trace st') = tick_times (ls_trace st) @
      (if wei_now_ms (ev_after ev) \<ge> ls_next_tick st then [(wei_now_ms (ev_after ev), tick_ms (ls_ctx st))] else [])"
proof -
  obtain rc ctx tr where r: "wei_poll_revive_socket (ev_stat ev) (ev_sock ev) (ls_ctx st) (ls_trace st) = (rc, ctx, tr)"
    by (metis prod_cases3)
  have ctx: "holds_only (pc_fd ctx) tr" "tick_times tr = tick_times (ls_trace st)"
    using assms(1) revive_holds [OF _ r] revive_ticks [OF r] by (simp_all add: loop_inv_def)
  have "on_tick ctx = None \<or> on_tick ctx = Some tk" "bound_to ctx"
    using assms(1) revive_frame [OF r] by (simp_all add: loop_inv_def bound_to_def)
  moreover obtain s' where "tk (ev_tick ev) (ls_user st) = Some s'" "ok s'"
    using tk_step assms by (auto simp: loop_inv_def)
  ultimately show ?thesis
    using assms(1) r ctx revive_frame(1) [OF r]
    by (auto simp: poll_deadline_def Let_def loop_inv_def holds_only_def fds_step_def)
qed

lemma loop_contract:
  assumes "loop_inv st" "list_all event_ok is"
  shows "\<exists>out st'. poll_loop is st = Some out \<and> out \<in> {LOOP_RUNNING st', LOOP_RETURNED st'} \<and> loop_inv st' \<and>
    tick_times (ls_trace st') =
      tick_times (ls_trace st) @ tick_schedule (ls_next_tick st) (tick_ms (ls_ctx st)) is"
  using assms
proof (induction "is" arbitrary: st)
  case (Cons i "is")
  show ?case
  proof (cases i)
    case (RETUNE p)
    let ?st = "st\<lparr>ls_ctx := the (snd (wei_poll_retune (Some (ls_ctx st)) p))\<rparr>"
    have "loop_inv ?st" "ls_trace ?st = ls_trace st" "ls_next_tick ?st = ls_next_tick st"
      "tick_ms (ls_ctx ?st) = (if p = 0 then tick_ms (ls_ctx st) else p)"
      using Cons.prems(1) by (auto simp: loop_inv_def bound_to_def wei_poll_retune_def)
    then show ?thesis using Cons.IH [of ?st] Cons.prems(2) RETUNE by simp
  next
    case (ITER ev)
    let ?st = "st\<lparr>ls_trace := ls_trace st @ [SYS_poll (pc_fd (ls_ctx st)) (poll_timeout (ls_next_tick st) (wei_now_ms (ev_now ev)))]\<rparr>"
    have st: "loop_inv ?st" "tick_times (ls_trace ?st) = tick_times (ls_trace st)"
      using Cons.prems(1) by (auto simp: loop_inv_def holds_only_def fds_step_def)
    show ?thesis
    proof (cases "ev_poll ev")
      case POLL_EINTR
      then show ?thesis using st Cons.IH [of ?st] Cons.prems(2) ITER by (simp add: poll_iter_def Let_def)
    next
      case POLL_FAIL
      then show ?thesis using st ITER by (auto simp: poll_iter_def Let_def intro!: exI [of _ ?st])
    next
      case (POLL_DONE err r)
      show ?thesis
      proof (cases err)
        case True
        then show ?thesis using st ITER POLL_DONE by (auto simp: poll_iter_def Let_def intro!: exI [of _ ?st])
      next
        case False
        obtain s where s: "(if r then wei_sock_drain (ls_ctx st) (ev_recv ev) (ls_user st) else Some (ls_user st)) = Some s" "ok s"
          using drain_total [of "ls_ctx st" "ev_recv ev" "ls_user st"] Cons.prems ITER
          by (cases r) (auto simp: loop_inv_def event_ok_def)
        have "loop_inv (?st\<lparr>ls_user := s\<rparr>)" using st(1) s(2) by (simp add: loop_inv_def)
        then obtain st2 where st2: "poll_deadline ev (?st\<lparr>ls_user := s\<rparr>) = Some st2" "loop_inv st2"
          "tick_ms (ls_ctx st2) = tick_ms (ls_ctx st)"
          "ls_next_tick st2 = (if wei_now_ms (ev_after ev) \<ge> ls_next_tick st then wei_now_ms (ev_after ev) + uint (tick_ms (ls_ctx st))
             else ls_next_tick st)"
          "tick_times (ls_trace st2) = tick_times (ls_trace st) @
             (if wei_now_ms (ev_after ev) \<ge> ls_next_tick st then [(wei_now_ms (ev_after ev), tick_ms (ls_ctx st))] else [])"
          using deadline_total [of "?st\<lparr>ls_user := s\<rparr>" ev] Cons.prems(2) ITER st(2)
          by (auto simp: event_ok_def)
        have "poll_iter ev st = Some (LOOP_RUNNING st2)"
          using s(1) st2(1) POLL_DONE False by (cases r; cases st) (simp_all add: poll_iter_def Let_def)
        then show ?thesis
          using Cons.IH [OF st2(2)] Cons.prems(2) ITER POLL_DONE False st2(3-5) by auto
      qed
    qed
  qed
qed auto

lemma iter_contract:
  assumes "loop_inv st" "event_ok (ITER ev)"
  shows "\<exists>out st'. poll_iter ev st = Some out \<and> out \<in> {LOOP_RUNNING st', LOOP_RETURNED st'} \<and> loop_inv st'"
proof -
  obtain out st' where "poll_loop [ITER ev] st = Some out" "out \<in> {LOOP_RUNNING st', LOOP_RETURNED st'}" "loop_inv st'"
    using loop_contract [OF assms(1), of "[ITER ev]"] assms(2) by auto
  then show ?thesis by (auto split: option.splits loop_outcome.splits)
qed

lemma run_contract:
  assumes "bound_to ctx" "holds_only (pc_fd ctx) tr" "ok s" "list_all event_ok is" "tick_times tr = []"
  shows "\<exists>out st'. wei_poll_run start is ctx s tr = Some out \<and> out \<in> {LOOP_RUNNING st', LOOP_RETURNED st'} \<and>
    loop_inv st' \<and> tick_times (ls_trace st') = tick_schedule (wei_now_ms start + uint (tick_ms ctx)) (tick_ms ctx) is"
  using loop_contract [of "\<lparr>ls_ctx = ctx, ls_next_tick = wei_now_ms start + uint (tick_ms ctx), ls_user = s, ls_trace = tr\<rparr>" "is"] assms
  by (simp add: wei_poll_run_def loop_inv_def)

end

section \<open>Properties\<close>

lemma poll_create_holds:
  assumes "wei_poll_create env calloc_ok path dg tk [] = (ctx, tr)"
  shows "case ctx of None \<Rightarrow> fds_open tr = []
    | Some c \<Rightarrow> holds_only (pc_fd c) tr \<and> 0 \<le> pc_fd c \<and> tick_times tr = [] \<and> tick_ms c = WEI_TICK_DEFAULT_MS \<and>
        on_datagram c = dg \<and> on_tick c = tk"
proof -
  obtain fd tr0 where o: "wei_sock_open env path [] = (fd, tr0)" by (metis surj_pair)
  then have "holds_only fd tr0" "tick_times tr0 = []"
    using sock_open_holds [of "[]" env path] sock_open_ticks [OF o] by simp_all
  then show ?thesis using assms o
    by (auto simp: wei_poll_create_def holds_only_def fds_step_def split: if_splits)
qed

lemma stop_releases: "holds_only (pc_fd ctx) tr \<Longrightarrow> fds_open (wei_poll_stop (Some ctx) tr) = []"
  by (auto simp: wei_poll_stop_def holds_only_def fds_step_def)

text \<open>
  C18. From a successful creation, for any sequence of kernel answers and retunes and any callbacks
  that return, the loop is never stuck (every drain ends at the first error, as a non-blocking
  socket gives on an empty queue); at every point it holds exactly the descriptor in its context
  and leaks none when it re-creates the socket; stopping it leaves none open; and its ticks are
  exactly those of the plain timer, whatever the socket did: the first at or after one period,
  each next one at least the then-current period after the last.
\<close>

theorem poll_run_contract:
  assumes "wei_poll_create env True path dg tk [] = (Some ctx, tr)"
    and "\<forall>f e buf s. dg = Some f \<longrightarrow> f e buf s \<noteq> None"
    and "\<forall>f t s. tk = Some f \<longrightarrow> f t s \<noteq> None"
    and "\<forall>ev. ITER ev \<in> set is \<longrightarrow> RECV_FAIL \<in> set (ev_recv ev)"
  shows "\<exists>out st. wei_poll_run start is ctx s tr = Some out \<and> out \<in> {LOOP_RUNNING st, LOOP_RETURNED st} \<and>
    holds_only (pc_fd (ls_ctx st)) (ls_trace st) \<and>
    fds_open (wei_poll_stop (Some (ls_ctx st)) (ls_trace st)) = [] \<and>
    tick_times (ls_trace st) = tick_schedule (wei_now_ms start + 5000) WEI_TICK_DEFAULT_MS is \<and>
    spaced (wei_now_ms start + 5000) (tick_times (ls_trace st))"
proof -
  define dg' where "dg' = (case dg of None \<Rightarrow> \<lambda>e buf s. Some s | Some f \<Rightarrow> f)"
  define tk' where "tk' = (case tk of None \<Rightarrow> \<lambda>t s. Some s | Some f \<Rightarrow> f)"
  have dg_total: "\<exists>s'. dg' e buf s = Some s'" and tk_total: "\<exists>s'. tk' t s = Some s'" for e buf t s
    using assms(2,3) by (auto simp: dg'_def tk'_def split: option.splits)
  have client: "poll_client (\<lambda>s. True) (\<lambda>e buf. True) (\<lambda>t. True) dg' tk'"
    by unfold_locales (use dg_total tk_total in auto)
  have c: "holds_only (pc_fd ctx) tr" "tick_times tr = []" "tick_ms ctx = WEI_TICK_DEFAULT_MS"
    "on_datagram ctx = dg" "on_tick ctx = tk"
    using poll_create_holds [OF assms(1)] by simp_all
  have bound: "poll_client.bound_to dg' tk' ctx"
    unfolding poll_client.bound_to_def [OF client]
    using c(4,5) by (auto simp: dg'_def tk'_def split: option.splits)
  have events: "list_all (poll_client.event_ok (\<lambda>e buf. True) (\<lambda>t. True)) is"
    using assms(4) by (auto simp: list_all_iff poll_client.event_ok_def [OF client] poll_client.recv_ok_def [OF client]
      split: loop_input.splits)
  obtain out st where out: "wei_poll_run start is ctx s tr = Some out" "out \<in> {LOOP_RUNNING st, LOOP_RETURNED st}"
    "poll_client.loop_inv (\<lambda>s. True) dg' tk' st"
    "tick_times (ls_trace st) = tick_schedule (wei_now_ms start + 5000) WEI_TICK_DEFAULT_MS is"
    using poll_client.run_contract [OF client bound c(1) TrueI events c(2), where start = start and s = s]
    by (simp add: c(3) WEI_TICK_DEFAULT_MS_def) blast
  have "holds_only (pc_fd (ls_ctx st)) (ls_trace st)"
    using out(3) by (simp add: poll_client.loop_inv_def [OF client])
  then show ?thesis using out(1,2,4) stop_releases schedule_spaced by fastforce
qed

text \<open>
  A run in which a stop signal interrupts the wait, two frames arrive (one empty), the path
  vanishes and the socket is re-created, the period is retuned, and the second tick fires.
\<close>

definition sample_sock :: "int \<Rightarrow> sock_env" where
  "sample_sock fd = \<lparr>se_socket = fd, se_fcntl_ok = True, se_bind_ok = True\<rparr>"

definition sample_event :: "int \<Rightarrow> poll_result \<Rightarrow> unit recv_result list \<Rightarrow> int \<Rightarrow> bool \<Rightarrow> (unit, unit) poll_event" where
  "sample_event now r rs after stat =
     \<lparr>ev_now = at_ms now, ev_poll = r, ev_recv = rs, ev_after = at_ms after, ev_stat = stat, ev_sock = sample_sock 4, ev_tick = ()\<rparr>"

definition sample_inputs :: "(unit, unit) loop_input list" where
  "sample_inputs =
     [ITER (sample_event 0 POLL_EINTR [RECV_FAIL] 0 True),
      ITER (sample_event 10 (POLL_DONE False True) [RECV [1, 2] (), RECV_EINTR, RECV [] (), RECV_FAIL] 20 True),
      ITER (sample_event 20 (POLL_DONE False False) [RECV_FAIL] 5001 False),
      RETUNE 100,
      ITER (sample_event 5001 (POLL_DONE False False) [RECV_FAIL] 10001 True)]"

definition sample_dg :: "unit \<Rightarrow> u8 list \<Rightarrow> nat \<Rightarrow> nat option" where
  "sample_dg e buf n = Some (n + length buf)"

definition sample_tk :: "unit \<Rightarrow> nat \<Rightarrow> nat option" where "sample_tk t n = Some (10 * n)"

theorem poll_run_contract_witness:
  "\<exists>out st. wei_poll_run (at_ms 0) sample_inputs
      (the (fst (wei_poll_create (sample_sock 3) True (Some ''/tmp/s'') (Some sample_dg) (Some sample_tk) [])))
      0 (snd (wei_poll_create (sample_sock 3) True (Some ''/tmp/s'') (Some sample_dg) (Some sample_tk) [])) = Some out \<and>
    out \<in> {LOOP_RUNNING st, LOOP_RETURNED st} \<and> pc_fd (ls_ctx st) = 4 \<and>
    tick_times (ls_trace st) = [(5001, 5000), (10001, 100)]"
proof -
  let ?p = "wei_poll_create (sample_sock 3) True (Some ''/tmp/s'') (Some sample_dg) (Some sample_tk) []"
  have create: "?p = (Some (the (fst ?p)), snd ?p)"
    by (simp add: wei_poll_create_def wei_sock_open_def sample_sock_def SUN_PATH_SIZE_def)
  have schedule: "tick_schedule (wei_now_ms (at_ms 0) + 5000) WEI_TICK_DEFAULT_MS sample_inputs = [(5001, 5000), (10001, 100)]"
    by (simp add: sample_inputs_def sample_event_def WEI_TICK_DEFAULT_MS_def)
  have dry: "\<forall>ev. ITER ev \<in> set sample_inputs \<longrightarrow> RECV_FAIL \<in> set (ev_recv ev)"
    by (simp add: sample_inputs_def sample_event_def)
  obtain out st where o: "wei_poll_run (at_ms 0) sample_inputs (the (fst ?p)) 0 (snd ?p) = Some out"
    "out \<in> {LOOP_RUNNING st, LOOP_RETURNED st}" "tick_times (ls_trace st) = [(5001, 5000), (10001, 100)]"
    using poll_run_contract [OF create _ _ dry, of "at_ms 0" 0] unfolding schedule
    by (auto simp: sample_dg_def sample_tk_def)
  have run: "wei_poll_run (at_ms 0) sample_inputs (the (fst ?p)) 0 (snd ?p) = Some (LOOP_RUNNING st) \<or>
      wei_poll_run (at_ms 0) sample_inputs (the (fst ?p)) 0 (snd ?p) = Some (LOOP_RETURNED st)" using o by auto
  have "pc_fd (ls_ctx st) = 4"
    using run
    by (auto simp: wei_poll_run_def wei_poll_create_def wei_sock_open_def sample_sock_def SUN_PATH_SIZE_def
      sample_inputs_def sample_event_def WEI_TICK_DEFAULT_MS_def poll_iter_def poll_deadline_def Let_def
      wei_poll_revive_socket_def sample_dg_def sample_tk_def WEI_DGRAM_MAX_def wei_poll_retune_def)
  then show ?thesis using o by auto
qed

text \<open>
  C35. The wait handed to the kernel is exactly the time left, cut at zero, whenever it fits an
  \<open>int\<close>, so a wait that runs to its timeout always reaches the deadline; but \<open>wei_poll_retune\<close>
  accepts any non-zero period, and from \<open>2 ^ 31\<close> milliseconds on the wait is negative, which
  \<open>poll\<close> takes as no timeout at all.
\<close>

theorem poll_wait:
  "(next_tick - now < 2 ^ 31 \<longrightarrow> poll_timeout next_tick now = max 0 (next_tick - now) \<and>
      next_tick \<le> now + poll_timeout next_tick now) \<and>
   (2 ^ 31 \<le> uint p \<longrightarrow> wei_poll_retune (Some ctx) p = (0, Some (ctx\<lparr>tick_ms := p\<rparr>)) \<and>
      poll_timeout (now + uint p) now < 0)"
proof (intro conjI impI)
  assume a: "next_tick - now < 2 ^ 31"
  have "uint (word_of_int (max 0 (next_tick - now)) :: u32) = max 0 (next_tick - now)"
    using a by (simp add: uint_word_of_int take_bit_int_eq_self)
  then show "poll_timeout next_tick now = max 0 (next_tick - now)"
    using a by (auto simp: poll_timeout_def Let_def to_i32_def max_def)
  then show "next_tick \<le> now + poll_timeout next_tick now" by simp
next
  assume p: "2 ^ 31 \<le> uint p"
  then have "p \<noteq> 0" by auto
  then show "wei_poll_retune (Some ctx) p = (0, Some (ctx\<lparr>tick_ms := p\<rparr>))"
    by (simp add: wei_poll_retune_def)
  show "poll_timeout (now + uint p) now < 0"
    using p uint_bounded [of p] by (simp add: poll_timeout_def to_i32_def)
qed

theorem poll_wait_witness:
  "poll_timeout 5000 12 = 4988 \<and> poll_timeout 12 5000 = 0 \<and> poll_timeout (2 ^ 31) 0 < 0"
  using poll_wait [of 5000 12 0] poll_wait [of 12 5000 0] poll_wait [of 0 0 "2 ^ 31" "undefined :: (unit, unit, unit) wei_poll_ctx"]
  by simp

end
