(* ===== verification/Wire.thy ===== *)
theory Wire
  imports Infer Poll
begin

text \<open>
  The wire binding of the daemon (source/weid_wire.c, include/weid_receiver.h): the TLV header,
  the checks on a datagram, the mapping of a raw station entry into a metric record, the
  datagram and tick callbacks, and the set-up and tear-down of the pipeline. The station entry
  \<open>stats_arg_t\<close> is declared outside the repository (run_qmgr.h): its size and the reading of its
  fields out of bytes are the parameter \<open>wire_layout\<close>, and the record \<open>stats_arg\<close> holds the
  fields this code reads, as mathematical integers before the casts the code writes. Bytes are
  read through a bounds-checked reader: \<open>None\<close> is a read past the received bytes.
\<close>

section \<open>The wire contract\<close>

definition LQ_STATS_SOCKET_PATH :: string where
  "LQ_STATS_SOCKET_PATH = ''/tmp/linkquality_stats.sock''"

definition LQ_IPC_WIRE_VERSION :: u8 where "LQ_IPC_WIRE_VERSION = 1"

datatype lq_ipc_msg =
    LQ_IPC_MSG_PERIODIC_STATS | LQ_IPC_MSG_DISCONNECT | LQ_IPC_MSG_RAPID_DISCONNECT
  | LQ_IPC_MSG_CAFFINITY_EVENT | LQ_IPC_MSG_START_METRICS | LQ_IPC_MSG_STOP_METRICS
  | LQ_IPC_MSG_REGISTER_STA | LQ_IPC_MSG_UNREGISTER_STA | LQ_IPC_MSG_REINIT_METRICS
  | LQ_IPC_MSG_SET_MAX_SNR | LQ_IPC_MSG_SET_SCORE_PARAMS

fun lq_ipc_msg_val :: "lq_ipc_msg \<Rightarrow> u8" where
  "lq_ipc_msg_val LQ_IPC_MSG_PERIODIC_STATS = 1"
| "lq_ipc_msg_val LQ_IPC_MSG_DISCONNECT = 2"
| "lq_ipc_msg_val LQ_IPC_MSG_RAPID_DISCONNECT = 3"
| "lq_ipc_msg_val LQ_IPC_MSG_CAFFINITY_EVENT = 4"
| "lq_ipc_msg_val LQ_IPC_MSG_START_METRICS = 5"
| "lq_ipc_msg_val LQ_IPC_MSG_STOP_METRICS = 6"
| "lq_ipc_msg_val LQ_IPC_MSG_REGISTER_STA = 7"
| "lq_ipc_msg_val LQ_IPC_MSG_UNREGISTER_STA = 8"
| "lq_ipc_msg_val LQ_IPC_MSG_REINIT_METRICS = 9"
| "lq_ipc_msg_val LQ_IPC_MSG_SET_MAX_SNR = 10"
| "lq_ipc_msg_val LQ_IPC_MSG_SET_SCORE_PARAMS = 11"

record weid_tlv =
  tlv_type :: u8
  tlv_version :: u8
  tlv_elem_size :: u16
  tlv_len :: u16

text \<open>\<open>offsetof(weid_tlv_t, value)\<close>, pinned by the file's static assertions.\<close>

definition TLV_VALUE_OFFSET :: nat where "TLV_VALUE_OFFSET = 6"

record stats_arg =
  cli_Active :: int
  cli_SNR :: int
  cli_LastDataUplinkRate :: int
  cli_PacketsSent :: int
  cli_ErrorsSent :: int
  channel_utilization :: int
  cli_MACAddress :: mac

text \<open>The platform: size and decoding of an entry, and the host's byte order.\<close>

record wire_layout =
  sizeof_stats_arg :: nat
  decode_stats_arg :: "u8 list \<Rightarrow> stats_arg"
  little_endian :: bool

definition read_bytes :: "u8 list \<Rightarrow> nat \<Rightarrow> nat \<Rightarrow> u8 list option" where
  "read_bytes buf off n = (if off + n \<le> length buf then Some (take n (drop off buf)) else None)"

definition host_u16 :: "wire_layout \<Rightarrow> u8 \<Rightarrow> u8 \<Rightarrow> u16" where
  "host_u16 lay a b = (if little_endian lay then ucast a + 256 * ucast b else 256 * ucast a + ucast b)"

definition read_tlv :: "wire_layout \<Rightarrow> u8 list \<Rightarrow> weid_tlv option" where
  "read_tlv lay buf =
     (case read_bytes buf 0 TLV_VALUE_OFFSET of
        None \<Rightarrow> None
      | Some h \<Rightarrow> Some \<lparr>tlv_type = h ! 0, tlv_version = h ! 1, tlv_elem_size = host_u16 lay (h ! 2) (h ! 3),
                        tlv_len = host_u16 lay (h ! 4) (h ! 5)\<rparr>)"

section \<open>Policy and mapping\<close>

definition weid_wire_default_policy :: wei_infer_policy where
  "weid_wire_default_policy =
     \<lparr>tput_var_band = 25, tput_floor_ms = 2 * uint WEI_TICK_DEFAULT_MS, latency_score_band = 40,
      latency_sustain_ticks = 3, video_degrade_band = 50\<rparr>"

definition weid_wire_map_record :: "stats_arg \<Rightarrow> wei_conn_metric_record" where
  "weid_wire_map_record st =
     zero_metric_record
       \<lparr>version := WEI_CONN_METRIC_VERSION,
        activity_state := (if cli_Active st \<noteq> 0 then WEI_CONN_METRIC_STATE_ACTIVE else WEI_CONN_METRIC_STATE_IDLE),
        status := WEI_CONN_METRIC_STATUS_OK,
        link_snr_db := to_i32 (word_of_int (cli_SNR st)),
        phy_rate_kbps := word_of_int (cli_LastDataUplinkRate st) * 1000,
        tx_frames := word_of_int (cli_PacketsSent st),
        tx_err_frames := word_of_int (cli_ErrorsSent st),
        chan_util_pct := word_of_int (if channel_utilization st < 0 then 0
                                      else if channel_utilization st > 100 then 100
                                      else channel_utilization st)\<rparr>"

section \<open>The datagram callback\<close>

text \<open>The checks in the order of the code, each with its own logged reason.\<close>

datatype frame_check =
    DROP_RUNT
  | REJECT_VERSION
  | REJECT_LEN
  | IGNORE_TYPE
  | REJECT_ELEM_SIZE
  | REJECT_MULTIPLE
  | ACCEPT nat

definition weid_frame_check :: "wire_layout \<Rightarrow> u8 list \<Rightarrow> frame_check option" where
  "weid_frame_check lay buf =
     (if length buf < TLV_VALUE_OFFSET then Some DROP_RUNT
      else
        let payload_len = length buf - TLV_VALUE_OFFSET
        in case read_tlv lay buf of
             None \<Rightarrow> None
           | Some tlv \<Rightarrow>
               Some (if tlv_version tlv \<noteq> LQ_IPC_WIRE_VERSION then REJECT_VERSION
                     else if unat (tlv_len tlv) \<noteq> payload_len then REJECT_LEN
                     else if tlv_type tlv \<noteq> lq_ipc_msg_val LQ_IPC_MSG_PERIODIC_STATS then IGNORE_TYPE
                     else if unat (tlv_elem_size tlv) \<noteq> sizeof_stats_arg lay then REJECT_ELEM_SIZE
                     else if payload_len mod sizeof_stats_arg lay \<noteq> 0 then REJECT_MULTIPLE
                     else ACCEPT (payload_len div sizeof_stats_arg lay)))"

text \<open>What the callbacks work on: the engine, and the state the engine's tick publishes through.\<close>

record weid_ctx =
  wd_engine :: "wei_infer_engine option"
  wd_perf :: perf_state
  wd_bus :: bus_state

text \<open>One pass of the staging loop; \<open>clk i\<close> is the clock the engine reads for entry \<open>i\<close>.\<close>

definition weid_stage_entry ::
    "wire_layout \<Rightarrow> (nat \<Rightarrow> c_timespec) \<Rightarrow> u8 list \<Rightarrow> nat \<Rightarrow> weid_ctx \<Rightarrow> weid_ctx option" where
  "weid_stage_entry lay clk buf i ctx =
     (case read_bytes buf (TLV_VALUE_OFFSET + i * sizeof_stats_arg lay) (sizeof_stats_arg lay) of
        None \<Rightarrow> None
      | Some bytes \<Rightarrow>
          let entry = decode_stats_arg lay bytes; rec = weid_wire_map_record entry
          in Some (ctx\<lparr>wd_engine :=
                wei_infer_stage_record_ptr (clk i) (wd_engine ctx) (Some (cli_MACAddress entry)) (Some rec)\<rparr>))"

fun weid_stage_entries ::
    "wire_layout \<Rightarrow> (nat \<Rightarrow> c_timespec) \<Rightarrow> u8 list \<Rightarrow> nat list \<Rightarrow> weid_ctx \<Rightarrow> weid_ctx option" where
  "weid_stage_entries lay clk buf [] ctx = Some ctx"
| "weid_stage_entries lay clk buf (i # is) ctx =
     (case weid_stage_entry lay clk buf i ctx of
        None \<Rightarrow> None
      | Some ctx \<Rightarrow> weid_stage_entries lay clk buf is ctx)"

definition weid_on_datagram ::
    "wire_layout \<Rightarrow> (nat \<Rightarrow> c_timespec) \<Rightarrow> u8 list \<Rightarrow> weid_ctx \<Rightarrow> weid_ctx option" where
  "weid_on_datagram lay clk buf ctx =
     (case weid_frame_check lay buf of
        None \<Rightarrow> None
      | Some (ACCEPT count) \<Rightarrow> weid_stage_entries lay clk buf [0..<count] ctx
      | Some _ \<Rightarrow> Some ctx)"

text \<open>The C entry point, whose buffer and context may be NULL.\<close>

definition weid_on_datagram_ptr ::
    "wire_layout \<Rightarrow> (nat \<Rightarrow> c_timespec) \<Rightarrow> u8 list option \<Rightarrow> weid_ctx option \<Rightarrow> weid_ctx option option" where
  "weid_on_datagram_ptr lay clk buf ctx =
     (case (buf, ctx) of
        (Some d, Some c) \<Rightarrow> map_option Some (weid_on_datagram lay clk d c)
      | _ \<Rightarrow> Some ctx)"

section \<open>The tick callback\<close>

record 'j tick_input =
  ti_env :: scorer_env
  ti_world :: "nat \<Rightarrow> 'j tick_world"
  ti_clock :: c_timespec

definition weid_on_tick :: "'j tick_input \<Rightarrow> weid_ctx \<Rightarrow> weid_ctx option" where
  "weid_on_tick t ctx =
     (case wei_infer_tick (ti_env t) (ti_world t) (ti_clock t) (wd_engine ctx, wd_perf ctx, wd_bus ctx) of
        None \<Rightarrow> None
      | Some (eng, ps, b) \<Rightarrow> Some \<lparr>wd_engine = eng, wd_perf = ps, wd_bus = b\<rparr>)"

definition weid_on_tick_ptr :: "'j tick_input \<Rightarrow> weid_ctx option \<Rightarrow> weid_ctx option option" where
  "weid_on_tick_ptr t ctx =
     (case ctx of None \<Rightarrow> Some None | Some c \<Rightarrow> map_option Some (weid_on_tick t c))"

section \<open>Set-up and tear-down\<close>

text \<open>
  The pipeline: the poll loop bound to the callbacks, and the context they share. The first
  parameter says which of the two \<open>calloc\<close> calls succeed.
\<close>

type_synonym 'j weid_poll = "(nat \<Rightarrow> c_timespec, 'j tick_input, weid_ctx) wei_poll_ctx"

definition weid_wire_init ::
    "wire_layout \<Rightarrow> bool \<times> bool \<Rightarrow> sock_env \<Rightarrow> weid_ctx \<Rightarrow> sys_call list
      \<Rightarrow> int \<times> 'j weid_poll option \<times> weid_ctx \<times> sys_call list" where
  "weid_wire_init lay allocs sock ctx tr =
     (let engine = wei_infer_create (Some weid_wire_default_policy) (fst allocs);
          ctx = ctx\<lparr>wd_engine := engine\<rparr>
      in if engine = None then (- 1, None, ctx, tr)
         else
           let (poll, tr) = wei_poll_create sock (snd allocs) (Some LQ_STATS_SOCKET_PATH)
                              (Some (weid_on_datagram lay)) (Some weid_on_tick) tr
           in if poll = None then (- 1, None, ctx\<lparr>wd_engine := wei_infer_destroy (wd_engine ctx)\<rparr>, tr)
              else (0, poll, ctx, tr))"

definition weid_wire_deinit ::
    "'j weid_poll option \<Rightarrow> weid_ctx \<Rightarrow> sys_call list \<Rightarrow> 'j weid_poll option \<times> weid_ctx \<times> sys_call list" where
  "weid_wire_deinit poll ctx tr =
     (None, ctx\<lparr>wd_engine := wei_infer_destroy (wd_engine ctx)\<rparr>, wei_poll_stop poll tr)"

section \<open>What a well-formed frame is\<close>

text \<open>The sender's side: a periodic-stats frame of whole entries.\<close>

definition host_bytes :: "wire_layout \<Rightarrow> u16 \<Rightarrow> u8 list" where
  "host_bytes lay w =
     (let lo = word_of_nat (unat w mod 256); hi = word_of_nat (unat w div 256)
      in if little_endian lay then [lo, hi] else [hi, lo])"

definition stats_frame :: "wire_layout \<Rightarrow> u8 list list \<Rightarrow> u8 list" where
  "stats_frame lay es =
     [lq_ipc_msg_val LQ_IPC_MSG_PERIODIC_STATS, LQ_IPC_WIRE_VERSION]
       @ host_bytes lay (word_of_nat (sizeof_stats_arg lay))
       @ host_bytes lay (word_of_nat (length (concat es))) @ concat es"

definition frame_entries_ok :: "wire_layout \<Rightarrow> u8 list list \<Rightarrow> bool" where
  "frame_entries_ok lay es \<longleftrightarrow>
     (\<forall>e \<in> set es. length e = sizeof_stats_arg lay) \<and> sizeof_stats_arg lay < 2 ^ 16 \<and>
     length (concat es) < 2 ^ 16"

lemma split256: "a < 256 \<Longrightarrow> a + 256 * b = w \<longleftrightarrow> a = w mod 256 \<and> b = w div 256" for a b w :: nat
proof -
  assume "a < 256"
  then have "(a + 256 * b) mod 256 = a" "(a + 256 * b) div 256 = b" by simp_all
  then show ?thesis using mod_mult_div_eq [of w 256] by metis
qed

lemma host_u16_iff: "host_u16 lay a b = w \<longleftrightarrow> [a, b] = host_bytes lay w"
proof -
  have le: "ucast x + 256 * ucast y = w \<longleftrightarrow>
      x = word_of_nat (unat w mod 256) \<and> y = word_of_nat (unat w div 256)" for x y :: u8
  proof -
    have b: "unat x < 256" "unat y < 256" "unat w < 65536"
      using unsigned_less [of x, where ?'a = nat] unsigned_less [of y, where ?'a = nat] unsigned_less [of w, where ?'a = nat]
      by simp_all
    have "unat (ucast x + 256 * ucast y :: u16) = unat x + 256 * unat y"
      using b by (simp add: unat_word_ariths unsigned_ucast_eq take_bit_nat_eq_self)
    then have "ucast x + 256 * ucast y = w \<longleftrightarrow> unat x + 256 * unat y = unat w"
      by (metis word_unat_eq_iff)
    also have "\<dots> \<longleftrightarrow> unat x = unat w mod 256 \<and> unat y = unat w div 256" using b(1) by (rule split256)
    also have "\<dots> \<longleftrightarrow> x = word_of_nat (unat w mod 256) \<and> y = word_of_nat (unat w div 256)"
      using b by (auto simp: unat_of_nat word_unat_eq_iff less_mult_imp_div_less)
    finally show ?thesis .
  qed
  show ?thesis using le [of a b] le [of b a]
    by (auto simp: host_u16_def host_bytes_def Let_def add.commute)
qed

lemma host_bytes_two: "\<exists>a b. host_bytes lay w = [a, b]"
  by (cases "little_endian lay") (simp_all add: host_bytes_def)

lemma length_host_bytes [simp]: "length (host_bytes lay w) = 2"
  by (simp add: host_bytes_def Let_def)

lemma host_bytes_read: "host_u16 lay (host_bytes lay w ! 0) (host_bytes lay w ! Suc 0) = w"
proof -
  obtain a b where ab: "host_bytes lay w = [a, b]" using host_bytes_two by blast
  then show ?thesis using host_u16_iff [of lay a b w] by simp
qed

lemma concat_length: "\<forall>e \<in> set es. length e = n \<Longrightarrow> length (concat es) = length es * n"
  by (induction es) auto

lemma concat_nth:
  "\<forall>e \<in> set es. length e = n \<Longrightarrow> i < length es \<Longrightarrow> take n (drop (i * n) (concat es)) = es ! i"
proof (induction es arbitrary: i)
  case (Cons e es)
  then show ?case by (cases i) auto
qed simp

lemma concat_chunks:
  "length xs = k * n \<Longrightarrow> concat (map (\<lambda>i. take n (drop (i * n) xs)) [0..<k]) = xs"
proof (induction k arbitrary: xs)
  case (Suc k)
  have "map (\<lambda>i. take n (drop (i * n) xs)) [0..<Suc k] =
      take n xs # map (\<lambda>i. take n (drop (i * n) (drop n xs))) [0..<k]"
    by (simp add: upt_conv_Cons map_Suc_upt [symmetric] comp_def add.commute del: upt_Suc)
  then show ?case using Suc.IH [of "drop n xs"] Suc.prems by simp
qed simp

lemma frame_check_total: "\<exists>c. weid_frame_check lay buf = Some c"
  by (auto simp: weid_frame_check_def read_tlv_def read_bytes_def Let_def split: option.splits)

lemma frame_check_stats_frame:
  assumes "0 < sizeof_stats_arg lay" "frame_entries_ok lay es"
  shows "weid_frame_check lay (stats_frame lay es) = Some (ACCEPT (length es))"
proof -
  let ?n = "sizeof_stats_arg lay" and ?hs = "host_bytes lay (word_of_nat (sizeof_stats_arg lay))"
    and ?hl = "host_bytes lay (word_of_nat (length (concat es)))"
  have len: "length (concat es) = length es * ?n" using assms(2) by (auto simp: frame_entries_ok_def intro: concat_length)
  obtain s0 s1 l0 l1 where h: "?hs = [s0, s1]" "?hl = [l0, l1]" using host_bytes_two by metis
  have u: "host_u16 lay s0 s1 = word_of_nat ?n" "host_u16 lay l0 l1 = word_of_nat (length (concat es))"
    using h by (simp_all add: host_u16_iff)
  have tlv: "read_tlv lay (stats_frame lay es) =
      Some \<lparr>tlv_type = 1, tlv_version = 1, tlv_elem_size = word_of_nat ?n, tlv_len = word_of_nat (length (concat es))\<rparr>"
    using u by (simp add: read_tlv_def read_bytes_def TLV_VALUE_OFFSET_def stats_frame_def h LQ_IPC_WIRE_VERSION_def)
  have size: "length (stats_frame lay es) = 6 + length (concat es)"
    by (simp add: stats_frame_def)
  have unats: "unat (word_of_nat ?n :: u16) = ?n" "unat (word_of_nat (length (concat es)) :: u16) = length (concat es)"
    using assms(2) by (simp_all add: frame_entries_ok_def unat_of_nat)
  show ?thesis
    using assms(1) unats(2) len
    by (simp add: weid_frame_check_def Let_def tlv size unats(1) TLV_VALUE_OFFSET_def LQ_IPC_WIRE_VERSION_def
        del: length_concat of_nat_mult)
qed

lemma frame_check_accept:
  assumes "weid_frame_check lay buf = Some (ACCEPT k)"
  shows "length buf = TLV_VALUE_OFFSET + k * sizeof_stats_arg lay"
    "0 < sizeof_stats_arg lay \<Longrightarrow> \<exists>es. frame_entries_ok lay es \<and> length es = k \<and> buf = stats_frame lay es"
proof -
  let ?n = "sizeof_stats_arg lay"
  have len: "6 \<le> length buf" using assms by (auto simp: weid_frame_check_def TLV_VALUE_OFFSET_def split: if_splits)
  define p where "p = drop 6 buf"
  have buf: "buf = [buf ! 0, buf ! 1, buf ! 2, buf ! 3, buf ! 4, buf ! 5] @ p"
  proof -
    have "take 6 buf = [buf ! 0, buf ! 1, buf ! 2, buf ! 3, buf ! 4, buf ! 5]"
    proof -
      have "take 6 buf = map (\<lambda>i. buf ! i) [0..<6]" using len by (intro nth_equalityI) simp_all
      also have "[0..<6] = [0, 1, 2, 3, 4, 5 :: nat]" by (simp add: upt_conv_Cons)
      finally show ?thesis by simp
    qed
    then show ?thesis unfolding p_def by (metis append_take_drop_id)
  qed
  have tlv: "read_tlv lay buf = Some \<lparr>tlv_type = buf ! 0, tlv_version = buf ! 1,
      tlv_elem_size = host_u16 lay (buf ! 2) (buf ! 3), tlv_len = host_u16 lay (buf ! 4) (buf ! 5)\<rparr>"
    using len by (simp add: read_tlv_def read_bytes_def TLV_VALUE_OFFSET_def)
  have g: "buf ! 1 = 1" "unat (host_u16 lay (buf ! 4) (buf ! 5)) = length p" "buf ! 0 = 1"
      "unat (host_u16 lay (buf ! 2) (buf ! 3)) = ?n" "length p mod ?n = 0" "k = length p div ?n"
    using assms len tlv
    by (auto simp: weid_frame_check_def Let_def TLV_VALUE_OFFSET_def LQ_IPC_WIRE_VERSION_def p_def split: if_splits)
  have plen: "length p = k * ?n" using g(5,6) by (metis add.right_neutral div_mult_mod_eq)
  show "length buf = TLV_VALUE_OFFSET + k * ?n"
    using plen len by (simp add: p_def TLV_VALUE_OFFSET_def)
  show "\<exists>es. frame_entries_ok lay es \<and> length es = k \<and> buf = stats_frame lay es" if n: "0 < ?n"
  proof -
    define es where "es = map (\<lambda>i. take ?n (drop (i * ?n) p)) [0..<k]"
    have es: "concat es = p" "length es = k" unfolding es_def using concat_chunks [OF plen] by simp_all
    have chunk: "i * ?n + ?n \<le> length p" if "i < k" for i
      using that plen mult_le_mono1 [of "Suc i" k ?n] by simp
    have each: "\<forall>e \<in> set es. length e = ?n"
    proof
      fix e assume "e \<in> set es"
      then obtain i where "i < k" "e = take ?n (drop (i * ?n) p)" by (auto simp: es_def)
      then show "length e = ?n" using chunk [of i] by simp
    qed
    have hs: "[buf ! 2, buf ! 3] = host_bytes lay (word_of_nat ?n)"
      using g(4) by (simp add: host_u16_iff [symmetric]) (metis of_nat_unat ucast_id)
    have hl: "[buf ! 4, buf ! 5] = host_bytes lay (word_of_nat (length p))"
      using g(2) by (simp add: host_u16_iff [symmetric]) (metis of_nat_unat ucast_id)
    have "buf = stats_frame lay es"
      by (subst buf) (simp add: stats_frame_def es(1) hs [symmetric] hl [symmetric] g(1) [unfolded One_nat_def] g(3) LQ_IPC_WIRE_VERSION_def)
    moreover have "?n < 2 ^ 16" "length p < 2 ^ 16"
      using unsigned_less [of "host_u16 lay (buf ! 2) (buf ! 3)", where ?'a = nat]
        unsigned_less [of "host_u16 lay (buf ! 4) (buf ! 5)", where ?'a = nat] g(2,4)
      by simp_all
    ultimately show ?thesis using es each by (auto simp: frame_entries_ok_def)
  qed
qed

section \<open>What the callback does to the engine\<close>

text \<open>Staging of a list of entries, in order, \<open>i\<close> being the number of the first.\<close>

fun stage_all :: "(nat \<Rightarrow> c_timespec) \<Rightarrow> nat \<Rightarrow> stats_arg list \<Rightarrow> wei_infer_engine \<Rightarrow> wei_infer_engine" where
  "stage_all clk i [] eng = eng"
| "stage_all clk i (st # sts) eng =
     stage_all clk (Suc i) sts (wei_infer_stage_record (clk i) eng (cli_MACAddress st) (weid_wire_map_record st))"

lemma stats_frame_split: "\<exists>h. length h = 6 \<and> stats_frame lay es = h @ concat es"
  unfolding stats_frame_def append_assoc [symmetric] by (rule exI, rule conjI [OF _ refl]) simp

lemma read_entry:
  assumes "frame_entries_ok lay es" "i < length es"
  shows "read_bytes (stats_frame lay es) (TLV_VALUE_OFFSET + i * sizeof_stats_arg lay) (sizeof_stats_arg lay) = Some (es ! i)"
proof -
  let ?n = "sizeof_stats_arg lay"
  have each: "\<forall>e \<in> set es. length e = ?n" using assms(1) by (simp add: frame_entries_ok_def)
  have "i * ?n + ?n \<le> length (concat es)"
    using assms(2) concat_length [OF each] mult_le_mono1 [of "Suc i" "length es" ?n] by simp
  moreover have "drop (6 + i * ?n) (stats_frame lay es) = drop (i * ?n) (concat es)"
    using stats_frame_split [of lay es] by auto
  ultimately show ?thesis
    using concat_nth [OF each assms(2)] by (simp add: read_bytes_def TLV_VALUE_OFFSET_def stats_frame_def)
qed

lemma stage_entries_frame:
  assumes "frame_entries_ok lay (es @ fs)"
  shows "weid_stage_entries lay clk (stats_frame lay (es @ fs)) [length es..<length (es @ fs)] ctx =
    Some (ctx\<lparr>wd_engine := map_option (stage_all clk (length es) (map (decode_stats_arg lay) fs)) (wd_engine ctx)\<rparr>)"
  using assms
proof (induction fs arbitrary: es ctx)
  case Nil
  then show ?case by (cases "wd_engine ctx") simp_all
next
  case (Cons f fs)
  let ?i = "length es" and ?st = "decode_stats_arg lay f"
  let ?ctx = "ctx\<lparr>wd_engine := wei_infer_stage_record_ptr (clk ?i) (wd_engine ctx) (Some (cli_MACAddress ?st))
      (Some (weid_wire_map_record ?st))\<rparr>"
  have upt: "[?i..<length (es @ f # fs)] = ?i # [length (es @ [f])..<length ((es @ [f]) @ fs)]"
    by (simp add: upt_conv_Cons del: upt_Suc)
  have step: "weid_stage_entry lay clk (stats_frame lay (es @ f # fs)) ?i ctx = Some ?ctx"
    using read_entry [OF Cons.prems, of ?i] by (simp add: weid_stage_entry_def Let_def)
  show ?case
    unfolding upt using Cons.IH [of "es @ [f]" ?ctx] Cons.prems
    by (cases "wd_engine ctx") (simp_all add: step wei_infer_stage_record_ptr_def)
qed

text \<open>
  C6. The receiver accepts exactly the sender's frames. On a frame that is whole (version 1,
  periodic stats, this build's entry size, a declared length equal to the received one and a
  whole number of entries) it stages every entry, once and in order, with the decoded values;
  any other datagram, of any bytes and any length, changes nothing; and no byte outside the
  received ones is read in either case.
\<close>

theorem datagram_contract:
  assumes "0 < sizeof_stats_arg lay"
  shows "(frame_entries_ok lay es \<longrightarrow>
      weid_on_datagram lay clk (stats_frame lay es) ctx =
        Some (ctx\<lparr>wd_engine := map_option (stage_all clk 0 (map (decode_stats_arg lay) es)) (wd_engine ctx)\<rparr>)) \<and>
    ((\<nexists>fs. frame_entries_ok lay fs \<and> buf = stats_frame lay fs) \<longrightarrow>
      weid_on_datagram lay clk buf ctx = Some ctx)"
proof (intro conjI impI)
  assume "frame_entries_ok lay es"
  then show "weid_on_datagram lay clk (stats_frame lay es) ctx =
      Some (ctx\<lparr>wd_engine := map_option (stage_all clk 0 (map (decode_stats_arg lay) es)) (wd_engine ctx)\<rparr>)"
    using frame_check_stats_frame [OF assms] stage_entries_frame [of lay "[]" es clk ctx]
    by (simp add: weid_on_datagram_def)
next
  assume none: "\<nexists>fs. frame_entries_ok lay fs \<and> buf = stats_frame lay fs"
  obtain c where c: "weid_frame_check lay buf = Some c" using frame_check_total by blast
  show "weid_on_datagram lay clk buf ctx = Some ctx"
    using c none frame_check_accept(2) [OF _ assms] by (cases c) (auto simp: weid_on_datagram_def)
qed

text \<open>A two-entry frame of one-byte entries, decoded by a constant reader of the byte.\<close>

definition sample_layout :: wire_layout where
  "sample_layout = \<lparr>sizeof_stats_arg = 1,
     decode_stats_arg = (\<lambda>bs. \<lparr>cli_Active = 1, cli_SNR = 30, cli_LastDataUplinkRate = 100, cli_PacketsSent = 9,
       cli_ErrorsSent = 1, channel_utilization = 250, cli_MACAddress = Mac (hd bs) 0 0 0 0 0\<rparr>),
     little_endian = True\<rparr>"

theorem datagram_contract_witness:
  "\<exists>eng. wei_infer_create (Some weid_wire_default_policy) True = Some eng \<and>
     map_option wd_engine (weid_on_datagram sample_layout (\<lambda>i. \<lparr>tv_sec = 5, tv_nsec = int i\<rparr>)
       (stats_frame sample_layout [[7], [8]]) \<lparr>wd_engine = Some eng, wd_perf = perf_init, wd_bus = g_weid_bus_init\<rparr>) =
     Some (Some (wei_infer_stage_record \<lparr>tv_sec = 5, tv_nsec = 1\<rparr>
       (wei_infer_stage_record \<lparr>tv_sec = 5, tv_nsec = 0\<rparr> eng (Mac 7 0 0 0 0 0)
         (weid_wire_map_record (decode_stats_arg sample_layout [7])))
       (Mac 8 0 0 0 0 0) (weid_wire_map_record (decode_stats_arg sample_layout [8])))) \<and>
   weid_on_datagram sample_layout (\<lambda>i. \<lparr>tv_sec = 5, tv_nsec = int i\<rparr>) [1, 2, 3]
      \<lparr>wd_engine = Some eng, wd_perf = perf_init, wd_bus = g_weid_bus_init\<rparr> =
      Some \<lparr>wd_engine = Some eng, wd_perf = perf_init, wd_bus = g_weid_bus_init\<rparr>"
proof -
  let ?clk = "\<lambda>i. \<lparr>tv_sec = 5, tv_nsec = int i\<rparr>"
  obtain eng where eng: "wei_infer_create (Some weid_wire_default_policy) True = Some eng"
    by (simp add: wei_infer_create_def)
  have "frame_entries_ok sample_layout [[7], [8]]" "0 < sizeof_stats_arg sample_layout"
    and mac: "cli_MACAddress (decode_stats_arg sample_layout [b]) = Mac b 0 0 0 0 0" for b
    by (simp_all add: frame_entries_ok_def sample_layout_def)
  moreover have "\<nexists>fs. frame_entries_ok sample_layout fs \<and> [1, 2, 3] = stats_frame sample_layout fs"
    by (auto simp: stats_frame_def LQ_IPC_WIRE_VERSION_def)
  ultimately show ?thesis
    using datagram_contract [of sample_layout "[[7], [8]]" ?clk
        "\<lparr>wd_engine = Some eng, wd_perf = perf_init, wd_bus = g_weid_bus_init\<rparr>" "[1, 2, 3]"] eng
    by (simp add: mac)
qed

section \<open>The callbacks keep the loop's contract\<close>

definition weid_ok :: "weid_ctx \<Rightarrow> bool" where
  "weid_ok ctx \<longleftrightarrow> (\<exists>eng. wd_engine ctx = Some eng \<and> engine_ok eng \<and> rates_ok eng) \<and> perf_ok (wd_perf ctx)"

text \<open>
  The one thing asked of a datagram: no entry it can hold decodes to a rate above the bound up
  to which the engine's variance is defined. Any other content is allowed.
\<close>

definition entries_plausible :: "wire_layout \<Rightarrow> u8 list \<Rightarrow> bool" where
  "entries_plausible lay buf \<longleftrightarrow>
     (\<forall>i bytes. read_bytes buf (TLV_VALUE_OFFSET + i * sizeof_stats_arg lay) (sizeof_stats_arg lay) = Some bytes \<longrightarrow>
        uint (phy_rate_kbps (weid_wire_map_record (decode_stats_arg lay bytes))) \<le> PHY_SAFE_KBPS)"

definition tick_input_ok :: "'j tick_input \<Rightarrow> bool" where
  "tick_input_ok t \<longleftrightarrow> libm_exp_ok (ti_env t)"

lemma stage_entries_ok:
  assumes "entries_plausible lay buf" "length buf = TLV_VALUE_OFFSET + k * sizeof_stats_arg lay"
    and "\<forall>i \<in> set is. i < k" "weid_ok ctx"
  shows "\<exists>ctx'. weid_stage_entries lay clk buf is ctx = Some ctx' \<and> weid_ok ctx'"
  using assms(3,4)
proof (induction "is" arbitrary: ctx)
  case (Cons i "is")
  let ?n = "sizeof_stats_arg lay"
  obtain eng where eng: "wd_engine ctx = Some eng" "engine_ok eng" "rates_ok eng"
    using Cons.prems(2) by (auto simp: weid_ok_def)
  have "i * ?n + ?n \<le> k * ?n" using Cons.prems(1) mult_le_mono1 [of "Suc i" k ?n] by simp
  then obtain bytes where bytes: "read_bytes buf (TLV_VALUE_OFFSET + i * ?n) ?n = Some bytes"
    using assms(2) by (simp add: read_bytes_def)
  let ?st = "decode_stats_arg lay bytes"
  let ?eng = "wei_infer_stage_record (clk i) eng (cli_MACAddress ?st) (weid_wire_map_record ?st)"
  have "rates_ok ?eng" using eng(3) assms(1) bytes by (auto simp: entries_plausible_def intro: stage_rates)
  then have "weid_ok (ctx\<lparr>wd_engine := Some ?eng\<rparr>)"
    using stage_ok [OF eng(2)] Cons.prems(2) by (simp add: weid_ok_def)
  then show ?case
    using Cons.IH Cons.prems(1) bytes eng(1)
    by (simp add: weid_stage_entry_def Let_def wei_infer_stage_record_ptr_def)
qed simp

lemma on_datagram_ok [wei_inv]:
  assumes "entries_plausible lay buf" "weid_ok ctx"
  shows "\<exists>ctx'. weid_on_datagram lay clk buf ctx = Some ctx' \<and> weid_ok ctx'"
proof -
  obtain c where c: "weid_frame_check lay buf = Some c" using frame_check_total by blast
  show ?thesis
  proof (cases c)
    case (ACCEPT k)
    then show ?thesis
      using stage_entries_ok [OF assms(1) frame_check_accept(1), of k "[0..<k]" ctx clk] c assms(2)
      by (simp add: weid_on_datagram_def)
  qed (use c assms(2) in \<open>simp_all add: weid_on_datagram_def\<close>)
qed

lemma on_tick_ok [wei_inv]:
  assumes "tick_input_ok t" "weid_ok ctx"
  shows "\<exists>ctx'. weid_on_tick t ctx = Some ctx' \<and> weid_ok ctx'"
proof -
  obtain eng where eng: "wd_engine ctx = Some eng" "engine_ok eng" "rates_ok eng" "perf_ok (wd_perf ctx)"
    using assms(2) by (auto simp: weid_ok_def)
  show ?thesis
    using tick_some [of "ti_env t" eng "wd_perf ctx" "ti_world t" "ti_clock t" "wd_bus ctx"] eng assms(1)
    by (auto simp: weid_on_tick_def tick_input_ok_def weid_ok_def)
qed

interpretation wire: poll_client weid_ok "\<lambda>clk. entries_plausible lay" tick_input_ok
    "weid_on_datagram lay" weid_on_tick for lay
  by unfold_locales (simp_all add: on_datagram_ok on_tick_ok)

section \<open>The pipeline\<close>

lemma default_policy_sane: "infer_policy_ok weid_wire_default_policy"
  by (simp add: infer_policy_ok_def weid_wire_default_policy_def)

lemma wire_init_cases:
  fixes poll :: "'j weid_poll option"
  assumes "weid_wire_init lay allocs sock ctx [] = (rc, poll, ctx', tr)" "perf_ok (wd_perf ctx)"
  shows "rc = 0 \<and> (\<exists>p. poll = Some p \<and> holds_only (pc_fd p) tr \<and> tick_times tr = [] \<and>
           tick_ms p = WEI_TICK_DEFAULT_MS \<and> wire.bound_to lay p) \<and> weid_ok ctx' \<or>
         rc = - 1 \<and> poll = None \<and> wd_engine ctx' = None \<and> fds_open tr = []"
proof (cases "wei_infer_create (Some weid_wire_default_policy) (fst allocs)")
  case None
  then show ?thesis using assms by (auto simp: weid_wire_init_def)
next
  case (Some eng)
  obtain p :: "'j weid_poll option" and tr0 where p: "wei_poll_create sock (snd allocs) (Some LQ_STATS_SOCKET_PATH)
      (Some (weid_on_datagram lay)) (Some weid_on_tick) [] = (p, tr0)" by (metis surj_pair)
  have "case p of None \<Rightarrow> fds_open tr0 = [] | Some c \<Rightarrow> holds_only (pc_fd c) tr0 \<and> tick_times tr0 = [] \<and>
      tick_ms c = WEI_TICK_DEFAULT_MS \<and> wire.bound_to lay c"
    using poll_create_holds [OF p] by (auto simp: wire.bound_to_def split: option.splits)
  then show ?thesis
    using assms p Some create_ok [OF Some default_policy_sane]
    by (cases p) (auto simp: weid_wire_init_def weid_ok_def wei_infer_destroy_def Let_def)
qed

lemma wire_deinit_releases:
  assumes "\<forall>p. poll = Some p \<longrightarrow> holds_only (pc_fd p) tr" "poll = None \<Longrightarrow> fds_open tr = []"
    and "weid_wire_deinit poll ctx tr = (poll', ctx', tr')"
  shows "poll' = None" "wd_engine ctx' = None" "fds_open tr' = []" "wd_bus ctx' = wd_bus ctx"
  using assms stop_releases
  by (auto simp: weid_wire_deinit_def wei_infer_destroy_def wei_poll_stop_def holds_only_def fds_step_def
      split: option.splits)

text \<open>A loop input the theorems below admit.\<close>

definition daemon_input_ok :: "wire_layout \<Rightarrow> (nat \<Rightarrow> c_timespec, 'j tick_input) loop_input \<Rightarrow> bool" where
  "daemon_input_ok lay i =
     (case i of RETUNE p \<Rightarrow> True
      | ITER ev \<Rightarrow> RECV_FAIL \<in> set (ev_recv ev) \<and>
          (\<forall>d clk. RECV d clk \<in> set (ev_recv ev) \<longrightarrow> entries_plausible lay (take WEI_DGRAM_MAX d)) \<and>
          libm_exp_ok (ti_env (ev_tick ev)))"

lemma daemon_input_event: "daemon_input_ok lay = wire.event_ok lay"
  by (auto simp: fun_eq_iff daemon_input_ok_def wire.event_ok_def wire.recv_ok_def tick_input_ok_def
      split: loop_input.splits)

end
