(* ===== verification/Pipeline.thy ===== *)
theory Pipeline
  imports Wire
begin

text \<open>
  From the wire to the verdict: what the datagram callback and the tick callback do together.
  The record a station is scored with is followed from the bytes of a frame, through the staging
  slot and the sweep, to the publish call; the two callbacks share nothing but the engine's
  snapshot.
\<close>

section \<open>The record staged for a station\<close>

definition staged :: "wei_infer_engine \<Rightarrow> mac \<Rightarrow> wei_conn_metric_record option" where
  "staged eng m =
     map_option (\<lambda>i. eng_snapshot eng ! i) (slot_of sl_in_use sl_mac (map_slots (eng_map eng)) m)"

text \<open>The last entry of a frame that names the station.\<close>

definition last_entry :: "mac \<Rightarrow> stats_arg list \<Rightarrow> stats_arg option" where
  "last_entry m sts = List.find (\<lambda>st. cli_MACAddress st = m) (rev sts)"

lemma last_entry_simps [simp]:
  "last_entry m [] = None"
  "last_entry m (sts @ [st]) = (if cli_MACAddress st = m then Some st else last_entry m sts)"
  by (simp_all add: last_entry_def)

abbreviation stations :: "wei_infer_engine \<Rightarrow> mac set" where
  "stations eng \<equiv> set (table_keys sl_in_use sl_mac (map_slots (eng_map eng)))"

text \<open>All stations, known or named by the frame, fit the table.\<close>

definition frame_fits :: "wei_infer_engine \<Rightarrow> stats_arg list \<Rightarrow> bool" where
  "frame_fits eng sts \<longleftrightarrow> card (stations eng \<union> cli_MACAddress ` set sts) \<le> WEI_TRACK_MAX_CLIENTS"

lemma staged_stage:
  assumes "engine_ok eng" "finite M" "card M \<le> WEI_TRACK_MAX_CLIENTS" "m \<in> M" "stations eng \<subseteq> M"
  shows "staged (wei_infer_stage_record ts eng m rec) m' = (if m' = m then Some rec else staged eng m')"
    "stations (wei_infer_stage_record ts eng m rec) \<subseteq> M"
proof -
  let ?slots = "map_slots (eng_map eng)" and ?t = "wei_infer_now_ms ts"
  have ok: "unique_keys sl_in_use sl_mac ?slots" "length ?slots = WEI_TRACK_MAX_CLIENTS"
    "length (eng_snapshot eng) = WEI_TRACK_MAX_CLIENTS" using assms(1) by (auto simp: engine_ok_def)
  obtain i where i: "snd (map_admit ?slots m ?t) = Some i"
    using map_tbl.admit_room [OF ok(1) assms(2) _ assms(4,5), of ?t] assms(3) ok(2) by auto
  have m: "slot_of sl_in_use sl_mac (fst (map_admit ?slots m ?t)) m = Some i"
    using map_tbl.admit_slot_of [OF ok(1)] i by simp
  then have "i < WEI_TRACK_MAX_CLIENTS"
    using slot_of_SomeD(1) [OF m] map_tbl.admit_length ok(2) by simp
  moreover have "j \<noteq> i" if "m' \<noteq> m" "slot_of sl_in_use sl_mac ?slots m' = Some j" for j
    using that slot_of_SomeD(3) [OF m] map_tbl.admit_other [OF that(1), of ?slots ?t] slot_of_SomeD(3) by metis
  ultimately show "staged (wei_infer_stage_record ts eng m rec) m' = (if m' = m then Some rec else staged eng m')"
    using m ok(3) i map_tbl.admit_other [of m' m ?slots ?t]
    by (cases "slot_of sl_in_use sl_mac ?slots m'") (auto simp: staged_def stage_admit)
  show "stations (wei_infer_stage_record ts eng m rec) \<subseteq> M"
    using map_tbl.admit_keys [of ?slots m ?t] assms(4,5) by (auto simp: stage_admit)
qed

lemma stage_all_snoc:
  "stage_all clk n (sts @ [st]) eng =
     wei_infer_stage_record (clk (n + length sts)) (stage_all clk n sts eng) (cli_MACAddress st) (weid_wire_map_record st)"
  by (induction sts arbitrary: n eng) simp_all

lemma staged_stage_all:
  assumes "engine_ok eng" "frame_fits eng sts"
  shows "staged (stage_all clk n sts eng) m =
    (case last_entry m sts of Some st \<Rightarrow> Some (weid_wire_map_record st) | None \<Rightarrow> staged eng m)"
proof -
  let ?M = "stations eng \<union> cli_MACAddress ` set sts"
  have M: "finite ?M" "card ?M \<le> WEI_TRACK_MAX_CLIENTS" using assms(2) by (simp_all add: frame_fits_def)
  have "engine_ok (stage_all clk n ss eng) \<and> stations (stage_all clk n ss eng) \<subseteq> ?M \<and>
      staged (stage_all clk n ss eng) m =
        (case last_entry m ss of Some st \<Rightarrow> Some (weid_wire_map_record st) | None \<Rightarrow> staged eng m)"
    if "set ss \<subseteq> set sts" for ss
    using that
  proof (induction ss rule: rev_induct)
    case Nil
    then show ?case using assms(1) by simp
  next
    case (snoc st ss)
    then have "cli_MACAddress st \<in> ?M" by auto
    then show ?case
      using snoc staged_stage [OF _ M, where m = "cli_MACAddress st" and eng = "stage_all clk n ss eng"]
      by (auto simp: stage_all_snoc stage_ok)
  qed
  then show ?thesis by simp
qed

section \<open>The stations a tick scores\<close>

lemma slot_key_simps:
  assumes "map slot_key xs = map slot_key ys" "i < length ys"
  shows "sl_in_use (xs ! i) = sl_in_use (ys ! i)" "sl_mac (xs ! i) = sl_mac (ys ! i)"
  using arg_cong [OF assms(1), of "\<lambda>zs. zs ! i"] map_eq_imp_length_eq [OF assms(1)] assms(2)
  by (simp_all add: slot_key_def)

lemma sweep_scores_who:
  assumes "libm_exp_ok env" "engine_ok eng" "rates_ok eng" "\<forall>i \<in> set is. i < WEI_TRACK_MAX_CLIENTS"
    "sweep_scores env t is eng = Some (eng', rs)"
  shows "map (\<lambda>(i, m, r, rec). (m, rec)) rs =
    map (\<lambda>i. (sl_mac (map_slots (eng_map eng) ! i), eng_snapshot eng ! i))
      (filter (\<lambda>i. sl_in_use (map_slots (eng_map eng) ! i) \<and> metric_scoreable (eng_snapshot eng ! i)) is)"
  using assms(2-)
proof (induction "is" arbitrary: eng rs)
  case (Cons i "is")
  have i: "i < WEI_TRACK_MAX_CLIENTS" "\<forall>j \<in> set is. j < WEI_TRACK_MAX_CLIENTS" using Cons.prems(3) by auto
  obtain scored e where e: "engine_score env eng i t = Some (scored, e)" "engine_ok e" "rates_ok e"
      "eng_snapshot e = eng_snapshot eng" "sl_mac (map_slots (eng_map e) ! i) = sl_mac (map_slots (eng_map eng) ! i)"
      "scored = (sl_in_use (map_slots (eng_map eng) ! i) \<and> metric_scoreable (eng_snapshot eng ! i))"
    using engine_score_some [OF assms(1) Cons.prems(1,2) i(1), of t] by blast
  obtain rs' where rs': "sweep_scores env t is e = Some (eng', rs')"
    and rs: "rs = (if scored then (i, sl_mac (map_slots (eng_map e) ! i), eng_result e ! i, eng_snapshot e ! i) # rs' else rs')"
    using Cons.prems(4) e(1) by (auto split: option.splits)
  have "length (map_slots (eng_map eng)) = WEI_TRACK_MAX_CLIENTS" using Cons.prems(1) by (simp add: engine_ok_def)
  then have same: "sl_in_use (map_slots (eng_map e) ! j) = sl_in_use (map_slots (eng_map eng) ! j)"
    "sl_mac (map_slots (eng_map e) ! j) = sl_mac (map_slots (eng_map eng) ! j)" if "j \<in> set is" for j
    using slot_key_simps [OF engine_score_keys [OF e(1)], of j] i(2) that by auto
  have "filter (\<lambda>j. sl_in_use (map_slots (eng_map e) ! j) \<and> metric_scoreable (eng_snapshot e ! j)) is =
      filter (\<lambda>j. sl_in_use (map_slots (eng_map eng) ! j) \<and> metric_scoreable (eng_snapshot eng ! j)) is"
    using same(1) e(4) by (intro filter_cong) simp_all
  then show ?case using Cons.IH [OF e(2,3) i(2) rs'] rs same(2) e(4-6) by auto
qed simp

lemma filter_upt_single: "filter (\<lambda>i. i = j) [0..<n] = (if j < n then [j] else [])"
  by (induction n) auto

lemma filter_station:
  assumes "unique_keys used key es"
  shows "filter (\<lambda>i. used (es ! i) \<and> key (es ! i) = m) [0..<length es] =
    (case slot_of used key es m of None \<Rightarrow> [] | Some i \<Rightarrow> [i])"
proof -
  have "used (es ! i) \<and> key (es ! i) = m \<longleftrightarrow> slot_of used key es m = Some i" if "i < length es" for i
    using slot_of_unique [OF assms that, of m] slot_of_SomeD(2,3) [of used key es m i] by blast
  then have "filter (\<lambda>i. used (es ! i) \<and> key (es ! i) = m) [0..<length es] =
      filter (\<lambda>i. slot_of used key es m = Some i) [0..<length es]"
    by (intro filter_cong) simp_all
  also have "\<dots> = (case slot_of used key es m of None \<Rightarrow> [] | Some i \<Rightarrow> [i])"
  proof (cases "slot_of used key es m")
    case (Some j)
    then show ?thesis using slot_of_SomeD(1) [OF Some] filter_upt_single [of j "length es"]
      by (simp add: eq_commute [of j])
  qed simp
  finally show ?thesis .
qed

text \<open>The records a list of scored clients holds for one station.\<close>

definition records_of :: "mac \<Rightarrow> (nat \<times> mac \<times> wei_infer_result \<times> wei_conn_metric_record) list \<Rightarrow> wei_conn_metric_record list" where
  "records_of m rs = map (\<lambda>(i, k, r, rec). rec) (filter (\<lambda>(i, k, r, rec). k = m) rs)"

lemma records_of_map: "records_of m rs = map snd (filter (\<lambda>p. fst p = m) (map (\<lambda>(i, k, r, rec). (k, rec)) rs))"
  by (induction rs) (auto simp: records_of_def)

lemma tick_records:
  assumes "libm_exp_ok env" "engine_ok eng" "rates_ok eng" "engine_tick env ts eng = Some (eng', rs)"
  shows "records_of m rs = filter metric_scoreable (case staged eng m of None \<Rightarrow> [] | Some rec \<Rightarrow> [rec])"
proof -
  let ?slots = "map_slots (eng_map eng)" and ?snap = "eng_snapshot eng"
  have ok: "unique_keys sl_in_use sl_mac ?slots" "length ?slots = WEI_TRACK_MAX_CLIENTS"
    using assms(2) by (simp_all add: engine_ok_def)
  obtain e where "sweep_scores env (wei_infer_now_ms ts) [0..<WEI_TRACK_MAX_CLIENTS] eng = Some (e, rs)"
    using assms(4) by (auto simp: engine_tick_def)
  note who = sweep_scores_who [OF assms(1-3) _ this]
  let ?one = "filter (\<lambda>i. sl_in_use (?slots ! i) \<and> sl_mac (?slots ! i) = m) [0..<length ?slots]"
  have "filter (\<lambda>i. sl_mac (?slots ! i) = m) (filter (\<lambda>i. sl_in_use (?slots ! i) \<and> metric_scoreable (?snap ! i)) [0..<length ?slots]) =
      filter (\<lambda>i. metric_scoreable (?snap ! i)) ?one"
    unfolding filter_filter by (rule filter_cong) auto
  then have "records_of m rs = map (\<lambda>i. ?snap ! i) (filter (\<lambda>i. metric_scoreable (?snap ! i)) ?one)"
    using who ok(2) by (simp add: records_of_map filter_map comp_def del: filter_filter)
  then have "records_of m rs = map (\<lambda>i. ?snap ! i) (filter (\<lambda>i. metric_scoreable (?snap ! i))
      (case slot_of sl_in_use sl_mac ?slots m of None \<Rightarrow> [] | Some i \<Rightarrow> [i]))"
    unfolding filter_station [OF ok(1)] .
  then show ?thesis by (simp add: staged_def split: option.splits)
qed

section \<open>A frame, then a tick\<close>

lemma map_record_scoreable: "metric_scoreable (weid_wire_map_record st) \<longleftrightarrow> cli_Active st \<noteq> 0"
  by (simp add: metric_scoreable_def weid_wire_map_record_def)

text \<open>
  C7. What a frame says is what the next tick scores and publishes. On a live pipeline, let a
  periodic-stats frame arrive whose stations fit the table together with the known ones, and then
  a tick. Neither callback fails; every station the frame names is scored exactly once, with the
  mapped record of its last entry, if that entry is active, and not at all otherwise; a station
  the frame does not name is scored again with the record it was last staged with; no other
  station is scored; and what reaches the publisher is exactly the list of scored clients, in slot
  order.
\<close>

theorem frame_then_tick:
  assumes "0 < sizeof_stats_arg lay" "frame_entries_ok lay es" "entries_plausible lay (stats_frame lay es)"
    and "tick_input_ok t" "weid_ok ctx" "wd_engine ctx = Some eng"
    and "frame_fits eng (map (decode_stats_arg lay) es)"
  shows "\<exists>ctx1 ctx2 e1 e2 rs.
    weid_on_datagram lay clk (stats_frame lay es) ctx = Some ctx1 \<and> wd_engine ctx1 = Some e1 \<and>
    weid_on_tick t ctx1 = Some ctx2 \<and> wd_engine ctx2 = Some e2 \<and>
    engine_tick (ti_env t) (ti_clock t) e1 = Some (e2, rs) \<and>
    perf_run (map (report_tick (ti_world t)) rs) (wd_perf ctx, wd_bus ctx) = Some (wd_perf ctx2, wd_bus ctx2) \<and>
    (\<forall>m. records_of m rs =
       (case last_entry m (map (decode_stats_arg lay) es) of
          Some st \<Rightarrow> if cli_Active st \<noteq> 0 then [weid_wire_map_record st] else []
        | None \<Rightarrow> filter metric_scoreable (case staged eng m of None \<Rightarrow> [] | Some rec \<Rightarrow> [rec])))"
proof -
  let ?sts = "map (decode_stats_arg lay) es" and ?env = "ti_env t"
  define e1 where "e1 = stage_all clk 0 ?sts eng"
  have data: "weid_on_datagram lay clk (stats_frame lay es) ctx = Some (ctx\<lparr>wd_engine := Some e1\<rparr>)"
    using frame_check_stats_frame [OF assms(1,2)] stage_entries_frame [of lay "[]" es clk ctx] assms(2,6)
    by (simp add: weid_on_datagram_def e1_def)
  have ok: "engine_ok e1" "rates_ok e1" "perf_ok (wd_perf ctx)" "libm_exp_ok ?env"
    using on_datagram_ok [OF assms(3,5), of clk] data assms(4) by (auto simp: weid_ok_def tick_input_ok_def)
  obtain e2 rs where tick: "engine_tick ?env (ti_clock t) e1 = Some (e2, rs)"
    using engine_tick_some [OF ok(4,1,2)] by blast
  obtain ps b where run: "perf_run (map (report_tick (ti_world t)) rs) (wd_perf ctx, wd_bus ctx) = Some (ps, b)"
    using perf_run_total [OF ok(3)] by blast
  have "weid_on_tick t (ctx\<lparr>wd_engine := Some e1\<rparr>) = Some \<lparr>wd_engine = Some e2, wd_perf = ps, wd_bus = b\<rparr>"
    by (simp add: weid_on_tick_def tick_split [OF ok(3)] tick run)
  moreover have "engine_ok eng" using assms(5,6) by (simp add: weid_ok_def)
  then have "records_of m rs = (case last_entry m ?sts of
      Some st \<Rightarrow> if cli_Active st \<noteq> 0 then [weid_wire_map_record st] else []
    | None \<Rightarrow> filter metric_scoreable (case staged eng m of None \<Rightarrow> [] | Some rec \<Rightarrow> [rec]))" for m
    unfolding tick_records [OF ok(4,1,2) tick] e1_def
    by (auto simp: staged_stage_all [OF _ assms(7)] map_record_scoreable split: option.splits)
  ultimately show ?thesis using data tick run
    by (intro exI [of _ "ctx\<lparr>wd_engine := Some e1\<rparr>"] exI [of _ "\<lparr>wd_engine = Some e2, wd_perf = ps, wd_bus = b\<rparr>"]
        exI [of _ e1] exI [of _ e2] exI [of _ rs]) simp
qed

text \<open>A fresh pipeline, a frame of three entries for two stations, a tick.\<close>

definition sample_ctx :: weid_ctx where
  "sample_ctx = \<lparr>wd_engine = wei_infer_create (Some weid_wire_default_policy) True, wd_perf = perf_init,
     wd_bus = g_weid_bus_init\<rparr>"

definition sample_tick :: "unit tick_input" where
  "sample_tick = \<lparr>ti_env = exact_env, ti_world = sample_world, ti_clock = \<lparr>tv_sec = 5, tv_nsec = 0\<rparr>\<rparr>"

theorem frame_then_tick_witness:
  "\<exists>e1 e2 rs.
     map_option wd_engine (weid_on_datagram sample_layout (\<lambda>i. \<lparr>tv_sec = 5, tv_nsec = 0\<rparr>)
       (stats_frame sample_layout [[7], [8], [7]]) sample_ctx) = Some (Some e1) \<and>
     engine_tick exact_env \<lparr>tv_sec = 5, tv_nsec = 0\<rparr> e1 = Some (e2, rs) \<and>
     map phy_rate_kbps (records_of (Mac 7 0 0 0 0 0) rs) = [100000] \<and>
     map phy_rate_kbps (records_of (Mac 8 0 0 0 0 0) rs) = [100000] \<and> records_of (Mac 9 0 0 0 0 0) rs = []"
proof -
  let ?es = "[[7], [8], [7]] :: u8 list list"
  obtain eng where eng: "wei_infer_create (Some weid_wire_default_policy) True = Some eng"
    by (simp add: wei_infer_create_def)
  have slots: "map_slots (eng_map eng) = replicate 64 zero_infer_slot"
    using eng by (auto simp: wei_infer_create_def WEI_TRACK_MAX_CLIENTS_def)
  have none: "stations eng = {}"
    by (simp add: slots table_keys_def zero_infer_slot_def)
  have pre: "0 < sizeof_stats_arg sample_layout" "frame_entries_ok sample_layout ?es"
      "entries_plausible sample_layout (stats_frame sample_layout ?es)" "tick_input_ok sample_tick"
      "weid_ok sample_ctx" "wd_engine sample_ctx = Some eng"
      "frame_fits eng (map (decode_stats_arg sample_layout) ?es)"
    using create_ok [OF eng default_policy_sane] eng exact_env_ok perf_init_ok(1) none
    by (simp_all add: sample_layout_def frame_entries_ok_def entries_plausible_def weid_wire_map_record_def
        PHY_SAFE_KBPS_def tick_input_ok_def sample_tick_def weid_ok_def sample_ctx_def frame_fits_def
        WEI_TRACK_MAX_CLIENTS_def card_insert_if)
  have "staged eng m = None" for m
    using none by (simp add: staged_def slot_of_None_iff)
  then show ?thesis
    using frame_then_tick [OF pre, of "\<lambda>i. \<lparr>tv_sec = 5, tv_nsec = 0\<rparr>"]
    by (auto simp: sample_tick_def sample_layout_def last_entry_def weid_wire_map_record_def)
qed

end
