(* ===== verification/Report_Table.thy ===== *)
theory Report_Table
  imports Infer
begin

text \<open>
  The report cadence table over the daemon's whole life (source/wei_perfreport.c). Its slots are
  claimed by the first tick of a station and there is no operation that gives one back, while
  the engine that feeds it recycles its own slots. This theory follows the table beyond its 64
  slots: which stations it knows, what the others get, and what the bus sees.
\<close>

section \<open>The order stations are first seen in\<close>

definition first_seen :: "'a list \<Rightarrow> 'a list" where
  "first_seen xs = rev (remdups (rev xs))"

lemma first_seen_simps [simp]:
  "first_seen [] = []"
  "first_seen (xs @ [x]) = (if x \<in> set xs then first_seen xs else first_seen xs @ [x])"
  by (simp_all add: first_seen_def)

lemma first_seen_set [simp]: "set (first_seen xs) = set xs" "distinct (first_seen xs)"
  "length (first_seen xs) = card (set xs)"
  by (simp_all add: first_seen_def length_remdups_card_conv)

definition reported_stations :: "'j perf_tick list \<Rightarrow> mac set" where
  "reported_stations ts = set (take WEI_TRACK_MAX_CLIENTS (first_seen (map pt_mac ts)))"

lemma reported_card: "card (reported_stations ts) = min WEI_TRACK_MAX_CLIENTS (card (pt_mac ` set ts))"
  by (simp add: reported_stations_def distinct_card min.commute)

lemma reported_subset: "reported_stations ts \<subseteq> pt_mac ` set ts"
  using set_take_subset [of WEI_TRACK_MAX_CLIENTS "first_seen (map pt_mac ts)"]
  by (simp add: reported_stations_def)

lemma reported_snoc:
  "reported_stations (ts @ [t]) =
     (if pt_mac t \<in> reported_stations ts \<or> card (reported_stations ts) < WEI_TRACK_MAX_CLIENTS
      then insert (pt_mac t) (reported_stations ts) else reported_stations ts)"
proof (cases "card (pt_mac ` set ts) < WEI_TRACK_MAX_CLIENTS")
  case True
  then have "reported_stations ts = pt_mac ` set ts" by (simp add: reported_stations_def)
  then show ?thesis using True by (auto simp: reported_stations_def)
next
  case False
  then have "\<not> card (reported_stations ts) < WEI_TRACK_MAX_CLIENTS" by (simp add: reported_card)
  moreover have "reported_stations (ts @ [t]) = reported_stations ts" using False by (simp add: reported_stations_def)
  ultimately show ?thesis by auto
qed

section \<open>What one publish does to the table\<close>

abbreviation cadence_keys :: "perf_state \<Rightarrow> mac set" where
  "cadence_keys s \<equiv> set (table_keys pc_in_use pc_mac (state_tbl s))"

lemma cadence_keys_card:
  assumes "perf_ok s"
  shows "card (cadence_keys s) = length (filter pc_in_use (state_tbl s))"
  using assms by (simp add: perf_ok_def unique_keys_def distinct_card) (simp add: table_keys_def)

lemma cadence_full_iff:
  assumes "perf_ok s"
  shows "card (cadence_keys s) < WEI_TRACK_MAX_CLIENTS \<longleftrightarrow> (\<exists>e \<in> set (state_tbl s). \<not> pc_in_use e)"
proof -
  have "length (state_tbl s) = WEI_TRACK_MAX_CLIENTS" using assms by (simp add: perf_ok_def)
  then show ?thesis
    unfolding cadence_keys_card [OF assms]
    by (metis filter_True length_filter_less less_irrefl)
qed

lemma find_or_add_None: "wei_perfreport_state_find_or_add s (Some m) = (s', None) \<Longrightarrow> s' = s"
  by (auto simp: wei_perfreport_state_find_or_add_def perf_admit_def split: prod.splits option.splits)

lemma find_or_add_keys:
  assumes "perf_ok s"
  shows "cadence_keys (fst (wei_perfreport_state_find_or_add s (Some m))) =
     (if m \<in> cadence_keys s \<or> card (cadence_keys s) < WEI_TRACK_MAX_CLIENTS
      then insert m (cadence_keys s) else cadence_keys s)"
    "snd (wei_perfreport_state_find_or_add s (Some m)) = None \<longleftrightarrow>
       \<not> (m \<in> cadence_keys s \<or> card (cadence_keys s) < WEI_TRACK_MAX_CLIENTS)"
  unfolding cadence_full_iff [OF assms]
  using perf_tbl.admit_keys_eq [of "state_tbl s" m "()"] perf_tbl.admit_None_iff [of "state_tbl s" m "()"]
  by (simp_all add: wei_perfreport_state_find_or_add_def split_beta)

lemma should_emit_key:
  "wei_perfreport_should_emit store st v = (st', e) \<Longrightarrow> pc_in_use st' = pc_in_use st \<and> pc_mac st' = pc_mac st"
  by (auto simp: wei_perfreport_should_emit_def split: if_splits)

lemma keys_same_slot:
  assumes "pc_in_use e = pc_in_use (tbl ! i)" "pc_mac e = pc_mac (tbl ! i)"
  shows "table_keys pc_in_use pc_mac (tbl[i := e]) = table_keys pc_in_use pc_mac tbl"
proof -
  have "map (\<lambda>e. (pc_in_use e, pc_mac e)) (tbl[i := e]) = map (\<lambda>e. (pc_in_use e, pc_mac e)) tbl"
    using assms
    by (cases "i < length tbl") (simp_all add: map_update list_update_same_conv list_update_beyond)
  moreover have keys: "table_keys pc_in_use pc_mac xs = map snd (filter fst (map (\<lambda>e. (pc_in_use e, pc_mac e)) xs))" for xs
    by (simp add: table_keys_def filter_map comp_def)
  ultimately show ?thesis by (simp only: keys)
qed

lemma build_json_table:
  "wei_perfreport_build_json pe s m r rec = Some (json, s') \<Longrightarrow> state_tbl s' = state_tbl s"
  by (auto simp: wei_perfreport_build_json_def split: option.splits)

lemma publish_tick_table:
  assumes "wei_perfreport_publish_tick pe store env (Some m) (Some res) (Some rec) (s, b) = Some (rc, s', b')"
  shows "cadence_keys s' = cadence_keys (fst (wei_perfreport_state_find_or_add s (Some m)))"
proof (cases "wei_perfreport_state_find_or_add s (Some m)")
  case (Pair s1 r)
  show ?thesis
  proof (cases r)
    case None
    moreover have "s1 = s" using Pair None find_or_add_None by simp
    moreover have "s' = s1" using None assms Pair by (simp add: wei_perfreport_publish_tick_def)
    ultimately show ?thesis using Pair by simp
  next
    case (Some i)
    obtain st e where se: "wei_perfreport_should_emit store (state_tbl s1 ! i) (ir_verdict res) = (st, e)" by fastforce
    have key: "pc_in_use st = pc_in_use (state_tbl s1 ! i)" "pc_mac st = pc_mac (state_tbl s1 ! i)"
      using should_emit_key [OF se] by simp_all
    have "state_tbl s' \<in> {(state_tbl s1)[i := st], (state_tbl s1)[i := st\<lparr>last_emitted_class := ir_verdict res\<rparr>]}"
      using assms Pair Some se
      by (cases "i < length (state_tbl s1)")
        (auto simp: wei_perfreport_publish_tick_def Let_def list_update_beyond dest!: build_json_table
          split: if_splits option.splits)
    then obtain x where x: "state_tbl s' = (state_tbl s1)[i := x]"
      "pc_in_use x = pc_in_use (state_tbl s1 ! i)" "pc_mac x = pc_mac (state_tbl s1 ! i)"
      using key by auto
    show ?thesis using keys_same_slot [OF x(2,3)] x(1) Pair by simp
  qed
qed

lemma publish_tick_refused:
  assumes "perf_ok s" "m \<notin> cadence_keys s" "card (cadence_keys s) = WEI_TRACK_MAX_CLIENTS"
  shows "wei_perfreport_publish_tick pe store env (Some m) (Some res) (Some rec) (s, b) = Some (bus_error_success, s, b)"
proof -
  have r: "snd (wei_perfreport_state_find_or_add s (Some m)) = None"
    using find_or_add_keys(2) [OF assms(1), of m] assms(2,3) by simp
  then show ?thesis
    by (cases "wei_perfreport_state_find_or_add s (Some m)")
      (auto simp: wei_perfreport_publish_tick_def dest: find_or_add_None)
qed

section \<open>The whole run\<close>

lemma perf_run_append:
  "perf_run (xs @ ys) ps = (case perf_run xs ps of None \<Rightarrow> None | Some ps \<Rightarrow> perf_run ys ps)"
  by (induction xs arbitrary: ps) (auto split: option.splits)

lemma perf_run_keys:
  "\<exists>s b'. perf_run ts (perf_init, b) = Some (s, b') \<and> perf_ok s \<and> cadence_keys s = reported_stations ts"
proof (induction ts rule: rev_induct)
  case Nil
  then show ?case using perf_init_ok by (simp add: reported_stations_def)
next
  case (snoc t ts)
  then obtain s b1 where s: "perf_run ts (perf_init, b) = Some (s, b1)" "perf_ok s" "cadence_keys s = reported_stations ts"
    by blast
  obtain rc s' b' where p: "wei_perfreport_publish_tick (pt_pe t) (pt_store t) (pt_bus t) (Some (pt_mac t))
      (Some (pt_result t)) (Some (pt_metrics t)) (s, b1) = Some (rc, s', b')" "perf_ok s'"
    using publish_tick_total [OF s(2)] by blast
  have "cadence_keys s' = reported_stations (ts @ [t])"
    using publish_tick_table [OF p(1)] find_or_add_keys(1) [OF s(2)] s(3) by (simp add: reported_snoc)
  then show ?case using s(1) p by (simp add: perf_run_append)
qed

lemma perf_run_ignores_refused:
  "perf_run ts (perf_init, b) = perf_run (filter (\<lambda>t. pt_mac t \<in> reported_stations ts) ts) (perf_init, b)"
proof (induction ts rule: rev_induct)
  case (snoc t ts)
  obtain s b1 where s: "perf_run ts (perf_init, b) = Some (s, b1)" "perf_ok s" "cadence_keys s = reported_stations ts"
    using perf_run_keys by blast
  have known: "pt_mac u \<in> reported_stations (ts @ [t]) \<longleftrightarrow> pt_mac u \<in> reported_stations ts" if "u \<in> set ts" for u
  proof (cases "card (pt_mac ` set ts) < WEI_TRACK_MAX_CLIENTS")
    case True
    then have "reported_stations ts = pt_mac ` set ts" by (simp add: reported_stations_def)
    then show ?thesis using that by (simp add: reported_snoc)
  next
    case False
    then have "card (reported_stations ts) = WEI_TRACK_MAX_CLIENTS" by (simp add: reported_card)
    then show ?thesis by (auto simp: reported_snoc)
  qed
  have before: "filter (\<lambda>u. pt_mac u \<in> reported_stations (ts @ [t])) ts = filter (\<lambda>u. pt_mac u \<in> reported_stations ts) ts"
    using known by (intro filter_cong) simp_all
  show ?case
  proof (cases "pt_mac t \<in> reported_stations (ts @ [t])")
    case True
    then show ?thesis using snoc by (simp add: perf_run_append before)
  next
    case False
    then have full: "pt_mac t \<notin> reported_stations ts" "\<not> card (reported_stations ts) < WEI_TRACK_MAX_CLIENTS"
      by (auto simp: reported_snoc split: if_splits)
    then have "card (cadence_keys s) = WEI_TRACK_MAX_CLIENTS" using s(3) reported_card [of ts] by simp
    from publish_tick_refused [OF s(2) _ this, of "pt_mac t" "pt_pe t" "pt_store t" "pt_bus t" "pt_result t" "pt_metrics t" b1]
    have "perf_run (ts @ [t]) (perf_init, b) = perf_run ts (perf_init, b)"
      using full(1) s by (simp add: perf_run_append)
    then show ?thesis using snoc False by (simp add: before)
  qed
qed simp

text \<open>
  C11. The report table never forgets, so it runs out. Over any run of publishes from start-up,
  whatever fails, every call returns and the table knows exactly the first 64 distinct stations
  of the run; the run is the same as if the calls of all other stations had not been made (each
  reports success and does nothing); and on a working bus the reports sent are those of the
  abstract cadence of these 64 stations alone. From the 65th station of the daemon's life on, a
  station is never reported, however few are present.
\<close>

theorem report_table_exhausts:
  "(\<exists>s b'. perf_run ts (perf_init, b) = Some (s, b') \<and> cadence_keys s = reported_stations ts \<and>
      (\<forall>m pe store env res rec. 64 \<le> card (pt_mac ` set ts) \<and> m \<notin> reported_stations ts \<longrightarrow>
        wei_perfreport_publish_tick pe store env (Some m) (Some res) (Some rec) (s, b') =
          Some (bus_error_success, s, b'))) \<and>
   perf_run ts (perf_init, b) = perf_run (filter (\<lambda>t. pt_mac t \<in> reported_stations ts) ts) (perf_init, b) \<and>
   (bus_opened b \<and> (\<forall>t \<in> set ts. tick_delivers t) \<longrightarrow>
      (\<exists>s b'. perf_run ts (perf_init, b) = Some (s, b') \<and>
         bus_trace b' = bus_trace b @ map report_call
           (emitted cadence_start (filter (\<lambda>t. pt_mac t \<in> reported_stations ts) ts))))"
proof (intro conjI impI)
  obtain s b1 where s: "perf_run ts (perf_init, b) = Some (s, b1)" "perf_ok s" "cadence_keys s = reported_stations ts"
    using perf_run_keys by blast
  have full: "64 \<le> card (pt_mac ` set ts) \<Longrightarrow> card (cadence_keys s) = WEI_TRACK_MAX_CLIENTS"
    using s(3) reported_card [of ts] by (simp add: WEI_TRACK_MAX_CLIENTS_def)
  show "\<exists>s b'. perf_run ts (perf_init, b) = Some (s, b') \<and> cadence_keys s = reported_stations ts \<and>
      (\<forall>m pe store env res rec. 64 \<le> card (pt_mac ` set ts) \<and> m \<notin> reported_stations ts \<longrightarrow>
        wei_perfreport_publish_tick pe store env (Some m) (Some res) (Some rec) (s, b') =
          Some (bus_error_success, s, b'))"
    using s full by (intro exI [of _ s] exI [of _ b1]) (simp add: publish_tick_refused)
next
  show "perf_run ts (perf_init, b) = perf_run (filter (\<lambda>t. pt_mac t \<in> reported_stations ts) ts) (perf_init, b)"
    by (rule perf_run_ignores_refused)
next
  let ?ts = "filter (\<lambda>t. pt_mac t \<in> reported_stations ts) ts"
  assume "bus_opened b \<and> (\<forall>t \<in> set ts. tick_delivers t)"
  moreover have "finite (reported_stations ts)" by (simp add: reported_stations_def)
  ultimately obtain s b' where "perf_run ?ts (perf_init, b) = Some (s, b')"
    "bus_trace b' = bus_trace b @ map report_call (emitted cadence_start ?ts)"
    using perf_run_refines [OF perf_rel_init, of b ?ts "reported_stations ts"] reported_card [of ts] by auto
  then show "\<exists>s b'. perf_run ts (perf_init, b) = Some (s, b') \<and>
      bus_trace b' = bus_trace b @ map report_call (emitted cadence_start ?ts)"
    using perf_run_ignores_refused [of ts b] by simp
qed

text \<open>
  Sixty-four stations are seen once each; the sixty-fifth then goes from smooth to degraded on a
  working bus and is never reported, the first one is.
\<close>

definition sample_station :: "nat \<Rightarrow> wei_infer_verdict \<Rightarrow> unit perf_tick" where
  "sample_station n v = (Perfreport.sample_tick v)\<lparr>pt_mac := Mac (word_of_nat n) 0 0 0 0 0\<rparr>"

definition sample_crowd :: "unit perf_tick list" where
  "sample_crowd = map (\<lambda>n. sample_station n WEI_INFER_VERDICT_SMOOTH) [0..<64] @
     replicate 5 (sample_station 64 WEI_INFER_VERDICT_DEGRADED)"

lemma first_seen_append: "\<exists>zs. first_seen (xs @ ys) = first_seen xs @ zs"
proof (induction ys rule: rev_induct)
  case (snoc y ys)
  then obtain zs where "first_seen (xs @ ys) = first_seen xs @ zs" by blast
  then have "first_seen ((xs @ ys) @ [y]) = first_seen xs @ (if y \<in> set (xs @ ys) then zs else zs @ [y])"
    by (auto simp del: append_assoc)
  then show ?case by auto
qed simp

lemma emitted_smooth:
  "\<forall>t \<in> set ts. ir_verdict (pt_result t) = WEI_INFER_VERDICT_SMOOTH \<Longrightarrow>
     (\<And>m. snd (c m) = WEI_INFER_VERDICT_SMOOTH) \<Longrightarrow> emitted c ts = []"
proof (induction ts arbitrary: c)
  case (Cons t ts)
  have "\<not> snd (tick_step (c (pt_mac t)) t)" "snd (fst (tick_step (c (pt_mac t)) t)) = WEI_INFER_VERDICT_SMOOTH"
    using Cons.prems by (auto simp: tick_step_def cadence_step_def)
  then show ?case using Cons by simp
qed simp

lemma sample_crowd_known: "reported_stations sample_crowd = (\<lambda>n. Mac (word_of_nat n) 0 0 0 0 0) ` {..<64}"
proof -
  let ?f = "\<lambda>n. Mac (word_of_nat n) 0 0 0 0 0"
  have "distinct (map ?f [0..<64])"
    by (auto simp: distinct_map inj_on_def word_of_nat_eq_iff take_bit_nat_eq_self)
  then have "first_seen (map ?f [0..<64]) = map ?f [0..<64]"
    by (simp add: first_seen_def distinct_remdups_id)
  moreover have "map pt_mac sample_crowd = map ?f [0..<64] @ map ?f (replicate 5 64)"
    by (simp add: sample_crowd_def sample_station_def comp_def)
  moreover obtain zs where "first_seen (map ?f [0..<64] @ map ?f (replicate 5 64)) = first_seen (map ?f [0..<64]) @ zs"
    using first_seen_append by blast
  ultimately have "reported_stations sample_crowd = ?f ` set [0..<64]"
    by (simp add: reported_stations_def WEI_TRACK_MAX_CLIENTS_def del: set_upt upt_rec_numeral)
  then show ?thesis by (simp add: atLeast0LessThan)
qed

theorem report_table_exhausts_witness:
  "\<exists>s b'. perf_run sample_crowd (perf_init, g_weid_bus_init\<lparr>bus_opened := True\<rparr>) = Some (s, b') \<and>
     bus_trace b' = bus_trace g_weid_bus_init"
proof -
  have "Mac 64 0 0 0 0 0 \<notin> reported_stations sample_crowd"
    unfolding sample_crowd_known
    using word_of_nat_eq_iff [of _ 64, where 'a = 8] by (auto simp: take_bit_nat_eq_self)
  then have "emitted cadence_start (filter (\<lambda>t. pt_mac t \<in> reported_stations sample_crowd) sample_crowd) = []"
    by (intro emitted_smooth)
      (auto simp: sample_crowd_def sample_station_def Perfreport.sample_tick_def cadence_start_def)
  moreover have "\<forall>t \<in> set sample_crowd. tick_delivers t"
    using sample_tick_delivers
    by (auto simp: sample_crowd_def sample_station_def tick_delivers_def report_text_def Perfreport.sample_tick_def)
  ultimately show ?thesis
    using report_table_exhausts [of sample_crowd "g_weid_bus_init\<lparr>bus_opened := True\<rparr>",
        THEN conjunct2, THEN conjunct2] by simp
qed

end
