(* ===== verification/Station.thy ===== *)
theory Station
  imports Infer
begin

text \<open>
  The inference engine as one machine per station (source/wei_infer.c, source/wei_track.c). The
  engine keeps its 64 stations in parallel arrays, a membership map and a separate tracker table.
  Here a station's share of all of them is read off as one value, its three events (heard,
  scored, expired) are written down without any table, and the engine is shown to run exactly
  these machines side by side: what one station sends, is scored and is judged never depends on
  another.
\<close>

section \<open>One station\<close>

record station =
  sn_state :: wei_infer_client
  sn_seen :: int
  sn_rec :: wei_conn_metric_record
  sn_ledger :: wei_infer_episode_log

text \<open>The map's part of a station, and the tracker's part: neither implies the other.\<close>

type_synonym station_view = "station option \<times> wei_track_entry option"

abbreviation track_view :: "wei_track_table \<Rightarrow> mac \<Rightarrow> wei_track_entry option" where
  "track_view t \<equiv> slot_view te_in_use te_mac (entries t)"

definition slot_station :: "wei_infer_engine \<Rightarrow> nat \<Rightarrow> station" where
  "slot_station eng i =
     \<lparr>sn_state = sl_state (map_slots (eng_map eng) ! i), sn_seen = sl_last_seen (map_slots (eng_map eng) ! i),
      sn_rec = eng_snapshot eng ! i, sn_ledger = eng_ledger eng ! i\<rparr>"

definition station_of :: "wei_infer_engine \<Rightarrow> mac \<Rightarrow> station_view" where
  "station_of eng m =
     (map_option (slot_station eng) (slot_of sl_in_use sl_mac (map_slots (eng_map eng)) m),
      track_view (eng_tracker eng) m)"

text \<open>A record of the station arrives.\<close>

definition station_heard :: "int \<Rightarrow> wei_conn_metric_record \<Rightarrow> station_view \<Rightarrow> station_view" where
  "station_heard t rec v =
     (case v of
        (None, e) \<Rightarrow> (Some \<lparr>sn_state = zero_infer_client, sn_seen = t, sn_rec = rec, sn_ledger = zero_episode_log\<rparr>, e)
      | (Some s, e) \<Rightarrow> (Some (s\<lparr>sn_seen := t, sn_rec := rec\<rparr>), e))"

text \<open>The tracker's word on the station: its entry is made on demand, driven and drained.\<close>

definition station_flag ::
    "wei_infer_policy \<Rightarrow> mac \<Rightarrow> int \<Rightarrow> wei_infer_client \<Rightarrow> wei_track_entry option \<Rightarrow> (wei_track_entry \<times> bool) option" where
  "station_flag p m t st e =
     (case wei_infer_phy_instability st of
        None \<Rightarrow> None
      | Some n \<Rightarrow>
          let e = (case e of None \<Rightarrow> track_fresh m t | Some e \<Rightarrow> e\<lparr>te_last_seen := t\<rparr>);
              (e, excursion) = wei_track_collect (wei_track_tick e (- n) t (- tput_var_band p) (tput_floor_ms p))
          in Some (e, n > tput_var_band p \<or> tr_duration_ms excursion > 0))"

definition station_verdict ::
    "wei_infer_policy \<Rightarrow> wei_conn_metric_record \<Rightarrow> wei_infer_client \<Rightarrow> wei_infer_result \<Rightarrow> wei_infer_client \<times> wei_infer_result" where
  "station_verdict p rec st out =
     (let (st, out) = wei_infer_flag_latency_risk p st out;
          out = wei_infer_flag_video_degrade p out
      in (st, if ir_verdict out = WEI_INFER_VERDICT_DEGRADED then out\<lparr>ir_dominant := wei_infer_attribute st rec\<rparr> else out))"

text \<open>One interval: the station's next state and the result and record it is reported with, if any.\<close>

definition station_score ::
    "scorer_env \<Rightarrow> wei_infer_policy \<Rightarrow> mac \<Rightarrow> int \<Rightarrow> station_view
      \<Rightarrow> (station_view \<times> (wei_infer_result \<times> wei_conn_metric_record) list) option" where
  "station_score env p m t v =
     (case v of
        (None, e) \<Rightarrow> Some (v, [])
      | (Some s, e) \<Rightarrow>
          (case wei_infer_score_client env (sn_state s) (sn_rec s) zero_infer_result of
             None \<Rightarrow> None
           | Some (scored, st, out) \<Rightarrow>
               if \<not> scored then Some (v, [])
               else map_option (\<lambda>(e, bad).
                   let (st, out) = station_verdict p (sn_rec s) st
                         (if bad then out\<lparr>ir_verdict := WEI_INFER_VERDICT_DEGRADED\<rparr> else out)
                   in ((Some (s\<lparr>sn_state := st, sn_ledger := wei_infer_ledger_update (sn_ledger s) (ir_verdict out) t\<rparr>), Some e),
                       [(out, sn_rec s)]))
                 (station_flag p m t st e)))"

text \<open>The two parts expire on their own clocks.\<close>

definition station_expire :: "int \<Rightarrow> station_view \<Rightarrow> station_view" where
  "station_expire t v =
     (case fst v of None \<Rightarrow> None | Some s \<Rightarrow> if t - sn_seen s \<le> WEI_TRACK_ABSENCE_DEFAULT_MS then Some s else None,
      case snd v of None \<Rightarrow> None | Some e \<Rightarrow> if t - te_last_seen e \<le> WEI_TRACK_ABSENCE_DEFAULT_MS then Some e else None)"

definition station_tick ::
    "scorer_env \<Rightarrow> wei_infer_policy \<Rightarrow> mac \<Rightarrow> int \<Rightarrow> station_view
      \<Rightarrow> (station_view \<times> (wei_infer_result \<times> wei_conn_metric_record) list) option" where
  "station_tick env p m t v = map_option (\<lambda>(v, rs). (station_expire t v, rs)) (station_score env p m t v)"

section \<open>The tables never refuse a small population\<close>

definition crowd_fits :: "mac set \<Rightarrow> wei_infer_engine \<Rightarrow> bool" where
  "crowd_fits M eng \<longleftrightarrow> finite M \<and> card M \<le> WEI_TRACK_MAX_CLIENTS \<and> (\<forall>m. station_of eng m \<noteq> (None, None) \<longrightarrow> m \<in> M)"

lemma crowd_fitsD:
  assumes "crowd_fits M eng"
  shows "finite M" "card M \<le> WEI_TRACK_MAX_CLIENTS"
    "set (table_keys sl_in_use sl_mac (map_slots (eng_map eng))) \<subseteq> M"
    "set (table_keys te_in_use te_mac (entries (eng_tracker eng))) \<subseteq> M"
  using assms
  by (auto simp: crowd_fits_def station_of_def slot_of_None_iff slot_view_None_iff)

lemma crowd_fits_views:
  "crowd_fits M eng \<Longrightarrow> (\<And>m. m \<notin> M \<Longrightarrow> station_of eng' m = station_of eng m) \<Longrightarrow> crowd_fits M eng'"
  unfolding crowd_fits_def by metis

lemma stage_station:
  assumes "engine_ok eng" "crowd_fits M eng" "m \<in> M"
  shows "station_of (wei_infer_stage_record ts eng m rec) m' =
      (if m' = m then station_heard (wei_infer_now_ms ts) rec (station_of eng m) else station_of eng m')"
    "crowd_fits M (wei_infer_stage_record ts eng m rec)"
proof -
  let ?slots = "map_slots (eng_map eng)" and ?t = "wei_infer_now_ms ts"
  have ok: "unique_keys sl_in_use sl_mac ?slots" "length ?slots = WEI_TRACK_MAX_CLIENTS"
    "length (eng_snapshot eng) = WEI_TRACK_MAX_CLIENTS" "list_all2 slot_ok ?slots (eng_ledger eng)"
    using assms(1) by (auto simp: engine_ok_def)
  note fits = crowd_fitsD [OF assms(2)]
  have view: "station_of (wei_infer_stage_record ts eng m rec) m' =
      (if m' = m then station_heard ?t rec (station_of eng m) else station_of eng m')" for m'
  proof (rule map_tbl.admit_cases [of ?slots m ?t])
    fix i assume i: "slot_of sl_in_use sl_mac ?slots m = Some i" "map_admit ?slots m ?t = (?slots[i := (?slots ! i)\<lparr>sl_last_seen := ?t\<rparr>], Some i)"
      "i < length ?slots" "sl_mac (?slots ! i) = m"
    have "j \<noteq> i" if "m' \<noteq> m" "slot_of sl_in_use sl_mac ?slots m' = Some j" for j
      using that i(4) slot_of_SomeD(3) by fastforce
    then show ?thesis
      using i map_tbl.admit_other [of m' m ?slots ?t] map_tbl.admit_slot_of [OF ok(1), of m ?t] ok(2,3)
      by (cases "slot_of sl_in_use sl_mac ?slots m'")
        (auto simp: station_of_def station_heard_def slot_station_def stage_admit)
  next
    fix i assume i: "slot_of sl_in_use sl_mac ?slots m = None" "map_admit ?slots m ?t = (?slots[i := map_claim m ?t (?slots ! i)], Some i)"
      "i < length ?slots" "\<not> sl_in_use (?slots ! i)"
    have "j \<noteq> i" if "slot_of sl_in_use sl_mac ?slots m' = Some j" for j
      using that i(4) slot_of_SomeD(2) by fastforce
    moreover have "?slots ! i = zero_infer_slot" "eng_ledger eng ! i = zero_episode_log"
      using list_all2_nthD [OF ok(4) i(3)] i(4) by (simp_all add: slot_ok_def)
    ultimately show ?thesis
      using i map_tbl.admit_other [of m' m ?slots ?t] map_tbl.admit_slot_of [OF ok(1), of m ?t] ok(2,3)
      by (cases "slot_of sl_in_use sl_mac ?slots m'")
        (auto simp: station_of_def station_heard_def slot_station_def stage_admit map_claim_def zero_infer_slot_def)
  next
    assume "map_admit ?slots m ?t = (?slots, None)"
    moreover have "\<exists>i. snd (map_admit ?slots m ?t) = Some i"
      using map_tbl.admit_room [OF ok(1) fits(1) _ assms(3) fits(3)] fits(2) ok(2) by auto
    ultimately show ?thesis by simp
  qed
  show "station_of (wei_infer_stage_record ts eng m rec) m' =
      (if m' = m then station_heard ?t rec (station_of eng m) else station_of eng m')" by (rule view)
  show "crowd_fits M (wei_infer_stage_record ts eng m rec)"
    using assms(2) by (rule crowd_fits_views) (use view assms(3) in auto)
qed

lemma flag_station:
  assumes wf: "track_table_wf tr" and M: "finite M" "card M \<le> WEI_TRACK_MAX_CLIENTS" "m \<in> M"
    "set (table_keys te_in_use te_mac (entries tr)) \<subseteq> M"
    and n: "wei_infer_phy_instability st = Some n" "0 \<le> n" "infer_policy_ok p"
  shows "\<exists>tr' e bad. wei_infer_flag_instability p tr m st out t =
        Some (tr', if bad then out\<lparr>ir_verdict := WEI_INFER_VERDICT_DEGRADED\<rparr> else out) \<and>
      station_flag p m t st (track_view tr m) = Some (e, bad) \<and>
      (\<forall>m'. track_view tr' m' = (if m' = m then Some e else track_view tr m'))"
proof -
  let ?es = "entries tr"
  have ok: "unique_keys te_in_use te_mac ?es" "length ?es = WEI_TRACK_MAX_CLIENTS" using wf by (simp_all add: track_table_wf_def)
  obtain k where k: "snd (track_admit ?es m t) = Some k"
    using track_tbl.admit_room [OF ok(1) M(1) _ M(3,4)] M(2) ok(2) by metis
  define es' where "es' = fst (track_admit ?es m t)"
  have adm: "track_admit ?es m t = (es', Some k)" using k by (simp add: es'_def prod_eq_iff)
  have get: "wei_track_get tr m t = (tr\<lparr>entries := es'\<rparr>, Some k)" using k by (simp add: track_get_admit es'_def)
  have es': "unique_keys te_in_use te_mac es'" "slot_of te_in_use te_mac es' m = Some k"
    using track_tbl.admit_unique [OF ok(1), of m t] track_tbl.admit_found [OF ok(1) adm] by (simp_all add: es'_def)
  note slot = track_tbl.admit_slot [OF adm]
  define e0 where "e0 = (case track_view tr m of None \<Rightarrow> track_fresh m t | Some e \<Rightarrow> e\<lparr>te_last_seen := t\<rparr>)"
  have e0: "es' ! k = e0"
    by (rule track_tbl.admit_cases [of ?es m t]) (use adm in \<open>auto simp: e0_def slot_view_def\<close>)
  define cx where "cx = wei_track_collect (wei_track_tick e0 (- n) t (- tput_var_band p) (tput_floor_ms p))"
  have key: "te_in_use (fst cx)" "te_mac (fst cx) = m"
    using slot e0 by (auto simp: cx_def wei_track_collect_def wei_track_tick_def Let_def)
  have "slot_view te_in_use te_mac (es'[k := fst cx]) m' = (if m' = m then Some (fst cx) else track_view tr m')" for m'
    using slot_view_update [OF es' key] track_tbl.admit_view_other [of m' m ?es t] by (simp add: es'_def)
  moreover have "neg_i32 n = Some (- n)" "neg_i32 (tput_var_band p) = Some (- tput_var_band p)"
    using n(2,3) by (simp_all add: neg_i32_def infer_policy_ok_def)
  ultimately show ?thesis
    using n(1) get e0 slot(1)
    by (intro exI [of _ "tr\<lparr>entries := es'[k := fst cx]\<rparr>"] exI [of _ "fst cx"]
        exI [of _ "n > tput_var_band p \<or> tr_duration_ms (snd cx) > 0"])
      (simp add: wei_infer_flag_instability_def station_flag_def cx_def e0_def [symmetric] case_prod_beta Let_def)
qed

section \<open>Scoring one slot is one station's interval\<close>

text \<open>A scored result keeps nothing of the one before it.\<close>

lemma score_client_fresh:
  "wei_infer_score_client env st rec out =
     map_option (\<lambda>(scored, st, o'). (scored, st, if scored then o' else out))
       (wei_infer_score_client env st rec zero_infer_result)"
proof (cases "metric_scoreable rec")
  case True
  have "out\<lparr>ir_score := a, ir_verdict := b, ir_dominant := c, ir_video_degrade := d, ir_pkt_err_pct := e\<rparr> =
      zero_infer_result\<lparr>ir_score := a, ir_verdict := b, ir_dominant := c, ir_video_degrade := d, ir_pkt_err_pct := e\<rparr>"
    for a b c d e by (cases out) (simp add: zero_infer_result_def)
  then show ?thesis using True
    by (cases "c_uint8_of (dadd (damped_score env st rec) (1 / 2))") (simp_all add: score_client_eq)
qed (simp add: score_client_gated)

lemma judge_station:
  assumes "engine_judge eng i st out t = Some eng'"
    and "wei_infer_flag_instability (eng_policy eng) (eng_tracker eng) (sl_mac (map_slots (eng_map eng) ! i)) st out t = Some (tr, out1)"
    and "station_verdict (eng_policy eng) (eng_snapshot eng ! i) st out1 = (st2, out2)"
  shows "eng' = eng\<lparr>eng_map := (eng_map eng)\<lparr>map_slots := (map_slots (eng_map eng))[i := (map_slots (eng_map eng) ! i)\<lparr>sl_state := st2\<rparr>]\<rparr>,
      eng_tracker := tr, eng_result := (eng_result eng)[i := out2],
      eng_ledger := (eng_ledger eng)[i := wei_infer_ledger_update (eng_ledger eng ! i) (ir_verdict out2) t]\<rparr>"
  using assms
  by (cases "wei_infer_flag_latency_risk (eng_policy eng) st out1")
    (auto simp: engine_judge_def station_verdict_def Let_def)

lemma score_station:
  assumes env: "libm_exp_ok env" and ok: "engine_ok eng" "rates_ok eng" and fits: "crowd_fits M eng"
    and i: "i < WEI_TRACK_MAX_CLIENTS" "sl_in_use (map_slots (eng_map eng) ! i)" "sl_mac (map_slots (eng_map eng) ! i) = m"
    and sc: "engine_score env eng i t = Some (scored, eng')"
  shows "station_score env (eng_policy eng) m t (station_of eng m) =
      Some (station_of eng' m, if scored then [(eng_result eng' ! i, eng_snapshot eng' ! i)] else [])"
    "m' \<noteq> m \<Longrightarrow> station_of eng' m' = station_of eng m'"
proof -
  let ?slots = "map_slots (eng_map eng)" and ?p = "eng_policy eng" and ?tr = "eng_tracker eng" and ?rec = "eng_snapshot eng ! i"
  have len: "unique_keys sl_in_use sl_mac ?slots" "length ?slots = WEI_TRACK_MAX_CLIENTS"
    "length (eng_snapshot eng) = WEI_TRACK_MAX_CLIENTS" "length (eng_result eng) = WEI_TRACK_MAX_CLIENTS"
    "length (eng_ledger eng) = WEI_TRACK_MAX_CLIENTS" "track_table_wf ?tr" "infer_policy_ok ?p"
    using ok(1) by (auto simp: engine_ok_def dest: list_all2_lengthD)
  have slot: "slot_of sl_in_use sl_mac ?slots m = Some i" using len(1,2) i by (intro slot_of_unique) auto
  note M = crowd_fitsD [OF fits]
  have m: "m \<in> M" using fits slot by (auto simp: crowd_fits_def station_of_def)
  have here: "station_of eng m = (Some (slot_station eng i), track_view ?tr m)"
    using slot by (simp add: station_of_def)
  obtain scored0 st out0 where s0: "wei_infer_score_client env (sl_state (?slots ! i)) ?rec zero_infer_result = Some (scored0, st, out0)"
    and flag: "scored0 = scored" "scored \<Longrightarrow> engine_judge eng i st out0 t = Some eng'" "\<not> scored \<Longrightarrow> eng' = eng"
    using sc i(2) score_client_fresh [of env "sl_state (?slots ! i)" ?rec "eng_result eng ! i"]
    by (auto simp: engine_score_def Let_def split: option.splits if_splits prod.splits)
  have "(station_score env ?p m t (station_of eng m) =
      Some (station_of eng' m, if scored then [(eng_result eng' ! i, eng_snapshot eng' ! i)] else [])) \<and>
    (m' \<noteq> m \<longrightarrow> station_of eng' m' = station_of eng m')"
  proof (cases scored)
    case False
    then show ?thesis using here s0 flag by (simp add: station_score_def slot_station_def)
  next
    case True
    have "metric_scoreable ?rec" using True flag(1) s0 score_client_gated by fastforce
    then have st: "st = scored_state (sl_state (?slots ! i)) ?rec"
      using s0 by (auto simp: score_client_eq)
    have cl: "client_ok (sl_state (?slots ! i))"
      using ok(1) i(1) by (auto simp: engine_ok_def list_all2_conv_all_nth slot_ok_def)
    have safe: "\<forall>v \<in> set (phy_samples st). uint v \<le> PHY_SAFE_KBPS"
      using ok(2) i(1) len(2,3) set_slide_subset [of WEI_INFER_PHY_WINDOW "phy_samples (sl_state (?slots ! i))" "phy_rate_kbps ?rec"]
      by (auto simp: st scored_state_samples [OF cl] rates_ok_def list_all_length)
    have "client_ok st" unfolding st using scored_state_ok(1) [OF cl] .
    then obtain n where n: "wei_infer_phy_instability st = Some n" "0 \<le> n"
      using phy_instability_some safe by (fastforce simp: client_ok_def)
    obtain tr e bad where fl: "wei_infer_flag_instability ?p ?tr m st out0 t =
        Some (tr, if bad then out0\<lparr>ir_verdict := WEI_INFER_VERDICT_DEGRADED\<rparr> else out0)"
      "station_flag ?p m t st (track_view ?tr m) = Some (e, bad)"
      "\<forall>m'. track_view tr m' = (if m' = m then Some e else track_view ?tr m')"
      using flag_station [OF len(6) M(1,2) m M(4) n len(7), of out0 t] by blast
    obtain st2 out2 where v: "station_verdict ?p ?rec st (if bad then out0\<lparr>ir_verdict := WEI_INFER_VERDICT_DEGRADED\<rparr> else out0) = (st2, out2)"
      by fastforce
    note eng' = judge_station [OF flag(2) [OF True] fl(1) [folded i(3)] v]
    have keys: "slot_of sl_in_use sl_mac (?slots[i := (?slots ! i)\<lparr>sl_state := st2\<rparr>]) k = slot_of sl_in_use sl_mac ?slots k" for k
      using i(1,2) len(1,2) slot i(3)
      by (cases "k = m") (auto intro!: slot_of_update_other slot_of_unique unique_keys_update_same)
    have "j \<noteq> i" if "m' \<noteq> m" "slot_of sl_in_use sl_mac ?slots m' = Some j" for j
      using that i(3) slot_of_SomeD(3) by fastforce
    then have "m' \<noteq> m \<Longrightarrow> station_of eng' m' = station_of eng m'"
      using fl(3) by (cases "slot_of sl_in_use sl_mac ?slots m'") (auto simp: eng' station_of_def slot_station_def keys)
    moreover have "station_of eng' m = (Some ((slot_station eng i)\<lparr>sn_state := st2,
        sn_ledger := wei_infer_ledger_update (eng_ledger eng ! i) (ir_verdict out2) t\<rparr>), Some e)"
      using fl(3) slot i(1) len by (simp add: eng' station_of_def slot_station_def keys)
    ultimately show ?thesis
      using here s0 flag(1) True fl(2) v i(1) len(4)
      by (simp add: station_score_def slot_station_def eng')
  qed
  then show "station_score env ?p m t (station_of eng m) =
      Some (station_of eng' m, if scored then [(eng_result eng' ! i, eng_snapshot eng' ! i)] else [])"
    "m' \<noteq> m \<Longrightarrow> station_of eng' m' = station_of eng m'" by auto
qed

section \<open>A tick is every station's interval\<close>

definition station_reports ::
    "mac \<Rightarrow> (nat \<times> mac \<times> wei_infer_result \<times> wei_conn_metric_record) list \<Rightarrow> (wei_infer_result \<times> wei_conn_metric_record) list" where
  "station_reports m rs = map snd (filter (\<lambda>r. fst r = m) (map snd rs))"

lemma station_reports_simps [simp]:
  "station_reports m [] = []"
  "station_reports m ((i, k, r, rec) # rs) = (if k = m then (r, rec) # station_reports m rs else station_reports m rs)"
  by (simp_all add: station_reports_def)

lemma sweep_station:
  assumes env: "libm_exp_ok env" and "engine_ok eng" "rates_ok eng" "crowd_fits M eng"
    and "\<forall>i \<in> set is. i < WEI_TRACK_MAX_CLIENTS" "distinct is" "sweep_scores env t is eng = Some (eng', rs)"
  shows "crowd_fits M eng' \<and>
    (case slot_of sl_in_use sl_mac (map_slots (eng_map eng)) m of
       Some i \<Rightarrow> if i \<in> set is
                 then station_score env (eng_policy eng) m t (station_of eng m) = Some (station_of eng' m, station_reports m rs)
                 else station_of eng' m = station_of eng m \<and> station_reports m rs = []
     | None \<Rightarrow> station_of eng' m = station_of eng m \<and> station_reports m rs = [])"
  using assms(2-)
proof (induction "is" arbitrary: eng rs)
  case Nil
  then show ?case by (simp split: option.split)
next
  case (Cons i "is")
  let ?slots = "map_slots (eng_map eng)"
  have i: "i < WEI_TRACK_MAX_CLIENTS" "\<forall>j \<in> set is. j < WEI_TRACK_MAX_CLIENTS" "distinct is" "i \<notin> set is"
    using Cons.prems(4,5) by auto
  obtain scored e where e: "engine_score env eng i t = Some (scored, e)" "engine_ok e" "rates_ok e"
      "eng_policy e = eng_policy eng" "sl_mac (map_slots (eng_map e) ! i) = sl_mac (?slots ! i)"
      "scored = (sl_in_use (?slots ! i) \<and> metric_scoreable (eng_snapshot eng ! i))" "scored \<or> e = eng"
    using engine_score_some [OF env Cons.prems(1,2) i(1), of t] by blast
  obtain rs' where rs': "sweep_scores env t is e = Some (eng', rs')"
    and rs: "rs = (if scored then (i, sl_mac (?slots ! i), eng_result e ! i, eng_snapshot e ! i) # rs' else rs')"
    using Cons.prems(6) e(1,5) by (auto split: option.splits)
  have slots: "slot_of sl_in_use sl_mac (map_slots (eng_map e)) k = slot_of sl_in_use sl_mac ?slots k" for k
    using slot_of_keys(1) [OF engine_score_keys [OF e(1)]] .
  have uniq: "unique_keys sl_in_use sl_mac ?slots" "length ?slots = WEI_TRACK_MAX_CLIENTS"
    using Cons.prems(1) by (simp_all add: engine_ok_def)
  show ?case
  proof (cases "sl_in_use (?slots ! i)")
    case False
    then have "e = eng" "\<not> scored" using e(6,7) by auto
    moreover have "slot_of sl_in_use sl_mac ?slots m \<noteq> Some i" using False slot_of_SomeD(2) by fastforce
    ultimately show ?thesis
      using Cons.IH [OF Cons.prems(1-3) i(2,3)] rs rs' by (auto split: option.splits)
  next
    case True
    let ?k = "sl_mac (?slots ! i)"
    have at: "slot_of sl_in_use sl_mac ?slots ?k = Some i" using uniq i(1) True by (intro slot_of_unique) auto
    note here = score_station [OF env Cons.prems(1-3) i(1) True refl e(1)]
    have mem: "station_of eng ?k \<noteq> (None, None)" using at by (simp add: station_of_def)
    have "crowd_fits M e"
      using Cons.prems(3) by (rule crowd_fits_views)
        (metis Cons.prems(3) crowd_fits_def here(2) mem)
    note IH = Cons.IH [OF e(2,3) this i(2,3) rs', unfolded slots e(4)]
    show ?thesis
    proof (cases "m = ?k")
      case True
      then show ?thesis using IH at i(4) here(1) rs by auto
    next
      case False
      moreover have "slot_of sl_in_use sl_mac ?slots m \<noteq> Some i" using False slot_of_SomeD(3) by fastforce
      ultimately show ?thesis using IH here(2) [of m] rs by (auto split: option.splits)
    qed
  qed
qed

lemma reap_station:
  assumes "engine_ok eng"
  shows "station_of (wei_infer_map_reap (eng\<lparr>eng_tracker := wei_track_reap (eng_tracker eng) t WEI_TRACK_ABSENCE_DEFAULT_MS\<rparr>) t) m =
    station_expire t (station_of eng m)"
proof -
  let ?e = "eng\<lparr>eng_tracker := wei_track_reap (eng_tracker eng) t WEI_TRACK_ABSENCE_DEFAULT_MS\<rparr>"
  let ?slots = "map_slots (eng_map eng)"
  have ok: "engine_ok ?e" using assms by (rule engine_ok_tracker)
  note R = reap_prefix [OF ok order_refl, of t, folded wei_infer_map_reap_def]
  have uniq: "unique_keys sl_in_use sl_mac ?slots" "track_table_wf (eng_tracker eng)" using assms by (simp_all add: engine_ok_def)
  have slots: "slot_of sl_in_use sl_mac (map_slots (eng_map (wei_infer_map_reap ?e t))) m =
      (case slot_of sl_in_use sl_mac ?slots m of
         None \<Rightarrow> None | Some i \<Rightarrow> if t - sl_last_seen (?slots ! i) \<le> WEI_TRACK_ABSENCE_DEFAULT_MS then Some i else None)"
    using map_tbl.reap_slot_of [OF uniq(1)] by (simp add: map_reap_slots [OF ok])
  have kept: "slot_station (wei_infer_map_reap ?e t) i = slot_station eng i"
    if "t - sl_last_seen (?slots ! i) \<le> WEI_TRACK_ABSENCE_DEFAULT_MS" for i
    using R [of i] that by (simp add: slot_station_def slot_expired_def)
  have "entries (eng_tracker (wei_infer_map_reap ?e t)) = track_reap_list (entries (eng_tracker eng)) t WEI_TRACK_ABSENCE_DEFAULT_MS"
    using map_reap_frame(3) [OF ok, of t] by (simp add: track_reap_list_def wei_track_reap_def)
  moreover have "unique_keys te_in_use te_mac (entries (eng_tracker eng))" using uniq(2) by (simp add: track_table_wf_def)
  ultimately have track: "track_view (eng_tracker (wei_infer_map_reap ?e t)) m =
      (case track_view (eng_tracker eng) m of
         None \<Rightarrow> None | Some e \<Rightarrow> if t - te_last_seen e \<le> WEI_TRACK_ABSENCE_DEFAULT_MS then Some e else None)"
    using track_tbl.reap_view by simp
  show ?thesis
    using kept
    by (cases "slot_of sl_in_use sl_mac ?slots m")
      (auto simp: station_of_def station_expire_def slots track slot_station_def)
qed

lemma tick_station:
  assumes env: "libm_exp_ok env" and ok: "engine_ok eng" "rates_ok eng" "crowd_fits M eng"
    and tick: "engine_tick env ts eng = Some (eng', rs)"
  shows "station_tick env (eng_policy eng) m (wei_infer_now_ms ts) (station_of eng m) =
      Some (station_of eng' m, station_reports m rs)"
    "crowd_fits M eng'" "eng_policy eng' = eng_policy eng"
proof -
  let ?t = "wei_infer_now_ms ts" and ?slots = "map_slots (eng_map eng)"
  obtain e where e: "sweep_scores env ?t [0..<WEI_TRACK_MAX_CLIENTS] eng = Some (e, rs)"
    and eng': "eng' = wei_infer_map_reap (e\<lparr>eng_tracker := wei_track_reap (eng_tracker e) ?t WEI_TRACK_ABSENCE_DEFAULT_MS\<rparr>) ?t"
    using tick by (auto simp: engine_tick_def)
  have e_ok: "engine_ok e" "eng_policy e = eng_policy eng"
    using sweep_scores_some [OF env ok(1,2), of "[0..<WEI_TRACK_MAX_CLIENTS]" ?t] e by auto
  note S = sweep_station [OF env ok _ _ e]
  have len: "length ?slots = WEI_TRACK_MAX_CLIENTS" using ok(1) by (simp add: engine_ok_def)
  have reap: "station_of eng' k = station_expire ?t (station_of e k)" for k
    unfolding eng' by (rule reap_station [OF e_ok(1)])
  have "station_score env (eng_policy eng) m ?t (station_of eng m) = Some (station_of e m, station_reports m rs)"
  proof (cases "slot_of sl_in_use sl_mac ?slots m")
    case None
    then show ?thesis using S [of m] by (simp add: station_score_def station_of_def)
  next
    case (Some i)
    then show ?thesis using S [of m] slot_of_SomeD(1) [OF Some] len by simp
  qed
  then show "station_tick env (eng_policy eng) m ?t (station_of eng m) = Some (station_of eng' m, station_reports m rs)"
    by (simp add: station_tick_def reap)
  have "k \<in> M" if "station_of eng' k \<noteq> (None, None)" for k
  proof -
    have "station_of e k \<noteq> (None, None)" using that by (auto simp: reap station_expire_def)
    then show ?thesis using S [of k] by (simp add: crowd_fits_def)
  qed
  then show "crowd_fits M eng'" using ok(3) by (simp add: crowd_fits_def)
  show "eng_policy eng' = eng_policy eng"
    using e_ok map_reap_frame(4) [OF engine_ok_tracker [OF e_ok(1)]] by (simp add: eng')
qed

section \<open>The engine's history\<close>

text \<open>
  What the engine is fed: records, each with the clock reading of its call, and ticks. A tick
  carries a tag, returned with each client it scores, for what its caller does with the result.
\<close>

datatype 'w feed = STAGE c_timespec mac wei_conn_metric_record | TICK 'w scorer_env c_timespec

fun engine_history ::
    "'w feed list \<Rightarrow> wei_infer_engine
      \<Rightarrow> (wei_infer_engine \<times> ('w \<times> nat \<times> mac \<times> wei_infer_result \<times> wei_conn_metric_record) list) option" where
  "engine_history [] eng = Some (eng, [])"
| "engine_history (STAGE ts m rec # fs) eng = engine_history fs (wei_infer_stage_record ts eng m rec)"
| "engine_history (TICK w env ts # fs) eng =
     (case engine_tick env ts eng of
        None \<Rightarrow> None
      | Some (eng, rs) \<Rightarrow> map_option (\<lambda>(eng, hist). (eng, map (Pair w) rs @ hist)) (engine_history fs eng))"

text \<open>A station's share of a history: what was reported for it, each with the tick that did.\<close>

definition station_log ::
    "mac \<Rightarrow> ('w \<times> nat \<times> mac \<times> wei_infer_result \<times> wei_conn_metric_record) list
      \<Rightarrow> ('w \<times> wei_infer_result \<times> wei_conn_metric_record) list" where
  "station_log m hist = map (\<lambda>(w, i, k, r). (w, r)) (filter (\<lambda>(w, i, k, r). k = m) hist)"

lemma station_log_simps [simp]:
  "station_log m [] = []"
  "station_log m (map (Pair w) rs @ hist) = map (Pair w) (station_reports m rs) @ station_log m hist"
proof -
  show "station_log m (map (Pair w) rs @ hist) = map (Pair w) (station_reports m rs) @ station_log m hist"
    by (induction rs) (auto simp: station_log_def)
qed (simp add: station_log_def)

fun station_history ::
    "wei_infer_policy \<Rightarrow> mac \<Rightarrow> 'w feed list \<Rightarrow> station_view
      \<Rightarrow> (station_view \<times> ('w \<times> wei_infer_result \<times> wei_conn_metric_record) list) option" where
  "station_history p m [] v = Some (v, [])"
| "station_history p m (STAGE ts k rec # fs) v =
     station_history p m fs (if k = m then station_heard (wei_infer_now_ms ts) rec v else v)"
| "station_history p m (TICK w env ts # fs) v =
     (case station_tick env p m (wei_infer_now_ms ts) v of
        None \<Rightarrow> None
      | Some (v, rs) \<Rightarrow> map_option (\<lambda>(v, hist). (v, map (Pair w) rs @ hist)) (station_history p m fs v))"

text \<open>What the runs below ask of their inputs: a sane \<open>exp\<close> and rates up to the engine's bound.\<close>

definition feed_ok :: "'w feed \<Rightarrow> bool" where
  "feed_ok f =
     (case f of STAGE ts m rec \<Rightarrow> uint (phy_rate_kbps rec) \<le> PHY_SAFE_KBPS | TICK w env ts \<Rightarrow> libm_exp_ok env)"

definition fed_stations :: "'w feed list \<Rightarrow> mac set" where
  "fed_stations fs = {m. \<exists>ts rec. STAGE ts m rec \<in> set fs}"

lemma fed_stations_finite: "finite (fed_stations fs)"
proof -
  have "fed_stations fs \<subseteq> (\<lambda>f. case f of STAGE ts m rec \<Rightarrow> m | TICK w env ts \<Rightarrow> zero_mac) ` set fs"
    by (force simp: fed_stations_def)
  then show ?thesis by (rule finite_subset) simp
qed

lemma history_station:
  assumes "engine_ok eng" "rates_ok eng" "crowd_fits M eng" "list_all feed_ok fs" "fed_stations fs \<subseteq> M"
  shows "\<exists>eng' hist. engine_history fs eng = Some (eng', hist) \<and> engine_ok eng' \<and> rates_ok eng' \<and>
    crowd_fits M eng' \<and> eng_policy eng' = eng_policy eng \<and>
    station_history (eng_policy eng) m fs (station_of eng m) =
      Some (station_of eng' m, station_log m hist)"
  using assms
proof (induction fs arbitrary: eng)
  case (Cons f fs)
  have fs: "list_all feed_ok fs" "fed_stations fs \<subseteq> M" using Cons.prems(4,5) by (auto simp: fed_stations_def)
  show ?case
  proof (cases f)
    case (STAGE ts k rec)
    let ?eng = "wei_infer_stage_record ts eng k rec"
    have "k \<in> M" "uint (phy_rate_kbps rec) \<le> PHY_SAFE_KBPS"
      using Cons.prems(4,5) STAGE by (auto simp: fed_stations_def feed_ok_def)
    note st = stage_ok [OF Cons.prems(1), of ts k rec] stage_rates [OF Cons.prems(2) this(2), of ts k]
      stage_station [OF Cons.prems(1,3) this(1), of ts rec]
    have pol: "eng_policy ?eng = eng_policy eng" by (simp add: stage_admit)
    show ?thesis
      using Cons.IH [OF st(1,2,4) fs, unfolded pol] st(3) [of m] STAGE by (cases "m = k") auto
  next
    case (TICK w env ts)
    have env: "libm_exp_ok env" using Cons.prems(4) TICK by (simp add: feed_ok_def)
    obtain e rs where e: "engine_tick env ts eng = Some (e, rs)" "engine_ok e" "rates_ok e"
      using engine_tick_some [OF env Cons.prems(1,2)] by blast
    note t = tick_station [OF env Cons.prems(1-3) e(1)]
    obtain eng' hist where IH: "engine_history fs e = Some (eng', hist)" "engine_ok eng'" "rates_ok eng'"
      "crowd_fits M eng'" "eng_policy eng' = eng_policy eng"
      "station_history (eng_policy eng) m fs (station_of e m) = Some (station_of eng' m, station_log m hist)"
      using Cons.IH [OF e(2,3) t(2) fs, unfolded t(3)] by blast
    show ?thesis using IH e(1) t(1) TICK by simp
  qed
qed simp

lemma create_station:
  assumes "wei_infer_create (Some p) calloc_ok = Some eng"
  shows "station_of eng m = (None, None)" "eng_policy eng = p"
proof -
  have "table_keys sl_in_use sl_mac (replicate n zero_infer_slot) = []"
    "table_keys te_in_use te_mac (replicate n zero_track_entry) = []" for n
    by (simp_all add: table_keys_def zero_infer_slot_def zero_track_entry_def)
  then show "station_of eng m = (None, None)" "eng_policy eng = p"
    using assms
    by (auto simp: wei_infer_create_def station_of_def wei_track_init_def zero_track_table_def
        slot_of_None_iff slot_view_None_iff split: if_splits)
qed

text \<open>A station's machine sees its own records and the ticks.\<close>

definition concerns :: "mac \<Rightarrow> 'w feed \<Rightarrow> bool" where
  "concerns m f = (case f of STAGE ts k rec \<Rightarrow> k = m | TICK w env ts \<Rightarrow> True)"

lemma station_history_own: "station_history p m (filter (concerns m) fs) v = station_history p m fs v"
  by (induction p m fs v rule: station_history.induct)
    (auto simp: concerns_def split: option.splits)

text \<open>
  C3. Stations are isolated. From creation, for any sequence of records and ticks with at most
  64 distinct stations, the engine never fails, and what it reports for a station, tick by tick,
  and the state it ends in for it are those of that station's own machine, run without any table
  over the station's own records and the ticks: no record of another station, and no slot another
  station had before, changes a score, a verdict, an attribution or an episode.
\<close>

theorem stations_isolated:
  assumes "wei_infer_create (Some p) calloc_ok = Some eng" "infer_policy_ok p"
    and "list_all feed_ok fs" "card (fed_stations fs) \<le> 64"
  shows "\<exists>eng' hist. engine_history fs eng = Some (eng', hist) \<and>
    station_history p m (filter (concerns m) fs) (None, None) =
      Some (station_of eng' m, station_log m hist)"
proof -
  have "crowd_fits (fed_stations fs) eng"
    using assms(4) create_station(1) [OF assms(1)] fed_stations_finite [of fs]
    by (simp add: crowd_fits_def WEI_TRACK_MAX_CLIENTS_def)
  from history_station [OF create_ok [OF assms(1,2)] this assms(3) order_refl, of m]
  show ?thesis by (auto simp: create_station [OF assms(1)] station_history_own)
qed

text \<open>Two stations heard and scored: the first one's machine sees its record and the tick.\<close>

definition sample_feed :: "unit feed list" where
  "sample_feed = [STAGE \<lparr>tv_sec = 5, tv_nsec = 0\<rparr> (Mac 1 0 0 0 0 0) zero_metric_record,
     STAGE \<lparr>tv_sec = 5, tv_nsec = 9\<rparr> (Mac 2 0 0 0 0 0) (zero_metric_record\<lparr>phy_rate_kbps := 1000\<rparr>),
     TICK () exact_env \<lparr>tv_sec = 6, tv_nsec = 0\<rparr>]"

theorem stations_isolated_witness:
  "\<exists>eng' hist. engine_history sample_feed (the (wei_infer_create (Some sample_policy) True)) = Some (eng', hist) \<and>
     station_history sample_policy (Mac 1 0 0 0 0 0)
       [STAGE \<lparr>tv_sec = 5, tv_nsec = 0\<rparr> (Mac 1 0 0 0 0 0) zero_metric_record, TICK () exact_env \<lparr>tv_sec = 6, tv_nsec = 0\<rparr>]
       (None, None) =
     Some (station_of eng' (Mac 1 0 0 0 0 0), station_log (Mac 1 0 0 0 0 0) hist)"
proof -
  obtain eng where eng: "wei_infer_create (Some sample_policy) True = Some eng" by (simp add: wei_infer_create_def)
  have "list_all feed_ok sample_feed"
    by (simp add: sample_feed_def feed_ok_def zero_metric_record_def PHY_SAFE_KBPS_def)
  moreover have "fed_stations sample_feed = {Mac 1 0 0 0 0 0, Mac 2 0 0 0 0 0}"
    by (auto simp: fed_stations_def sample_feed_def)
  ultimately show ?thesis
    using stations_isolated [OF eng sample_policy_ok, of sample_feed "Mac 1 0 0 0 0 0"] eng
    by (simp add: sample_feed_def concerns_def)
qed

end
