(* ===== verification/Run.thy ===== *)
theory Run
  imports Pipeline Report_Table Station
begin

text \<open>
  The daemon's body from the socket to the bus, as one function of its inputs (source/wei_poll.c,
  source/weid_wire.c, source/wei_infer.c, source/wei_perfreport.c). The loop is first reduced to
  the sequence of callbacks it makes, which depends on the kernel's answers and the clock alone;
  the callbacks are then reduced to what the engine is fed and to the publish calls; and the two
  are put together with the per-station machine and the abstract report cadence.
\<close>

section \<open>The loop is its callbacks\<close>

datatype ('e, 't) callback = CB_DATAGRAM 'e "u8 list" | CB_TICK 't

fun drain_calls :: "'e recv_result list \<Rightarrow> ('e, 't) callback list" where
  "drain_calls [] = []"
| "drain_calls (RECV_EINTR # rs) = drain_calls rs"
| "drain_calls (RECV_FAIL # rs) = []"
| "drain_calls (RECV d e # rs) =
     (if take WEI_DGRAM_MAX d = [] then drain_calls rs else CB_DATAGRAM e (take WEI_DGRAM_MAX d) # drain_calls rs)"

text \<open>The deadline and the period are followed as in the schedule of ticks.\<close>

fun loop_calls :: "int \<Rightarrow> u32 \<Rightarrow> ('e, 't) loop_input list \<Rightarrow> ('e, 't) callback list" where
  "loop_calls d p [] = []"
| "loop_calls d p (RETUNE q # is) = loop_calls d (if q = 0 then p else q) is"
| "loop_calls d p (ITER ev # is) =
     (case ev_poll ev of
        POLL_EINTR \<Rightarrow> loop_calls d p is
      | POLL_FAIL \<Rightarrow> []
      | POLL_DONE err r \<Rightarrow>
          if err then []
          else (if r then drain_calls (ev_recv ev) else []) @
               (if wei_now_ms (ev_after ev) \<ge> d then CB_TICK (ev_tick ev) # loop_calls (wei_now_ms (ev_after ev) + uint p) p is
                else loop_calls d p is))"

text \<open>The callbacks of one iteration entered with deadline \<open>d\<close>.\<close>

definition iter_calls :: "int \<Rightarrow> ('e, 't) poll_event \<Rightarrow> ('e, 't) callback list" where
  "iter_calls d ev =
     (case ev_poll ev of
        POLL_DONE False r \<Rightarrow>
          (if r then drain_calls (ev_recv ev) else []) @
          (if wei_now_ms (ev_after ev) \<ge> d then [CB_TICK (ev_tick ev)] else [])
      | _ \<Rightarrow> [])"

fun run_calls ::
    "('e \<Rightarrow> u8 list \<Rightarrow> 's \<Rightarrow> 's option) \<Rightarrow> ('t \<Rightarrow> 's \<Rightarrow> 's option) \<Rightarrow> ('e, 't) callback list \<Rightarrow> 's \<Rightarrow> 's option" where
  "run_calls dg tk [] s = Some s"
| "run_calls dg tk (CB_DATAGRAM e buf # cs) s = (case dg e buf s of None \<Rightarrow> None | Some s \<Rightarrow> run_calls dg tk cs s)"
| "run_calls dg tk (CB_TICK t # cs) s = (case tk t s of None \<Rightarrow> None | Some s \<Rightarrow> run_calls dg tk cs s)"

lemma run_calls_append:
  "run_calls dg tk (cs @ ds) s = (case run_calls dg tk cs s of None \<Rightarrow> None | Some s \<Rightarrow> run_calls dg tk ds s)"
  by (induction dg tk cs s rule: run_calls.induct) (auto split: option.splits)

lemma drain_run_calls:
  assumes "on_datagram ctx = Some dg" "RECV_FAIL \<in> set rs"
  shows "wei_sock_drain ctx rs s = run_calls dg tk (drain_calls rs) s"
  using assms
  by (induction ctx rs s rule: wei_sock_drain.induct) (auto simp: Let_def split: option.splits)

text \<open>The context of a live loop keeps its callbacks; the outcome's state.\<close>

definition outcome :: "'a loop_outcome \<Rightarrow> 'a" where
  "outcome out = (case out of LOOP_RUNNING a \<Rightarrow> a | LOOP_RETURNED a \<Rightarrow> a)"

lemma outcome_simps [simp]: "outcome (LOOP_RUNNING a) = a" "outcome (LOOP_RETURNED a) = a"
  by (simp_all add: outcome_def)

lemma deadline_calls:
  assumes "on_tick (ls_ctx st) = Some tk"
  shows "case poll_deadline ev st of
      None \<Rightarrow> wei_now_ms (ev_after ev) \<ge> ls_next_tick st \<and> tk (ev_tick ev) (ls_user st) = None
    | Some st' \<Rightarrow>
        on_tick (ls_ctx st') = on_tick (ls_ctx st) \<and> on_datagram (ls_ctx st') = on_datagram (ls_ctx st) \<and>
        tick_ms (ls_ctx st') = tick_ms (ls_ctx st) \<and>
        (if wei_now_ms (ev_after ev) \<ge> ls_next_tick st
         then tk (ev_tick ev) (ls_user st) = Some (ls_user st') \<and> ls_next_tick st' = wei_now_ms (ev_after ev) + uint (tick_ms (ls_ctx st))
         else ls_user st' = ls_user st \<and> ls_next_tick st' = ls_next_tick st)"
proof -
  obtain rc ctx tr where r: "wei_poll_revive_socket (ev_stat ev) (ev_sock ev) (ls_ctx st) (ls_trace st) = (rc, ctx, tr)"
    by (metis prod_cases3)
  show ?thesis using revive_frame [OF r] assms by (auto simp: poll_deadline_def Let_def r split: option.splits)
qed

lemma loop_run_calls:
  assumes "on_datagram (ls_ctx st) = Some dg" "on_tick (ls_ctx st) = Some tk"
    and "\<forall>ev. ITER ev \<in> set is \<longrightarrow> RECV_FAIL \<in> set (ev_recv ev)"
  shows "map_option (\<lambda>out. ls_user (outcome out)) (poll_loop is st) =
    run_calls dg tk (loop_calls (ls_next_tick st) (tick_ms (ls_ctx st)) is) (ls_user st)"
  using assms
proof (induction "is" arbitrary: st)
  case (Cons i "is")
  have rest: "\<forall>ev. ITER ev \<in> set is \<longrightarrow> RECV_FAIL \<in> set (ev_recv ev)" using Cons.prems(3) by simp
  show ?case
  proof (cases i)
    case (RETUNE p)
    then show ?thesis
      using Cons.IH [of "st\<lparr>ls_ctx := the (snd (wei_poll_retune (Some (ls_ctx st)) p))\<rparr>"] Cons.prems(1,2) rest
      by (simp add: wei_poll_retune_def split: if_splits)
  next
    case (ITER ev)
    let ?st = "st\<lparr>ls_trace := ls_trace st @ [SYS_poll (pc_fd (ls_ctx st)) (poll_timeout (ls_next_tick st) (wei_now_ms (ev_now ev)))]\<rparr>"
    show ?thesis
    proof (cases "ev_poll ev")
      case POLL_EINTR
      then show ?thesis using ITER Cons.IH [of ?st] Cons.prems(1,2) rest by (simp add: poll_iter_def Let_def)
    next
      case POLL_FAIL
      then show ?thesis using ITER by (simp add: poll_iter_def Let_def)
    next
      case (POLL_DONE err r)
      show ?thesis
      proof (cases err)
        case True
        then show ?thesis using ITER POLL_DONE by (simp add: poll_iter_def Let_def)
      next
        case False
        have drain: "(if r then wei_sock_drain (ls_ctx st) (ev_recv ev) (ls_user st) else Some (ls_user st)) =
            run_calls dg tk (if r then drain_calls (ev_recv ev) else []) (ls_user st)"
          using drain_run_calls [OF Cons.prems(1), of "ev_recv ev" "ls_user st" tk] Cons.prems(3) ITER by simp
        show ?thesis
        proof (cases "run_calls dg tk (if r then drain_calls (ev_recv ev) else []) (ls_user st)")
          case None
          then show ?thesis using ITER POLL_DONE False drain
            by (cases r) (simp_all add: poll_iter_def Let_def run_calls_append)
        next
          case (Some s)
          let ?st2 = "?st\<lparr>ls_user := s\<rparr>"
          have iter: "poll_iter ev st = map_option LOOP_RUNNING (poll_deadline ev ?st2)"
            using POLL_DONE False drain Some by (cases r; cases st) (simp_all add: poll_iter_def Let_def)
          note D = deadline_calls [of ?st2 tk ev]
          show ?thesis
          proof (cases "poll_deadline ev ?st2")
            case None
            then show ?thesis using D ITER POLL_DONE False Some Cons.prems(2) iter
              by (simp add: run_calls_append)
          next
            case (Some st3)
            then show ?thesis
              using D ITER POLL_DONE False Cons.prems(1,2) iter Cons.IH [of st3] rest
                \<open>run_calls dg tk (if r then drain_calls (ev_recv ev) else []) (ls_user st) = _\<close>
              by (simp add: run_calls_append split: if_splits)
          qed
        qed
      qed
    qed
  qed
qed simp

section \<open>What the callbacks feed the engine\<close>

text \<open>The entries a datagram is accepted with.\<close>

definition received :: "wire_layout \<Rightarrow> u8 list \<Rightarrow> stats_arg list" where
  "received lay buf =
     (case weid_frame_check lay buf of
        Some (ACCEPT k) \<Rightarrow>
          map (\<lambda>i. decode_stats_arg lay (take (sizeof_stats_arg lay) (drop (TLV_VALUE_OFFSET + i * sizeof_stats_arg lay) buf))) [0..<k]
      | _ \<Rightarrow> [])"

fun stage_feed :: "(nat \<Rightarrow> c_timespec) \<Rightarrow> nat \<Rightarrow> stats_arg list \<Rightarrow> 'w feed list" where
  "stage_feed clk i [] = []"
| "stage_feed clk i (st # sts) = STAGE (clk i) (cli_MACAddress st) (weid_wire_map_record st) # stage_feed clk (Suc i) sts"

fun call_feed :: "wire_layout \<Rightarrow> (nat \<Rightarrow> c_timespec, 'j tick_input) callback \<Rightarrow> (nat \<Rightarrow> 'j tick_world) feed list" where
  "call_feed lay (CB_DATAGRAM clk buf) = stage_feed clk 0 (received lay buf)"
| "call_feed lay (CB_TICK t) = [TICK (ti_world t) (ti_env t) (ti_clock t)]"

abbreviation feed_of :: "wire_layout \<Rightarrow> (nat \<Rightarrow> c_timespec, 'j tick_input) callback list \<Rightarrow> (nat \<Rightarrow> 'j tick_world) feed list" where
  "feed_of lay cs \<equiv> concat (map (call_feed lay) cs)"

lemma received_frame:
  assumes "0 < sizeof_stats_arg lay" "frame_entries_ok lay es"
  shows "received lay (stats_frame lay es) = map (decode_stats_arg lay) es"
proof (rule nth_equalityI)
  have check: "weid_frame_check lay (stats_frame lay es) = Some (ACCEPT (length es))"
    using assms by (rule frame_check_stats_frame)
  then show "length (received lay (stats_frame lay es)) = length (map (decode_stats_arg lay) es)"
    by (simp add: received_def)
  fix i assume "i < length (received lay (stats_frame lay es))"
  then have i: "i < length es" by (simp add: received_def check)
  then show "received lay (stats_frame lay es) ! i = map (decode_stats_arg lay) es ! i"
    using read_entry [OF assms(2) i] by (simp add: received_def check read_bytes_def split: if_splits)
qed

lemma datagram_stages:
  assumes "0 < sizeof_stats_arg lay" "wd_engine ctx = Some eng"
  shows "weid_on_datagram lay clk buf ctx = Some (ctx\<lparr>wd_engine := Some (stage_all clk 0 (received lay buf) eng)\<rparr>)"
proof -
  obtain c where c: "weid_frame_check lay buf = Some c" using frame_check_total by blast
  show ?thesis
  proof (cases c)
    case (ACCEPT k)
    then obtain es where es: "frame_entries_ok lay es" "buf = stats_frame lay es"
      using frame_check_accept(2) [OF _ assms(1), of buf k] c by auto
    then show ?thesis
      using received_frame [OF assms(1) es(1)] frame_check_stats_frame [OF assms(1) es(1)]
        stage_entries_frame [of lay "[]" es clk ctx] assms(2)
      by (simp add: weid_on_datagram_def)
  qed (use c assms(2) in \<open>simp_all add: weid_on_datagram_def received_def\<close>)
qed

lemma history_stage_feed:
  "engine_history (stage_feed clk i sts @ fs) eng = engine_history fs (stage_all clk i sts eng)"
  by (induction sts arbitrary: i eng) simp_all

lemma history_datagram:
  "wd_engine ctx = Some eng \<Longrightarrow> 0 < sizeof_stats_arg lay \<Longrightarrow>
     engine_history (feed_of lay (CB_DATAGRAM clk buf # cs)) eng =
       engine_history (feed_of lay cs) (the (wd_engine (the (weid_on_datagram lay clk buf ctx))))"
  by (simp add: datagram_stages history_stage_feed)

abbreviation publishes :: "((nat \<Rightarrow> 'j tick_world) \<times> nat \<times> mac \<times> wei_infer_result \<times> wei_conn_metric_record) list \<Rightarrow> 'j perf_tick list" where
  "publishes hist \<equiv> map (\<lambda>(w, r). report_tick w r) hist"

text \<open>
  The callbacks run as the engine's history, which no report influences, and the publish calls
  of the clients it scored, in order.
\<close>

lemma callbacks_split:
  fixes cs :: "(nat \<Rightarrow> c_timespec, 'j tick_input) callback list"
  assumes "0 < sizeof_stats_arg lay" "engine_history (feed_of lay cs) eng = Some (eng', hist)" "perf_ok ps"
  shows "run_calls (weid_on_datagram lay) weid_on_tick cs \<lparr>wd_engine = Some eng, wd_perf = ps, wd_bus = b\<rparr> =
    map_option (\<lambda>(ps, b). \<lparr>wd_engine = Some eng', wd_perf = ps, wd_bus = b\<rparr>) (perf_run (publishes hist) (ps, b))"
  using assms(2,3)
proof (induction cs arbitrary: eng hist ps b)
  case (Cons c cs)
  show ?case
  proof (cases c)
    case (CB_DATAGRAM clk buf)
    have "engine_history (feed_of lay cs) (stage_all clk 0 (received lay buf) eng) = Some (eng', hist)"
      using Cons.prems(1) CB_DATAGRAM by (simp add: history_stage_feed)
    from Cons.IH [OF this Cons.prems(2)] show ?thesis
      using CB_DATAGRAM datagram_stages [OF assms(1), of "\<lparr>wd_engine = Some eng, wd_perf = ps, wd_bus = b\<rparr>" eng clk buf]
      by simp
  next
    case (CB_TICK t)
    obtain e rs hist2 where e: "engine_tick (ti_env t) (ti_clock t) eng = Some (e, rs)"
      "engine_history (feed_of lay cs) e = Some (eng', hist2)" "hist = map (Pair (ti_world t)) rs @ hist2"
      using Cons.prems(1) CB_TICK by (auto split: option.splits)
    obtain ps1 b1 where p: "perf_run (map (report_tick (ti_world t)) rs) (ps, b) = Some (ps1, b1)" "perf_ok ps1"
      using perf_run_total [OF Cons.prems(2)] by blast
    have "weid_on_tick t \<lparr>wd_engine = Some eng, wd_perf = ps, wd_bus = b\<rparr> =
        Some \<lparr>wd_engine = Some e, wd_perf = ps1, wd_bus = b1\<rparr>"
      using p(1) by (simp add: weid_on_tick_def tick_split [OF Cons.prems(2)] e(1))
    moreover have "publishes hist = map (report_tick (ti_world t)) rs @ publishes hist2"
      using e(3) by (simp add: comp_def)
    ultimately show ?thesis
      using Cons.IH [OF e(2) p(2), of b1] CB_TICK p(1) by (simp add: perf_run_append)
  qed
qed simp

section \<open>Inputs the loop accepts feed the engine sanely\<close>

lemma drain_calls_set: "CB_DATAGRAM e buf \<in> set (drain_calls rs) \<Longrightarrow> \<exists>d. RECV d e \<in> set rs \<and> buf = take WEI_DGRAM_MAX d"
  by (induction rs rule: drain_calls.induct) (auto split: if_splits)

lemma drain_calls_ticks: "CB_TICK t \<notin> set (drain_calls rs)"
  by (induction rs rule: drain_calls.induct) auto

lemma loop_calls_set:
  "CB_DATAGRAM e buf \<in> set (loop_calls d p is) \<Longrightarrow>
     \<exists>ev x. ITER ev \<in> set is \<and> RECV x e \<in> set (ev_recv ev) \<and> buf = take WEI_DGRAM_MAX x"
  "CB_TICK t \<in> set (loop_calls d p is) \<Longrightarrow> \<exists>ev. ITER ev \<in> set is \<and> ev_tick ev = t"
  by (induction d p "is" rule: loop_calls.induct)
    (fastforce split: poll_result.splits if_splits dest: drain_calls_set simp: drain_calls_ticks)+

lemma stage_feed_ok:
  "\<forall>st \<in> set sts. uint (phy_rate_kbps (weid_wire_map_record st)) \<le> PHY_SAFE_KBPS \<Longrightarrow> list_all feed_ok (stage_feed clk i sts)"
  by (induction sts arbitrary: i) (simp_all add: feed_ok_def)

lemma received_plausible:
  assumes "entries_plausible lay buf" "st \<in> set (received lay buf)"
  shows "uint (phy_rate_kbps (weid_wire_map_record st)) \<le> PHY_SAFE_KBPS"
proof -
  let ?n = "sizeof_stats_arg lay"
  obtain k where check: "weid_frame_check lay buf = Some (ACCEPT k)"
    using assms(2) by (cases "weid_frame_check lay buf") (auto simp: received_def split: frame_check.splits)
  then obtain i where k: "weid_frame_check lay buf = Some (ACCEPT k)" "i < k"
    "st = decode_stats_arg lay (take ?n (drop (TLV_VALUE_OFFSET + i * ?n) buf))"
    using assms(2) by (auto simp: received_def)
  have "length buf = TLV_VALUE_OFFSET + k * ?n" using frame_check_accept(1) [OF k(1)] .
  moreover have "i * ?n + ?n \<le> k * ?n" using k(2) mult_le_mono1 [of "Suc i" k ?n] by simp
  ultimately have "read_bytes buf (TLV_VALUE_OFFSET + i * ?n) ?n = Some (take ?n (drop (TLV_VALUE_OFFSET + i * ?n) buf))"
    by (simp add: read_bytes_def)
  then show ?thesis using assms(1) k(3) unfolding entries_plausible_def by blast
qed

lemma daemon_feed_ok:
  assumes "list_all (daemon_input_ok lay) is"
  shows "list_all feed_ok (feed_of lay (loop_calls d p is))"
proof -
  have "list_all feed_ok (call_feed lay c)" if call: "c \<in> set (loop_calls d p is)" for c
  proof (cases c)
    case (CB_DATAGRAM clk buf)
    then obtain ev x where "ITER ev \<in> set is" "RECV x clk \<in> set (ev_recv ev)" "buf = take WEI_DGRAM_MAX x"
      using call loop_calls_set(1) [of clk buf d p "is"] by blast
    moreover have "daemon_input_ok lay (ITER ev)" using assms \<open>ITER ev \<in> set is\<close> by (simp add: list_all_iff)
    ultimately have "entries_plausible lay buf" by (auto simp: daemon_input_ok_def)
    then show ?thesis using CB_DATAGRAM by (simp add: stage_feed_ok received_plausible)
  next
    case (CB_TICK t)
    then obtain ev where "ITER ev \<in> set is" "ev_tick ev = t" using call loop_calls_set(2) [of t d p "is"] by blast
    moreover have "daemon_input_ok lay (ITER ev)" using assms \<open>ITER ev \<in> set is\<close> by (simp add: list_all_iff)
    ultimately have "libm_exp_ok (ti_env t)" by (auto simp: daemon_input_ok_def)
    then show ?thesis using CB_TICK by (simp add: feed_ok_def)
  qed
  then show ?thesis by (auto simp: list_all_iff)
qed

section \<open>From the socket to the bus\<close>

text \<open>
  Whether reports are wanted at a tick: the enable flag, which does not change in the middle of the
  tick. A world in which every report that is wanted is delivered.
\<close>

definition pillar_on :: "(nat \<Rightarrow> 'j tick_world) \<Rightarrow> bool" where
  "pillar_on w \<longleftrightarrow> connperf_enabled (tw_store (w 0))"

definition steady_flag :: "(nat \<Rightarrow> 'j tick_world) \<Rightarrow> bool" where
  "steady_flag w \<longleftrightarrow> (\<forall>i. connperf_enabled (tw_store (w i)) = pillar_on w)"

definition world_delivers :: "(nat \<Rightarrow> 'j tick_world) \<Rightarrow> bool" where
  "world_delivers w \<longleftrightarrow> (\<forall>r. tick_delivers (report_tick w r)) \<and> steady_flag w"

text \<open>The verdicts of the ticks at which reports were wanted.\<close>

definition enabled_verdicts :: "((nat \<Rightarrow> 'j tick_world) \<times> wei_infer_result \<times> wei_conn_metric_record) list \<Rightarrow> wei_infer_verdict list" where
  "enabled_verdicts rs = map (\<lambda>r. ir_verdict (fst (snd r))) (filter (\<lambda>r. pillar_on (fst r)) rs)"

lemma publishes_station:
  assumes "\<forall>(w, r) \<in> set hist. steady_flag w"
  shows "map (\<lambda>t. (connperf_enabled (pt_store t), pt_result t)) (filter (\<lambda>t. pt_mac t = m) (publishes hist)) =
    map (\<lambda>(w, res, rec). (pillar_on w, res)) (station_log m hist)"
  using assms by (induction hist) (auto simp: report_tick_def station_log_def pillar_on_def steady_flag_def)

lemma publishes_named: "pt_mac ` set (publishes hist) \<subseteq> {m. station_log m hist \<noteq> []}"
  by (fastforce simp: report_tick_def station_log_def filter_empty_conv)

lemma history_tags:
  "engine_history fs eng = Some (eng', hist) \<Longrightarrow> (w, r) \<in> set hist \<Longrightarrow> \<exists>env ts. TICK w env ts \<in> set fs"
  by (induction fs eng arbitrary: hist rule: engine_history.induct) (fastforce split: option.splits)+

lemma stage_feed_ticks: "TICK w env ts \<notin> set (stage_feed clk i sts)"
  by (induction sts arbitrary: i) auto

lemma feed_tags: "TICK w env ts \<in> set (feed_of lay cs) \<Longrightarrow> \<exists>t. CB_TICK t \<in> set cs \<and> ti_world t = w"
proof -
  assume "TICK w env ts \<in> set (feed_of lay cs)"
  then obtain c where c: "c \<in> set cs" "TICK w env ts \<in> set (call_feed lay c)" by auto
  show ?thesis
  proof (cases c)
    case (CB_DATAGRAM clk buf)
    then show ?thesis using c(2) by (simp add: stage_feed_ticks)
  next
    case (CB_TICK t)
    then show ?thesis using c by (intro exI [of _ t]) simp
  qed
qed

text \<open>The stations a history reports are among those it was fed.\<close>

lemma unheard_station:
  "m \<notin> fed_stations fs \<Longrightarrow> station_history p m fs (None, None) = Some ((None, None), [])"
proof (induction fs)
  case (Cons f fs)
  then have "station_history p m fs (None, None) = Some ((None, None), [])" by (auto simp: fed_stations_def)
  then show ?case using Cons.prems
    by (cases f) (auto simp: fed_stations_def station_tick_def station_score_def station_expire_def)
qed simp

lemma publishes_macs:
  assumes "\<And>m. station_history p m fs (None, None) = Some (v m, station_log m hist)"
  shows "pt_mac ` set (publishes hist) \<subseteq> fed_stations fs"
proof
  fix m assume "m \<in> pt_mac ` set (publishes hist)"
  then have "station_log m hist \<noteq> []" using publishes_named by blast
  then show "m \<in> fed_stations fs" using assms [of m] unheard_station [of m fs p] by auto
qed

lemma history_delivers:
  assumes "engine_history (feed_of lay cs) eng = Some (eng', hist)"
    and "\<And>m. station_history p m (feed_of lay cs) (None, None) = Some (v m, station_log m hist)"
    and "\<forall>t. CB_TICK t \<in> set cs \<longrightarrow> world_delivers (ti_world t)"
  shows "(\<forall>t \<in> set (publishes hist). tick_delivers t \<and> pt_mac t \<in> fed_stations (feed_of lay cs)) \<and> (\<forall>(w, r) \<in> set hist. steady_flag w)"
proof (intro conjI ballI)
  have delivers: "world_delivers w" if h: "(w, r) \<in> set hist" for w r
  proof -
    obtain u where "CB_TICK u \<in> set cs" "ti_world u = w"
      using history_tags [OF assms(1) h] feed_tags by blast
    then show ?thesis using assms(3) by auto
  qed
  then show "case x of (w, r) \<Rightarrow> steady_flag w" if "x \<in> set hist" for x
    using that by (cases x) (auto simp: world_delivers_def)
  fix t assume t: "t \<in> set (publishes hist)"
  then obtain w r where wr: "(w, r) \<in> set hist" "t = report_tick w r" by auto
  then show "tick_delivers t" using delivers [OF wr(1)] unfolding world_delivers_def by blast
  show "pt_mac t \<in> fed_stations (feed_of lay cs)"
    using publishes_macs [OF assms(2)] imageI [OF t, of pt_mac] by (rule subsetD)
qed

lemma published_edges:
  assumes "\<forall>(w, r) \<in> set hist. steady_flag w"
  shows "map (\<lambda>t. ir_verdict (pt_result t)) (filter (\<lambda>t. pt_mac t = m) (emitted cadence_start (publishes hist))) =
    edges WEI_INFER_VERDICT_SMOOTH (drop 3 (enabled_verdicts (station_log m hist)))"
proof -
  have "map (\<lambda>t. ir_verdict (pt_result t))
      (filter (\<lambda>t. connperf_enabled (pt_store t)) (filter (\<lambda>t. pt_mac t = m) (publishes hist))) =
    map (\<lambda>p. ir_verdict (snd p)) (filter fst
      (map (\<lambda>t. (connperf_enabled (pt_store t), pt_result t)) (filter (\<lambda>t. pt_mac t = m) (publishes hist))))"
    by (simp add: filter_map comp_def)
  then show ?thesis
    unfolding emitted_edges publishes_station [OF assms]
    by (simp add: filter_map comp_def case_prod_beta enabled_verdicts_def)
qed

lemma wire_init_eng:
  assumes "weid_wire_init lay allocs sock ctx0 tr0 = (0, poll, ctx, tr)"
  shows "\<exists>eng p. poll = Some p \<and> wei_infer_create (Some weid_wire_default_policy) (fst allocs) = Some eng \<and>
    ctx = ctx0\<lparr>wd_engine := Some eng\<rparr> \<and> on_datagram p = Some (weid_on_datagram lay) \<and> on_tick p = Some weid_on_tick"
  using assms by (auto simp: weid_wire_init_def wei_poll_create_def Let_def case_prod_beta split: if_splits)

text \<open>The callbacks of a run entered at time \<open>start\<close>, with the period the set-up leaves.\<close>

definition body_calls :: "c_timespec \<Rightarrow> ('e, 't) loop_input list \<Rightarrow> ('e, 't) callback list" where
  "body_calls start is = loop_calls (wei_now_ms start + uint WEI_TICK_DEFAULT_MS) WEI_TICK_DEFAULT_MS is"

text \<open>
  A sequence of callbacks on a fresh engine, with at most 64 distinct stations named in the frames
  and a bus that delivers, never fails, and puts on the bus one report per selected tick, in
  order: for each station, the changes of its own verdict sequence over the ticks at which the
  pillar is on, after three of them of warm-up.
\<close>

abbreviation own_edges :: "mac \<Rightarrow> (nat \<Rightarrow> 'j tick_world) feed list \<Rightarrow> 'j perf_tick list \<Rightarrow> bool" where
  "own_edges m feed ts \<equiv> \<exists>v rs. station_history weid_wire_default_policy m (filter (concerns m) feed) (None, None) = Some (v, rs) \<and>
     map (\<lambda>t. ir_verdict (pt_result t)) (filter (\<lambda>t. pt_mac t = m) ts) =
       edges WEI_INFER_VERDICT_SMOOTH (drop 3 (enabled_verdicts rs))"

lemma calls_report:
  fixes cs :: "(nat \<Rightarrow> c_timespec, 'j tick_input) callback list"
  assumes create: "wei_infer_create (Some weid_wire_default_policy) calloc_ok = Some eng" and lay: "0 < sizeof_stats_arg lay"
    and feed: "list_all feed_ok (feed_of lay cs)" "card (fed_stations (feed_of lay cs)) \<le> 64"
    and world: "\<forall>t. CB_TICK t \<in> set cs \<longrightarrow> world_delivers (ti_world t)" and bus: "bus_opened b0"
  obtains ctx and ts :: "'j perf_tick list" where
    "run_calls (weid_on_datagram lay) weid_on_tick cs \<lparr>wd_engine = Some eng, wd_perf = perf_init, wd_bus = b0\<rparr> = Some ctx"
    "bus_trace (wd_bus ctx) = bus_trace b0 @ map report_call ts" "\<And>m. own_edges m (feed_of lay cs) ts"
proof -
  let ?feed = "feed_of lay cs" and ?pol = weid_wire_default_policy
  have fits: "crowd_fits (fed_stations ?feed) eng"
    using feed(2) create_station(1) [OF create] fed_stations_finite [of ?feed]
    by (simp add: crowd_fits_def WEI_TRACK_MAX_CLIENTS_def)
  note H = history_station [OF create_ok [OF create default_policy_sane] fits feed(1) order_refl]
  obtain eng' hist where hist: "engine_history ?feed eng = Some (eng', hist)" using H by blast
  have station: "station_history ?pol m ?feed (None, None) = Some (station_of eng' m, station_log m hist)" for m
    using H [of m] hist by (auto simp: create_station [OF create])
  note deliver = history_delivers [OF hist station world]
  obtain ps b where run: "perf_run (publishes hist) (perf_init, b0) = Some (ps, b)"
    "bus_trace b = bus_trace b0 @ map report_call (emitted cadence_start (publishes hist))"
    using perf_run_refines [OF perf_rel_init bus, of "publishes hist" "fed_stations ?feed"] deliver feed(2)
      fed_stations_finite [of ?feed] by (auto simp: WEI_TRACK_MAX_CLIENTS_def)
  show thesis
  proof (rule that)
    show "run_calls (weid_on_datagram lay) weid_on_tick cs \<lparr>wd_engine = Some eng, wd_perf = perf_init, wd_bus = b0\<rparr> =
        Some \<lparr>wd_engine = Some eng', wd_perf = ps, wd_bus = b\<rparr>"
      using callbacks_split [OF lay hist perf_init_ok(1), of b0] run(1) by simp
    show "bus_trace (wd_bus \<lparr>wd_engine = Some eng', wd_perf = ps, wd_bus = b\<rparr>) =
        bus_trace b0 @ map report_call (emitted cadence_start (publishes hist))"
      using run(2) by simp
    show "own_edges m ?feed (emitted cadence_start (publishes hist))" for m
      using station [of m] published_edges [OF conjunct2 [OF deliver], of m] by (simp add: station_history_own)
  qed
qed

text \<open>
  The loop, for any answers of the kernel, any datagrams and any retunes: what it has put on the
  bus since the set-up is what its callbacks report.
\<close>

lemma loop_reports_edges:
  fixes p :: "'j weid_poll" and "is" :: "(nat \<Rightarrow> c_timespec, 'j tick_input) loop_input list"
  assumes init: "weid_wire_init lay allocs sock ctx0 [] = (0, Some p, ctx, tr)" "wd_perf ctx0 = perf_init"
      "bus_opened (wd_bus ctx0)" "0 < sizeof_stats_arg lay"
    and input: "list_all (daemon_input_ok lay) is" "card (fed_stations (feed_of lay (body_calls start is))) \<le> 64"
    and world: "\<forall>t. CB_TICK t \<in> set (body_calls start is) \<longrightarrow> world_delivers (ti_world t)"
  shows "\<exists>out st (ts :: 'j perf_tick list). wei_poll_run start is p ctx tr = Some out \<and> out \<in> {LOOP_RUNNING st, LOOP_RETURNED st} \<and>
    bus_trace (wd_bus (ls_user st)) = bus_trace (wd_bus ctx0) @ map report_call ts \<and>
    (\<forall>m. own_edges m (feed_of lay (body_calls start is)) ts)"
proof -
  have p: "tick_ms p = WEI_TICK_DEFAULT_MS" using wire_init_cases [OF init(1)] perf_init_ok(1) init(2) by auto
  obtain eng where eng: "wei_infer_create (Some weid_wire_default_policy) (fst allocs) = Some eng" "ctx = ctx0\<lparr>wd_engine := Some eng\<rparr>"
    "on_datagram p = Some (weid_on_datagram lay)" "on_tick p = Some weid_on_tick"
    using wire_init_eng [OF init(1)] by auto
  have ctx: "ctx = \<lparr>wd_engine = Some eng, wd_perf = perf_init, wd_bus = wd_bus ctx0\<rparr>"
    using eng(2) init(2) by (cases ctx0) simp
  have ok: "list_all feed_ok (feed_of lay (body_calls start is))" unfolding body_calls_def by (rule daemon_feed_ok [OF input(1)])
  obtain c and ts :: "'j perf_tick list" where
    run: "run_calls (weid_on_datagram lay) weid_on_tick (body_calls start is) ctx = Some c"
    "bus_trace (wd_bus c) = bus_trace (wd_bus ctx0) @ map report_call ts" "\<And>m. own_edges m (feed_of lay (body_calls start is)) ts"
    using calls_report [OF eng(1) init(4) ok input(2) world init(3)] unfolding ctx by blast
  have dry: "\<forall>ev. ITER ev \<in> set is \<longrightarrow> RECV_FAIL \<in> set (ev_recv ev)"
    using input(1) by (force simp: list_all_iff daemon_input_ok_def)
  let ?st = "\<lparr>ls_ctx = p, ls_next_tick = wei_now_ms start + uint (tick_ms p), ls_user = ctx, ls_trace = tr\<rparr>"
  have "map_option (\<lambda>out. ls_user (outcome out)) (wei_poll_run start is p ctx tr) = Some c"
    using loop_run_calls [of ?st "weid_on_datagram lay" weid_on_tick "is"] dry eng(3,4) p run(1)
    by (simp add: wei_poll_run_def body_calls_def [symmetric])
  then obtain out where out: "wei_poll_run start is p ctx tr = Some out" "ls_user (outcome out) = c" by auto
  moreover have "out \<in> {LOOP_RUNNING (outcome out), LOOP_RETURNED (outcome out)}" by (cases out) simp_all
  ultimately show ?thesis using run(2,3) by blast
qed

end
