(* ===== verification/Rejoin.thy ===== *)
theory Rejoin
  imports Station
begin

text \<open>
  A station that leaves and comes back (source/wei_infer.c, source/wei_track.c). The membership
  slot and the tracker entry of a station are aged by the same constant but from different
  stamps: the slot from the last record heard, the entry from the last tick that scored the
  station. Since every tick scores a station from its last record until the slot is reaped, the
  entry outlives the slot by another absence window. This theory follows what that does.
\<close>

section \<open>The verdict flags only add\<close>

lemma station_verdict_degraded:
  assumes "station_verdict p rec st (out\<lparr>ir_verdict := WEI_INFER_VERDICT_DEGRADED\<rparr>) = (st2, out2)"
  shows "ir_verdict out2 = WEI_INFER_VERDICT_DEGRADED"
  using assms
  by (auto simp: station_verdict_def wei_infer_flag_latency_risk_def wei_infer_flag_video_degrade_def Let_def
      split: if_splits)

lemma station_score_scored:
  assumes "station_score env p m t (Some s, e) = Some (v, rs)" "metric_scoreable (sn_rec s)"
  shows "\<exists>s' e' bad out. station_flag p m t (scored_state (sn_state s) (sn_rec s)) e = Some (e', bad) \<and>
    v = (Some s', Some e') \<and> sn_seen s' = sn_seen s \<and> rs = [(out, sn_rec s)] \<and>
    (bad \<longrightarrow> ir_verdict out = WEI_INFER_VERDICT_DEGRADED) \<and>
    (client_ok (sn_state s) \<longrightarrow> client_ok (sn_state s')) \<and>
    phy_samples (sn_state s') = phy_samples (scored_state (sn_state s) (sn_rec s))"
proof -
  let ?st = "scored_state (sn_state s) (sn_rec s)"
  obtain out where "wei_infer_score_client env (sn_state s) (sn_rec s) zero_infer_result = Some (True, ?st, out)"
    using assms by (auto simp: station_score_def score_client_eq split: option.splits)
  moreover from this obtain e' bad where "station_flag p m t ?st e = Some (e', bad)"
    using assms(1) by (auto simp: station_score_def)
  moreover obtain st2 out2 where
    "station_verdict p (sn_rec s) ?st (if bad then out\<lparr>ir_verdict := WEI_INFER_VERDICT_DEGRADED\<rparr> else out) = (st2, out2)"
    by fastforce
  moreover from this have "(client_ok ?st \<longrightarrow> client_ok st2) \<and> phy_samples st2 = phy_samples ?st"
    using latency_client_ok latency_frame(3)
    by (auto simp: station_verdict_def Let_def case_prod_beta)
  ultimately show ?thesis using assms(1) station_verdict_degraded scored_state_ok(1) by (auto simp: station_score_def)
qed

section \<open>The tracker entry across the absence\<close>

text \<open>A tick that finds the measure above the band leaves the excursion open.\<close>

lemma flag_opens:
  assumes "station_flag p m t st e = Some (e', bad)" "wei_infer_phy_instability st = Some n" "tput_var_band p < n"
    and "0 < t" "case e of None \<Rightarrow> True | Some e \<Rightarrow> te_start_ts e \<le> t"
  shows "te_start_ts e' \<noteq> 0" "te_start_ts e' \<le> t" "te_accumulated e' = 0" "te_last_seen e' = t"
  using assms
  by (auto simp: station_flag_def wei_track_tick_def wei_track_collect_def Let_def track_fresh_def zero_track_entry_def
      split: option.splits if_splits)

text \<open>The first calm tick closes it, and counts everything since it was opened.\<close>

lemma flag_closes:
  assumes "wei_infer_phy_instability st = Some 0" "0 \<le> tput_var_band p"
    and "te_start_ts e \<noteq> 0" "te_accumulated e = 0" "tput_floor_ms p \<le> t - te_start_ts e" "te_start_ts e < t"
  shows "\<exists>e'. station_flag p m t st (Some e) = Some (e', True)"
  using assms by (auto simp: station_flag_def wei_track_tick_def wei_track_collect_def Let_def)

lemma flag_unknown:
  assumes "wei_infer_phy_instability st = Some 0" "0 \<le> tput_var_band p"
  shows "\<exists>e'. station_flag p m t st None = Some (e', False)"
  using assms
  by (auto simp: station_flag_def wei_track_tick_def wei_track_collect_def Let_def track_fresh_def zero_track_entry_def)

lemma fresh_state_calm: "wei_infer_phy_instability (scored_state zero_infer_client rec) = Some 0"
proof (rule phy_instability_constant)
  have ok: "client_ok zero_infer_client" by (rule zero_client_ok)
  show "windows_ok (scored_state zero_infer_client rec)" using scored_state_ok(1) [OF ok] by (simp add: client_ok_def)
  show "\<forall>v \<in> set (phy_samples (scored_state zero_infer_client rec)). v = phy_rate_kbps rec"
    by (simp add: scored_state_samples [OF ok] zero_client_windows slide_def WEI_INFER_PHY_WINDOW_def)
qed

lemma idle_ticks:
  assumes "\<forall>ts \<in> set idle. wei_infer_now_ms ts - te_last_seen e \<le> WEI_TRACK_ABSENCE_DEFAULT_MS"
  shows "station_history p m (map (TICK w env) idle @ fs) (None, Some e) = station_history p m fs (None, Some e)"
  using assms
  by (induction idle)
    (auto simp: station_tick_def station_score_def station_expire_def map_option_case split: option.splits)

text \<open>
  C12. A station that comes back is judged for the time it was away. Let a station be scored
  unstable by the very tick that reaps its slot, let any ticks of the next 30 seconds pass, and
  let the station come back and be scored once. Its state is new and its single rate sample
  cannot be unstable, so a station the tracker does not know would not be flagged; but its old
  tracker entry is still there, its excursion is closed now, the absence counts as part of it,
  and the first verdict of the returning station is "degraded".
\<close>

theorem rejoin_degraded:
  fixes w :: 'w
  assumes "libm_exp_ok env" "engine_ok eng" "rates_ok eng" "crowd_fits M eng"
    and "station_of eng m = (Some s, e)" "metric_scoreable (sn_rec s)" "sn_seen s + 30000 < wei_infer_now_ms ts0"
    and "wei_infer_phy_instability (scored_state (sn_state s) (sn_rec s)) = Some n"
      "tput_var_band (eng_policy eng) < n" "0 \<le> tput_var_band (eng_policy eng)"
    and "0 < wei_infer_now_ms ts0" "case e of None \<Rightarrow> True | Some e \<Rightarrow> te_start_ts e \<le> wei_infer_now_ms ts0"
    and "\<forall>ts \<in> set idle. wei_infer_now_ms ts \<le> wei_infer_now_ms ts0 + 30000"
    and "metric_scoreable rec" "uint (phy_rate_kbps rec) \<le> PHY_SAFE_KBPS"
    and "wei_infer_now_ms ts0 < wei_infer_now_ms ts2"
      "wei_infer_now_ms ts0 + tput_floor_ms (eng_policy eng) \<le> wei_infer_now_ms ts2"
  shows "\<exists>eng' hist before after.
    engine_history (TICK w env ts0 # map (TICK w env) idle @ [STAGE ts1 m rec, TICK w env ts2]) eng = Some (eng', hist) \<and>
    station_log m hist = [(w, before, sn_rec s), (w, after, rec)] \<and>
    ir_verdict after = WEI_INFER_VERDICT_DEGRADED \<and>
    (\<exists>e'. station_flag (eng_policy eng) m (wei_infer_now_ms ts2) (scored_state zero_infer_client rec) None = Some (e', False))"
proof -
  let ?p = "eng_policy eng" and ?t0 = "wei_infer_now_ms ts0" and ?t2 = "wei_infer_now_ms ts2"
  let ?fs = "TICK w env ts0 # map (TICK w env) idle @ [STAGE ts1 m rec, TICK w env ts2]"
  have "m \<in> M" using assms(4,5) by (auto simp: crowd_fits_def)
  then have "fed_stations ?fs \<subseteq> M" by (auto simp: fed_stations_def)
  moreover have "list_all feed_ok ?fs" using assms(1,15) by (simp add: feed_ok_def list_all_iff)
  ultimately obtain eng' hist where H: "engine_history ?fs eng = Some (eng', hist)"
    "station_history ?p m ?fs (Some s, e) = Some (station_of eng' m, station_log m hist)"
    using history_station [OF assms(2-4), of ?fs m] assms(5) by auto
  obtain v rs where sc: "station_score env ?p m ?t0 (Some s, e) = Some (v, rs)"
    using H(2) by (auto simp: station_tick_def split: option.splits)
  obtain s' e' bad before where flag: "station_flag ?p m ?t0 (scored_state (sn_state s) (sn_rec s)) e = Some (e', bad)"
    and v: "v = (Some s', Some e')" "sn_seen s' = sn_seen s" "rs = [(before, sn_rec s)]"
    using station_score_scored [OF sc assms(6)] by blast
  note opened = flag_opens [OF flag assms(8,9,11,12)]
  have gone: "station_tick env ?p m ?t0 (Some s, e) = Some ((None, Some e'), [(before, sn_rec s)])"
    using sc v assms(7) opened(4) by (simp add: station_tick_def station_expire_def WEI_TRACK_ABSENCE_DEFAULT_MS_def)
  have idle: "\<forall>ts \<in> set idle. wei_infer_now_ms ts - te_last_seen e' \<le> WEI_TRACK_ABSENCE_DEFAULT_MS"
    using assms(13) opened(4) by (auto simp: WEI_TRACK_ABSENCE_DEFAULT_MS_def)
  let ?heard = "station_heard (wei_infer_now_ms ts1) rec (None, Some e')"
  have home: "?heard = (Some \<lparr>sn_state = zero_infer_client, sn_seen = wei_infer_now_ms ts1, sn_rec = rec,
      sn_ledger = zero_episode_log\<rparr>, Some e')"
    by (simp add: station_heard_def)
  obtain v2 rs2 where sc2: "station_score env ?p m ?t2 ?heard = Some (v2, rs2)"
    and rep: "station_log m hist = (w, before, sn_rec s) # map (Pair w) rs2"
    using H(2) gone idle_ticks [OF idle, of ?p m w env "[STAGE ts1 m rec, TICK w env ts2]"]
    by (auto simp: station_tick_def split: option.splits)
  obtain e2 where "station_flag ?p m ?t2 (scored_state zero_infer_client rec) (Some e') = Some (e2, True)"
    using flag_closes [OF fresh_state_calm assms(10) opened(1,3), of ?t2 m rec] opened(2) assms(16,17) by auto
  then obtain after where after: "rs2 = [(after, rec)]" "ir_verdict after = WEI_INFER_VERDICT_DEGRADED"
    using station_score_scored [OF sc2 [unfolded home]] assms(14) by auto
  then have "station_log m hist = [(w, before, sn_rec s), (w, after, rec)]" using rep by simp
  then show ?thesis using H(1) after(2) flag_unknown [OF fresh_state_calm assms(10)] by blast
qed

section \<open>An instance\<close>

text \<open>
  One station, from start-up: a record at 0 and one at 64 Mbit/s, a second apart, each followed by
  a tick except that the second tick comes 31 seconds later. The variance of the two is 1024,
  above the band of 400.
\<close>

lemma two_sample_instability:
  assumes "windows_ok st" "phy_samples st = [0, 64000]"
  shows "wei_infer_phy_instability st = Some 1024"
proof -
  have fill: "unat (phy_fill st) = 2" using phy_samples_length [OF assms(1)] assms(2) by simp
  have win: "take 2 (phy_window st) = [0, 64000]"
    using assms fill by (simp add: phy_samples_def ring_contents_def windows_ok_def ring_ok_def WEI_INFER_PHY_WINDOW_def)
  have two: "d_of_u8 (phy_fill st) = 2" using fill by (simp add: d_of_u8_def uint_nat)
  have rep: "fl (numeral k) = numeral k" if "numeral k \<le> (2 ^ 53 :: int)" for k
    using that by (simp add: fl_representable_id)
  have mean: "wei_infer_phy_mean st = 32000"
    using phy_mean_eq [OF assms(1)] assms(2) rep by simp
  have "var_accum 32000 0 [0, 64000] = 2048000000"
    using rep by (simp add: Let_def d_of_u32_def)
  then show ?thesis
    using fill win two mean rep
    by (simp add: wei_infer_phy_instability_def c_int32_of_def c_trunc_def)
qed

definition rate_record :: "u32 \<Rightarrow> wei_conn_metric_record" where
  "rate_record r = zero_metric_record\<lparr>activity_state := WEI_CONN_METRIC_STATE_ACTIVE,
     status := WEI_CONN_METRIC_STATUS_OK, phy_rate_kbps := r\<rparr>"

definition at_sec :: "int \<Rightarrow> c_timespec" where "at_sec n = \<lparr>tv_sec = n, tv_nsec = 0\<rparr>"

lemma at_sec_ms [simp]: "wei_infer_now_ms (at_sec n) = n * 1000"
  by (simp add: at_sec_def wei_infer_now_ms_def)

lemma rate_record_simps [simp]: "metric_scoreable (rate_record r)" "phy_rate_kbps (rate_record r) = r"
  by (simp_all add: rate_record_def metric_scoreable_def)

definition arrival :: "unit feed list" where
  "arrival = [STAGE (at_sec 1) zero_mac (rate_record 0), TICK () exact_env (at_sec 1),
     STAGE (at_sec 2) zero_mac (rate_record 64000)]"

lemma arrival_engine:
  assumes "wei_infer_create (Some sample_policy) True = Some eng"
  shows "\<exists>eng' hist s e. engine_history arrival eng = Some (eng', hist) \<and> engine_ok eng' \<and> rates_ok eng' \<and>
    crowd_fits {zero_mac} eng' \<and> eng_policy eng' = sample_policy \<and> station_of eng' zero_mac = (Some s, Some e) \<and>
    sn_seen s = 2000 \<and> sn_rec s = rate_record 64000 \<and> te_start_ts e \<le> 1000 \<and>
    wei_infer_phy_instability (scored_state (sn_state s) (sn_rec s)) = Some 1024"
proof -
  let ?s0 = "\<lparr>sn_state = zero_infer_client, sn_seen = 1000, sn_rec = rate_record 0, sn_ledger = zero_episode_log\<rparr>"
  have fits: "crowd_fits {zero_mac} eng" using create_station(1) [OF assms] by (simp add: crowd_fits_def WEI_TRACK_MAX_CLIENTS_def)
  have "list_all feed_ok arrival" "fed_stations arrival \<subseteq> {zero_mac}"
    by (auto simp: arrival_def feed_ok_def fed_stations_def PHY_SAFE_KBPS_def)
  from history_station [OF create_ok [OF assms sample_policy_ok] fits this, of zero_mac]
  obtain eng' hist where H: "engine_history arrival eng = Some (eng', hist)" "engine_ok eng'" "rates_ok eng'"
      "crowd_fits {zero_mac} eng'" "eng_policy eng' = sample_policy"
    and S: "station_history sample_policy zero_mac arrival (None, None) =
      Some (station_of eng' zero_mac, station_log zero_mac hist)"
    by (auto simp: create_station [OF assms])
  obtain v rs where sc: "station_score exact_env sample_policy zero_mac 1000 (Some ?s0, None) = Some (v, rs)"
    using S by (auto simp: arrival_def station_heard_def station_tick_def split: option.splits)
  obtain s' e' bad where s': "station_flag sample_policy zero_mac 1000 (scored_state zero_infer_client (rate_record 0)) None = Some (e', bad)"
    "v = (Some s', Some e')" "sn_seen s' = 1000" "client_ok (sn_state s')"
    "phy_samples (sn_state s') = phy_samples (scored_state zero_infer_client (rate_record 0))"
    using station_score_scored [OF sc] zero_client_ok by auto
  have e': "te_start_ts e' \<le> 1000" "te_last_seen e' = 1000"
    using s'(1)
    by (auto simp: station_flag_def wei_track_tick_def wei_track_collect_def Let_def track_fresh_def zero_track_entry_def
        split: option.splits if_splits)
  have view: "station_of eng' zero_mac = (Some (s'\<lparr>sn_seen := 2000, sn_rec := rate_record 64000\<rparr>), Some e')"
    using S sc s'(2,3) e'(2)
    by (simp add: arrival_def station_heard_def station_tick_def station_expire_def WEI_TRACK_ABSENCE_DEFAULT_MS_def)
  have "phy_samples (sn_state s') = [0]"
    using s'(5) by (simp add: scored_state_samples [OF zero_client_ok] zero_client_windows slide_def WEI_INFER_PHY_WINDOW_def)
  then have "wei_infer_phy_instability (scored_state (sn_state s') (rate_record 64000)) = Some 1024"
    using scored_state_ok(1) [OF s'(4)]
    by (intro two_sample_instability)
      (simp_all add: client_ok_def scored_state_samples [OF s'(4)] slide_def WEI_INFER_PHY_WINDOW_def)
  then show ?thesis using H view e'(1) by simp
qed

theorem rejoin_degraded_witness:
  "\<exists>eng eng' hist before after. map_option fst (engine_history arrival (the (wei_infer_create (Some sample_policy) True))) = Some eng \<and>
     engine_history [TICK () exact_env (at_sec 33), TICK () exact_env (at_sec 38), STAGE (at_sec 40) zero_mac (rate_record 1000),
       TICK () exact_env (at_sec 43)] eng = Some (eng', hist) \<and>
     station_log zero_mac hist = [((), before, rate_record 64000), ((), after, rate_record 1000)] \<and>
     ir_verdict after = WEI_INFER_VERDICT_DEGRADED"
proof -
  obtain eng0 where eng0: "wei_infer_create (Some sample_policy) True = Some eng0" by (simp add: wei_infer_create_def)
  obtain eng hist s e where a: "engine_history arrival eng0 = Some (eng, hist)" "engine_ok eng" "rates_ok eng"
    "crowd_fits {zero_mac} eng" "eng_policy eng = sample_policy" "station_of eng zero_mac = (Some s, Some e)"
    "sn_seen s = 2000" "sn_rec s = rate_record 64000" "te_start_ts e \<le> 1000"
    "wei_infer_phy_instability (scored_state (sn_state s) (sn_rec s)) = Some 1024"
    using arrival_engine [OF eng0] by blast
  show ?thesis
    using rejoin_degraded [OF exact_env_ok a(2-4) a(6) _ _ a(10), of "at_sec 33" "[at_sec 38]" "rate_record 1000" "at_sec 43"
        "()" "at_sec 40"] a(1,5,7-9) eng0
    by (auto simp: sample_policy_def PHY_SAFE_KBPS_def)
qed

end
