(* ===== verification/Daemon.thy ===== *)
theory Daemon
  imports Run Bus
begin

text \<open>
  The daemon process (source/weid_daemon.c): the main thread's start-up, wait and shutdown, the
  body thread that runs the poll loop, and the bus callback thread that drives the data-model
  accessors. It is a step relation over the three actors, each step calling the functions of the
  other theories. The body thread steps once per loop iteration. Cancellation takes effect at a
  cancellation point: \<open>poll\<close>, a \<open>recv\<close> of the drain, or, where the C library makes it one, the
  flush of the debug file, with \<open>wei_log_lock\<close> held; of the flushes the one before a datagram's
  callback is modelled. The enable store the reports of a tick see is left free (\<open>ti_world\<close>), since
  the bus thread may change it in the middle of a tick.
\<close>

datatype main_pc =
    M_START | M_MASKED | M_LOADED | M_BUS | M_WIRED | M_SIGWAIT | M_JOINED | M_UNWIRED | M_STOPPED | M_EXIT int

datatype body_pc = B_NONE | B_LOOP | B_RETURNED | B_JOINED

record 'j daemon =
  d_main :: main_pc
  d_body :: body_pc
  d_store :: rfc_store
  d_ctx :: weid_ctx
  d_poll :: "'j weid_poll option"
  d_next_tick :: int
  d_sys :: "sys_call list"
  d_calls :: "(nat \<Rightarrow> c_timespec, 'j tick_input) callback list"  \<comment> \<open>the callbacks made, for the statements; never read\<close>
  d_log_held :: bool  \<comment> \<open>\<open>wei_log_lock\<close> was left locked by a cancelled thread\<close>

text \<open>What stays fixed over a run: cJSON, the wire layout, and the bus as its close finds it.\<close>

record 'j daemon_params =
  dp_cjson :: "'j cjson"
  dp_layout :: wire_layout
  dp_close :: bus_env

datatype actor = MAIN | BODY | BUS_THREAD

text \<open>The state of the poll loop as the body thread holds it, and back.\<close>

definition loop_of :: "'j weid_poll \<Rightarrow> 'j daemon
    \<Rightarrow> (nat \<Rightarrow> c_timespec, 'j tick_input, weid_ctx) loop_state" where
  "loop_of p d = \<lparr>ls_ctx = p, ls_next_tick = d_next_tick d, ls_user = d_ctx d, ls_trace = d_sys d\<rparr>"

definition with_loop :: "(nat \<Rightarrow> c_timespec, 'j tick_input, weid_ctx) loop_state \<Rightarrow> 'j daemon \<Rightarrow> 'j daemon" where
  "with_loop st d =
     d\<lparr>d_ctx := ls_user st, d_poll := Some (ls_ctx st), d_next_tick := ls_next_tick st, d_sys := ls_trace st\<rparr>"

definition with_bus :: "bus_state \<Rightarrow> 'j daemon \<Rightarrow> 'j daemon" where
  "with_bus b d = d\<lparr>d_ctx := (d_ctx d)\<lparr>wd_bus := b\<rparr>\<rparr>"

text \<open>
  The receive phase of an iteration up to the point where the thread is cancelled; the list of
  \<open>recv\<close> results ends there.
\<close>

definition drain_until :: "(nat \<Rightarrow> c_timespec, 'j tick_input) poll_event \<Rightarrow> 'j weid_poll \<Rightarrow> 'j daemon \<Rightarrow> 'j daemon option" where
  "drain_until ev p d =
     (if ev_poll ev \<noteq> POLL_DONE False True then None
      else map_option (\<lambda>ctx. d\<lparr>d_ctx := ctx, d_calls := d_calls d @ drain_calls (ev_recv ev),
               d_sys := d_sys d @ [SYS_poll (pc_fd p) (poll_timeout (d_next_tick d) (wei_now_ms (ev_now ev)))]\<rparr>)
             (wei_sock_drain p (ev_recv ev) (d_ctx d)))"

text \<open>The two tear-down calls of the main thread, on the daemon's state.\<close>

definition close_bus :: "'j daemon_params \<Rightarrow> 'j daemon \<Rightarrow> 'j daemon" where
  "close_bus P d = with_bus (weid_bus_close (dp_close P) (wd_bus (d_ctx d))) d"

definition deinit_wire :: "'j daemon \<Rightarrow> 'j daemon" where
  "deinit_wire d =
     (let (poll, ctx, sys) = weid_wire_deinit (d_poll d) (d_ctx d) (d_sys d)
      in d\<lparr>d_poll := poll, d_ctx := ctx, d_sys := sys\<rparr>)"

inductive daemon_step :: "'j daemon_params \<Rightarrow> 'j daemon \<Rightarrow> actor \<Rightarrow> 'j daemon \<Rightarrow> bool" for P where
  mask_fail: "d_main d = M_START \<Longrightarrow> daemon_step P d MAIN (d\<lparr>d_main := M_EXIT 1\<rparr>)"
| mask: "d_main d = M_START \<Longrightarrow> daemon_step P d MAIN (d\<lparr>d_main := M_MASKED\<rparr>)"
| load: "d_main d = M_MASKED \<Longrightarrow>
    daemon_step P d MAIN (d\<lparr>d_main := M_LOADED, d_store := weid_rfc_load (dp_cjson P) io (d_store d)\<rparr>)"
| bus_fail: "d_main d = M_LOADED \<Longrightarrow> weid_bus_open env (wd_bus (d_ctx d)) = (rc, b) \<Longrightarrow> rc \<noteq> bus_error_success \<Longrightarrow>
    daemon_step P d MAIN ((with_bus b d)\<lparr>d_main := M_EXIT 1\<rparr>)"
| bus_open: "d_main d = M_LOADED \<Longrightarrow> weid_bus_open env (wd_bus (d_ctx d)) = (bus_error_success, b) \<Longrightarrow>
    daemon_step P d MAIN ((with_bus b d)\<lparr>d_main := M_BUS\<rparr>)"
| wire_fail: "d_main d = M_BUS \<Longrightarrow>
    weid_wire_init (dp_layout P) allocs sock (d_ctx d) (d_sys d) = (rc, poll, ctx, sys) \<Longrightarrow> rc \<noteq> 0 \<Longrightarrow>
    daemon_step P d MAIN ((close_bus P (d\<lparr>d_poll := poll, d_ctx := ctx, d_sys := sys\<rparr>))\<lparr>d_main := M_EXIT 1\<rparr>)"
| wire_up: "d_main d = M_BUS \<Longrightarrow>
    weid_wire_init (dp_layout P) allocs sock (d_ctx d) (d_sys d) = (0, poll, ctx, sys) \<Longrightarrow>
    daemon_step P d MAIN (d\<lparr>d_poll := poll, d_ctx := ctx, d_sys := sys, d_main := M_WIRED\<rparr>)"
| thread_fail: "d_main d = M_WIRED \<Longrightarrow>
    daemon_step P d MAIN ((close_bus P (deinit_wire d))\<lparr>d_main := M_EXIT 1\<rparr>)"
| thread_up: "d_main d = M_WIRED \<Longrightarrow> d_poll d = Some p \<Longrightarrow>
    daemon_step P d MAIN (d\<lparr>d_main := M_SIGWAIT, d_body := B_LOOP, d_next_tick := wei_now_ms start + uint (tick_ms p)\<rparr>)"
| signalled: "d_main d = M_SIGWAIT \<Longrightarrow> daemon_step P d MAIN (d\<lparr>d_main := M_JOINED, d_body := B_JOINED\<rparr>)"
| signalled_at_recv: "d_main d = M_SIGWAIT \<Longrightarrow> d_body d = B_LOOP \<Longrightarrow> d_poll d = Some p \<Longrightarrow>
    daemon_input_ok (dp_layout P) (ITER ev) \<Longrightarrow> drain_until ev p d = Some e \<Longrightarrow>
    daemon_step P d MAIN (e\<lparr>d_main := M_JOINED, d_body := B_JOINED\<rparr>)"
| signalled_in_log: "d_main d = M_SIGWAIT \<Longrightarrow> d_body d = B_LOOP \<Longrightarrow> d_poll d = Some p \<Longrightarrow>
    daemon_input_ok (dp_layout P) (ITER ev) \<Longrightarrow> drain_until ev p d = Some e \<Longrightarrow>
    daemon_step P d MAIN (e\<lparr>d_main := M_JOINED, d_body := B_JOINED, d_log_held := True\<rparr>)"
| unwire: "d_main d = M_JOINED \<Longrightarrow> daemon_step P d MAIN ((deinit_wire d)\<lparr>d_main := M_UNWIRED\<rparr>)"
| unbus: "d_main d = M_UNWIRED \<Longrightarrow> daemon_step P d MAIN ((close_bus P d)\<lparr>d_main := M_STOPPED\<rparr>)"
| stopped: "d_main d = M_STOPPED \<Longrightarrow> \<not> d_log_held d \<Longrightarrow> daemon_step P d MAIN (d\<lparr>d_main := M_EXIT 0\<rparr>)"
| iterate: "d_body d = B_LOOP \<Longrightarrow> d_poll d = Some p \<Longrightarrow> daemon_input_ok (dp_layout P) (ITER ev) \<Longrightarrow>
    poll_iter ev (loop_of p d) = Some (LOOP_RUNNING st) \<Longrightarrow>
    daemon_step P d BODY ((with_loop st d)\<lparr>d_calls := d_calls d @ iter_calls (d_next_tick d) ev\<rparr>)"
| loop_returns: "d_body d = B_LOOP \<Longrightarrow> d_poll d = Some p \<Longrightarrow> daemon_input_ok (dp_layout P) (ITER ev) \<Longrightarrow>
    poll_iter ev (loop_of p d) = Some (LOOP_RETURNED st) \<Longrightarrow>
    daemon_step P d BODY ((with_loop st d)\<lparr>d_body := B_RETURNED\<rparr>)"
| enable_set: "bus_opened (wd_bus (d_ctx d)) \<Longrightarrow>
    wei_connperf_enable_set (dp_cjson P) io (d_store d) nm data = (rc, store) \<Longrightarrow>
    daemon_step P d BUS_THREAD (d\<lparr>d_store := store\<rparr>)"
| config_set: "bus_opened (wd_bus (d_ctx d)) \<Longrightarrow>
    wei_connperf_config_set (wd_bus (d_ctx d)) nm data = (rc, b) \<Longrightarrow>
    daemon_step P d BUS_THREAD (with_bus b d)"

inductive_cases MAIN_E: "daemon_step P d MAIN d'"
inductive_cases BODY_E: "daemon_step P d BODY d'"
inductive_cases BUS_E: "daemon_step P d BUS_THREAD d'"

text \<open>The process image at \<open>main\<close>: zero statics, an arbitrary nvram file.\<close>

definition daemon_init :: "string option \<Rightarrow> 'j daemon" where
  "daemon_init file =
     \<lparr>d_main = M_START, d_body = B_NONE, d_store = \<lparr>connperf_enabled = g_weid_rfc_init, nvram = file\<rparr>,
      d_ctx = \<lparr>wd_engine = None, wd_perf = perf_init, wd_bus = g_weid_bus_init\<rparr>,
      d_poll = None, d_next_tick = 0, d_sys = [], d_calls = [], d_log_held = False\<rparr>"

inductive reachable :: "'j daemon_params \<Rightarrow> 'j daemon \<Rightarrow> bool" for P where
  start: "reachable P (daemon_init file)"
| step: "reachable P d \<Longrightarrow> daemon_step P d a d' \<Longrightarrow> reachable P d'"

section \<open>The bus seen by the body thread\<close>

definition bus_live :: "bus_state \<Rightarrow> bool" where
  "bus_live b \<longleftrightarrow> bus_inv b \<and> bus_opened b"

lemma bus_live_publish [simp]: "bus_live (bus_log (CALL_publish n r rc) b) = bus_live b"
  by (simp add: bus_live_def bus_inv_def)

lemma bus_live_flags: "bus_live (b\<lparr>dml_config_flags := w\<rparr>) = bus_live b"
  by (simp add: bus_live_def bus_inv_def)

lemma publish_live:
  "wei_perfreport_publish_tick pe store env m r rec (s, b) = Some (rc, s', b') \<Longrightarrow> bus_live b \<Longrightarrow> bus_live b'"
  by (auto simp: wei_perfreport_publish_tick_def Let_def split: option.splits prod.splits if_splits)

lemma perf_run_live: "perf_run ts (s, b) = Some (s', b') \<Longrightarrow> bus_live b \<Longrightarrow> bus_live b'"
  by (induction ts arbitrary: s b) (auto split: option.splits intro: publish_live)

lemma on_tick_live:
  assumes "weid_ok ctx" "weid_on_tick t ctx = Some ctx'" "bus_live (wd_bus ctx)"
  shows "bus_live (wd_bus ctx')"
proof -
  obtain eng where eng: "wd_engine ctx = Some eng" "perf_ok (wd_perf ctx)"
    using assms(1) by (auto simp: weid_ok_def)
  then show ?thesis
    using assms(2,3) perf_run_live
    by (fastforce simp: weid_on_tick_def tick_split split: option.splits prod.splits)
qed

lemma stage_entries_bus: "weid_stage_entries lay clk buf is ctx = Some ctx' \<Longrightarrow> wd_bus ctx' = wd_bus ctx"
  by (induction "is" arbitrary: ctx) (auto simp: weid_stage_entry_def Let_def split: option.splits)

lemma on_datagram_bus: "weid_on_datagram lay clk buf ctx = Some ctx' \<Longrightarrow> wd_bus ctx' = wd_bus ctx"
  by (auto simp: weid_on_datagram_def split: option.splits frame_check.splits dest: stage_entries_bus)

text \<open>The callbacks keep the loop's contract with the bus as well.\<close>

definition daemon_ok :: "weid_ctx \<Rightarrow> bool" where
  "daemon_ok ctx \<longleftrightarrow> weid_ok ctx \<and> bus_live (wd_bus ctx)"

interpretation body: poll_client daemon_ok "\<lambda>clk. entries_plausible lay" tick_input_ok
    "weid_on_datagram lay" weid_on_tick for lay
proof unfold_locales
  fix ctx clk buf
  assume a: "daemon_ok ctx" "entries_plausible lay buf"
  then obtain ctx' where "weid_on_datagram lay clk buf ctx = Some ctx'" "weid_ok ctx'"
    using on_datagram_ok [OF a(2), of ctx clk] by (auto simp: daemon_ok_def)
  then show "\<exists>s'. weid_on_datagram lay clk buf ctx = Some s' \<and> daemon_ok s'"
    using a(1) on_datagram_bus by (force simp: daemon_ok_def)
next
  fix ctx and t :: "'a tick_input"
  assume a: "daemon_ok ctx" "tick_input_ok t"
  then obtain ctx' where "weid_on_tick t ctx = Some ctx'" "weid_ok ctx'"
    using on_tick_ok by (auto simp: daemon_ok_def)
  then show "\<exists>s'. weid_on_tick t ctx = Some s' \<and> daemon_ok s'"
    using a(1) on_tick_live by (auto simp: daemon_ok_def)
qed

lemma body_event: "daemon_input_ok lay = body.event_ok lay"
  by (auto simp: fun_eq_iff daemon_input_ok_def body.event_ok_def body.recv_ok_def tick_input_ok_def
      split: loop_input.splits)

section \<open>The invariant of the process\<close>

text \<open>No poll context, no engine, no descriptor.\<close>

definition idle :: "'j daemon \<Rightarrow> bool" where
  "idle d \<longleftrightarrow> d_poll d = None \<and> wd_engine (d_ctx d) = None \<and> fds_open (d_sys d) = []"

definition wired :: "'j daemon_params \<Rightarrow> 'j daemon \<Rightarrow> bool" where
  "wired P d \<longleftrightarrow> (\<exists>p. d_poll d = Some p \<and> body.loop_inv (dp_layout P) (loop_of p d))"

definition bus_shut :: "'j daemon \<Rightarrow> bool" where
  "bus_shut d \<longleftrightarrow> bus_inv (wd_bus (d_ctx d)) \<and> \<not> bus_opened (wd_bus (d_ctx d))"

definition fresh :: "'j daemon \<Rightarrow> bool" where
  "fresh d \<longleftrightarrow> idle d \<and> d_sys d = [] \<and> perf_ok (wd_perf (d_ctx d)) \<and> d_body d = B_NONE"

definition daemon_inv :: "'j daemon_params \<Rightarrow> 'j daemon \<Rightarrow> bool" where
  "daemon_inv P d \<longleftrightarrow>
     (case d_main d of
        M_START \<Rightarrow> fresh d \<and> bus_shut d
      | M_MASKED \<Rightarrow> fresh d \<and> bus_shut d
      | M_LOADED \<Rightarrow> fresh d \<and> bus_shut d
      | M_BUS \<Rightarrow> fresh d \<and> bus_live (wd_bus (d_ctx d))
      | M_WIRED \<Rightarrow> wired P d \<and> d_body d = B_NONE
      | M_SIGWAIT \<Rightarrow> wired P d \<and> d_body d \<in> {B_LOOP, B_RETURNED}
      | M_JOINED \<Rightarrow> wired P d \<and> d_body d = B_JOINED
      | M_UNWIRED \<Rightarrow> idle d \<and> bus_live (wd_bus (d_ctx d)) \<and> d_body d = B_JOINED
      | M_STOPPED \<Rightarrow> idle d \<and> bus_shut d \<and> d_body d = B_JOINED
      | M_EXIT rc \<Rightarrow> idle d \<and> bus_shut d \<and> d_body d \<in> {B_NONE, B_JOINED})"

definition params_ok :: "'j daemon_params \<Rightarrow> bool" where
  "params_ok P \<longleftrightarrow> desc_present (dp_close P) \<and> bus_close_fn (dp_close P)"

lemma close_bus_shut:
  assumes "params_ok P" "bus_live (wd_bus (d_ctx d))"
  shows "bus_shut (close_bus P d)"
proof -
  have "bus_inv (weid_bus_close (dp_close P) (wd_bus (d_ctx d)))"
    using assms by (intro bus_close_inv) (simp_all add: params_ok_def bus_live_def)
  then show ?thesis
    by (simp add: bus_shut_def close_bus_def with_bus_def) (simp add: weid_bus_close_def)
qed

lemma close_bus_frame [simp]:
  "d_body (close_bus P d) = d_body d" "idle (close_bus P d) = idle d" "d_main (close_bus P d) = d_main d"
  by (simp_all add: close_bus_def with_bus_def idle_def)

lemma wired_deinit:
  assumes "wired P d"
  shows "idle (deinit_wire d)" "bus_live (wd_bus (d_ctx (deinit_wire d)))" "d_body (deinit_wire d) = d_body d"
proof -
  obtain p where p: "d_poll d = Some p" "holds_only (pc_fd p) (d_sys d)" "bus_live (wd_bus (d_ctx d))"
    using assms by (auto simp: wired_def loop_of_def body.loop_inv_def daemon_ok_def)
  obtain poll ctx sys where w: "weid_wire_deinit (d_poll d) (d_ctx d) (d_sys d) = (poll, ctx, sys)" by (metis prod_cases3)
  show "idle (deinit_wire d)" "bus_live (wd_bus (d_ctx (deinit_wire d)))" "d_body (deinit_wire d) = d_body d"
    using wire_deinit_releases [OF _ _ w] p by (simp_all add: deinit_wire_def w [unfolded p(1)] idle_def)
qed

lemma with_loop_simps [simp]:
  "loop_of (ls_ctx st) (with_loop st d) = st" "d_poll (with_loop st d) = Some (ls_ctx st)"
  "d_main (with_loop st d) = d_main d" "d_body (with_loop st d) = d_body d"
  by (simp_all add: loop_of_def with_loop_def)

lemma body_inv:
  assumes "d_poll d = Some p" "wired P d" "daemon_input_ok (dp_layout P) (ITER ev)"
  shows "\<exists>out st. poll_iter ev (loop_of p d) = Some out \<and> out \<in> {LOOP_RUNNING st, LOOP_RETURNED st} \<and>
    wired P (with_loop st d)"
proof -
  have "body.loop_inv (dp_layout P) (loop_of p d)" using assms(1,2) by (simp add: wired_def)
  then obtain out st where "poll_iter ev (loop_of p d) = Some out" "out \<in> {LOOP_RUNNING st, LOOP_RETURNED st}"
    "body.loop_inv (dp_layout P) st"
    using body.iter_contract assms(3) by (metis body_event)
  then show ?thesis by (intro exI conjI) (auto simp: wired_def)
qed

lemma drain_until_wired:
  assumes "drain_until ev p d = Some e" "d_poll d = Some p" "wired P d" "daemon_input_ok (dp_layout P) (ITER ev)"
  shows "wired P e"
proof -
  obtain ctx where ctx: "wei_sock_drain p (ev_recv ev) (d_ctx d) = Some ctx"
    "e = d\<lparr>d_ctx := ctx, d_calls := d_calls d @ drain_calls (ev_recv ev), d_sys := d_sys d @ [SYS_poll (pc_fd p) (poll_timeout (d_next_tick d) (wei_now_ms (ev_now ev)))]\<rparr>"
    using assms(1) by (auto simp: drain_until_def split: if_splits)
  have inv: "body.bound_to (dp_layout P) p" "holds_only (pc_fd p) (d_sys d)" "daemon_ok (d_ctx d)"
    using assms(2,3) by (auto simp: wired_def loop_of_def body.loop_inv_def)
  have "body.recv_ok (dp_layout P) (ev_recv ev)"
    using assms(4) by (simp add: body_event body.event_ok_def)
  then have "daemon_ok ctx" using body.drain_total [OF inv(1) _ inv(3)] ctx(1) by fastforce
  then show ?thesis
    using inv(1,2) assms(2)
    by (auto simp: ctx(2) wired_def loop_of_def body.loop_inv_def holds_only_def fds_step_def)
qed

lemma inv_init: "daemon_inv P (daemon_init file)"
  using perf_init_ok(1)
  by (simp add: daemon_inv_def daemon_init_def fresh_def idle_def bus_shut_def bus_inv_def g_weid_bus_init_def)

text \<open>Changes the body, the store and the program counters do not see.\<close>

lemma frames [simp]:
  "idle (d\<lparr>d_main := m\<rparr>) = idle d" "idle (d\<lparr>d_body := b\<rparr>) = idle d" "idle (d\<lparr>d_store := st\<rparr>) = idle d"
  "bus_shut (d\<lparr>d_main := m\<rparr>) = bus_shut d" "bus_shut (d\<lparr>d_store := st\<rparr>) = bus_shut d"
  "wired P (d\<lparr>d_main := m\<rparr>) = wired P d" "wired P (d\<lparr>d_body := b\<rparr>) = wired P d"
  "wired P (d\<lparr>d_calls := cs\<rparr>) = wired P d" "wired P (d\<lparr>d_store := st\<rparr>) = wired P d" "wired P (d\<lparr>d_log_held := h\<rparr>) = wired P d" "wired P (d\<lparr>d_next_tick := t\<rparr>) = wired P d"
  "fresh (d\<lparr>d_main := m\<rparr>) = fresh d" "fresh (d\<lparr>d_store := st\<rparr>) = fresh d"
  by (auto simp: idle_def bus_shut_def wired_def fresh_def loop_of_def body.loop_inv_def)

lemma bus_open_keeps:
  assumes "weid_bus_open env (wd_bus (d_ctx d)) = (rc, b)" "bus_shut d"
  shows "if rc = bus_error_success then bus_live b else bus_inv b \<and> \<not> bus_opened b"
  using bus_open_inv [of "wd_bus (d_ctx d)" env] assms by (auto simp: bus_shut_def bus_live_def)

lemma fresh_with_bus [simp]: "fresh (with_bus b d) = fresh d" "wd_bus (d_ctx (with_bus b d)) = b"
    "d_main (with_bus b d) = d_main d" "d_body (with_bus b d) = d_body d" "idle (with_bus b d) = idle d"
    "bus_shut (with_bus b d) = (bus_inv b \<and> \<not> bus_opened b)"
  by (simp_all add: fresh_def idle_def with_bus_def bus_shut_def)

lemma wired_with_bus: "wired P d \<Longrightarrow> bus_live b \<Longrightarrow> wired P (with_bus b d)"
  by (auto simp: wired_def with_bus_def loop_of_def body.loop_inv_def daemon_ok_def weid_ok_def)

lemma wire_init_bus:
  "weid_wire_init lay allocs sock ctx sys = (rc, poll, ctx', sys') \<Longrightarrow> wd_bus ctx' = wd_bus ctx"
  by (auto simp: weid_wire_init_def Let_def split: prod.splits if_splits)

lemma wire_init_keeps:
  assumes w: "weid_wire_init (dp_layout P) allocs sock (d_ctx d) (d_sys d) = (rc, poll, ctx, sys)"
    and d: "fresh d" "bus_live (wd_bus (d_ctx d))"
  defines "d' \<equiv> d\<lparr>d_poll := poll, d_ctx := ctx, d_sys := sys\<rparr>"
  shows "if rc = 0 then wired P d' else idle d'" "bus_live (wd_bus (d_ctx d'))"
proof -
  have start: "d_sys d = []" "perf_ok (wd_perf (d_ctx d))" using d(1) by (simp_all add: fresh_def)
  show bus: "bus_live (wd_bus (d_ctx d'))" using wire_init_bus [OF w] d(2) by (simp add: d'_def)
  show "if rc = 0 then wired P d' else idle d'"
    using wire_init_cases [OF w [unfolded start(1)] start(2)]
  proof (elim disjE conjE exE)
    fix p assume p: "rc = 0" "poll = Some p" "holds_only (pc_fd p) sys" "wire.bound_to (dp_layout P) p" "weid_ok ctx"
    then have "wired P d'" using bus by (simp add: d'_def wired_def loop_of_def body.loop_inv_def daemon_ok_def)
    then show ?thesis using p(1) by simp
  next
    assume "rc = - 1" "poll = None" "wd_engine ctx = None" "fds_open sys = []"
    then show ?thesis by (simp add: d'_def idle_def)
  qed
qed

lemma main_step_inv:
  assumes "params_ok P" "daemon_inv P d" "daemon_step P d MAIN d'"
  shows "daemon_inv P d'"
  using assms(3)
proof cases
  case (bus_fail env rc b)
  then show ?thesis using assms(2) bus_open_keeps [of env d rc b] by (simp add: daemon_inv_def fresh_def)
next
  case (bus_open env b)
  then show ?thesis using assms(2) bus_open_keeps [of env d bus_error_success b] by (simp add: daemon_inv_def)
next
  case (wire_fail allocs sock rc poll ctx sys)
  then show ?thesis
    using assms(1,2) wire_init_keeps [OF wire_fail(3)] by (simp add: daemon_inv_def close_bus_shut fresh_def)
next
  case (wire_up allocs sock poll ctx sys)
  then show ?thesis using assms(2) wire_init_keeps [OF wire_up(3)] by (simp add: daemon_inv_def fresh_def)
next
  case thread_fail
  then show ?thesis
    using assms(1,2) wired_deinit [of P d] by (simp add: daemon_inv_def close_bus_shut)
next
  case (signalled_at_recv p ev e)
  then show ?thesis using assms(2) drain_until_wired [OF signalled_at_recv(6)] by (simp add: daemon_inv_def)
next
  case (signalled_in_log p ev e)
  then show ?thesis using assms(2) drain_until_wired [OF signalled_in_log(6)] by (simp add: daemon_inv_def)
next
  case unwire
  then show ?thesis using assms(2) wired_deinit [of P d] by (simp add: daemon_inv_def)
next
  case unbus
  then show ?thesis using assms(1,2) by (simp add: daemon_inv_def close_bus_shut)
qed (use assms(2) in \<open>auto simp: daemon_inv_def fresh_def\<close>)

lemma inv_body: "daemon_inv P d \<Longrightarrow> d_body d = B_LOOP \<Longrightarrow> d_main d = M_SIGWAIT \<and> wired P d"
  by (auto simp: daemon_inv_def fresh_def split: main_pc.splits)

lemma body_step_inv:
  assumes "daemon_inv P d" "daemon_step P d BODY d'"
  shows "daemon_inv P d'"
  using assms(2)
proof cases
  case (iterate p ev st)
  then show ?thesis using inv_body [OF assms(1)] body_inv [of d p P ev] by (auto simp: daemon_inv_def)
next
  case (loop_returns p ev st)
  then show ?thesis using inv_body [OF assms(1)] body_inv [of d p P ev] by (auto simp: daemon_inv_def)
qed

lemma config_set_live:
  "wei_connperf_config_set s nm data = (rc, b) \<Longrightarrow> bus_live s \<Longrightarrow> bus_live b"
  by (auto simp: wei_connperf_config_set_def bus_live_flags split: option.splits if_splits)

lemma wired_live: "wired P d \<Longrightarrow> bus_live (wd_bus (d_ctx d))"
  by (auto simp: wired_def loop_of_def body.loop_inv_def daemon_ok_def)

lemma bus_step_inv:
  assumes "daemon_inv P d" "daemon_step P d BUS_THREAD d'"
  shows "daemon_inv P d'"
  using assms(2)
proof cases
  case (enable_set io nm data rc store)
  then show ?thesis using assms(1) by (simp add: daemon_inv_def split: main_pc.splits)
next
  case (config_set nm data rc b)
  then show ?thesis
    using assms(1) config_set_live [of "wd_bus (d_ctx d)" nm data rc b] wired_live [of P d]
    by (auto simp: daemon_inv_def bus_shut_def wired_with_bus split: main_pc.splits)
qed

lemma reachable_inv: "reachable P d \<Longrightarrow> params_ok P \<Longrightarrow> daemon_inv P d"
proof (induction rule: reachable.induct)
  case start
  show ?case by (rule inv_init)
next
  case (step d a d')
  then show ?case using main_step_inv body_step_inv bus_step_inv by (cases a) auto
qed

section \<open>Properties\<close>

text \<open>With healthy services the daemon comes up.\<close>

lemma good_bus_opens:
  "bus_shut d \<Longrightarrow> \<exists>b. weid_bus_open good_bus (wd_bus (d_ctx d)) = (bus_error_success, b)"
  by (auto simp: bus_shut_def weid_bus_open_def good_bus_def wei_connperf_dml_register_def Let_def)

lemma good_wire_inits:
  "\<exists>poll ctx' sys'. weid_wire_init lay (True, True) (sample_sock 3) ctx sys = (0, Some poll, ctx', sys')"
  by (simp add: weid_wire_init_def wei_infer_create_def wei_poll_create_def wei_sock_open_def sample_sock_def
      LQ_STATS_SOCKET_PATH_def SUN_PATH_SIZE_def Let_def)

lemma daemon_comes_up:
  fixes P :: "'j daemon_params"
  assumes "params_ok P"
  shows "\<exists>d. reachable P d \<and> d_main d = M_SIGWAIT \<and> d_body d = B_LOOP \<and> d_calls d = []"
proof -
  let ?d0 = "daemon_init None :: 'j daemon"
  let ?d1 = "?d0\<lparr>d_main := M_MASKED\<rparr>"
  let ?io = "\<lparr>io_open_r = True, io_fread = 4096, io_open_w = True, io_put = True, io_close = True, io_partial = id\<rparr>"
  let ?d2 = "?d1\<lparr>d_main := M_LOADED, d_store := weid_rfc_load (dp_cjson P) ?io (d_store ?d1)\<rparr>"
  have r2: "reachable P ?d2"
    by (rule reachable.step [OF reachable.step [OF reachable.start daemon_step.mask] daemon_step.load])
      (simp_all add: daemon_init_def)
  have "bus_shut ?d2" using reachable_inv [OF r2 assms] by (simp add: daemon_inv_def)
  then obtain b where b: "weid_bus_open good_bus (wd_bus (d_ctx ?d2)) = (bus_error_success, b)"
    using good_bus_opens by blast
  let ?d3 = "(with_bus b ?d2)\<lparr>d_main := M_BUS\<rparr>"
  have r3: "reachable P ?d3" by (rule reachable.step [OF r2 daemon_step.bus_open [OF _ b]]) simp
  obtain p :: "'j weid_poll" and ctx sys where w: "weid_wire_init (dp_layout P) (True, True) (sample_sock 3) (d_ctx ?d3) (d_sys ?d3) = (0, Some p, ctx, sys)"
    using good_wire_inits by blast
  let ?d4 = "?d3\<lparr>d_poll := Some p, d_ctx := ctx, d_sys := sys, d_main := M_WIRED\<rparr>"
  have r4: "reachable P ?d4" by (rule reachable.step [OF r3 daemon_step.wire_up [OF _ w]]) simp
  have r5: "reachable P (?d4\<lparr>d_main := M_SIGWAIT, d_body := B_LOOP, d_next_tick := wei_now_ms (at_ms 0) + uint (tick_ms p)\<rparr>)"
    by (rule reachable.step [OF r4 daemon_step.thread_up]) simp_all
  then show ?thesis by (intro exI conjI, assumption) (simp_all add: with_bus_def daemon_init_def)
qed

text \<open>
  C5. Nothing undefined can happen in the running daemon. The body thread runs only while the main
  thread waits for a signal, always on a live engine with a registered bus handle, and whatever
  the kernel answers next (any bytes in any datagrams, any failure, any clock), the next
  iteration of the loop returns. Asked are only a correct \<open>exp\<close>, entry rates below the bound
  where the engine's variance is defined, a socket that runs dry, and a bus that keeps its close
  function.
\<close>

theorem daemon_body_safe:
  assumes "params_ok P" "reachable P d" "d_body d = B_LOOP"
  shows "d_main d = M_SIGWAIT \<and>
    (\<exists>eng. wd_engine (d_ctx d) = Some eng \<and> engine_ok eng) \<and>
    bus_opened (wd_bus (d_ctx d)) \<and> registrations (bus_trace (wd_bus (d_ctx d))) = 1 \<and>
    (\<forall>ev. daemon_input_ok (dp_layout P) (ITER ev) \<longrightarrow>
       (\<exists>p out. d_poll d = Some p \<and> poll_iter ev (loop_of p d) = Some out))"
proof -
  have inv: "daemon_inv P d" using reachable_inv assms by blast
  have w: "wired P d" "d_main d = M_SIGWAIT" using inv_body [OF inv assms(3)] by simp_all
  have "bus_live (wd_bus (d_ctx d))" using wired_live [OF w(1)] .
  moreover obtain p where p: "d_poll d = Some p" "body.loop_inv (dp_layout P) (loop_of p d)"
    using w(1) by (auto simp: wired_def)
  moreover have "\<exists>eng. wd_engine (d_ctx d) = Some eng \<and> engine_ok eng"
    using p(2) by (auto simp: body.loop_inv_def loop_of_def daemon_ok_def weid_ok_def)
  ultimately show ?thesis
    using w body_inv [OF p(1) w(1)] by (fastforce simp: bus_live_def bus_inv_def)
qed

text \<open>
  C17. Every way out of \<open>main\<close>, the five failures of the start-up included, leaves nothing behind:
  no descriptor, no engine, no poll context, no bus handle, no running body thread.
\<close>

theorem daemon_exit_clean:
  assumes "params_ok P" "reachable P d" "d_main d = M_EXIT rc"
  shows "d_poll d = None \<and> wd_engine (d_ctx d) = None \<and> fds_open (d_sys d) = [] \<and>
    \<not> bus_opened (wd_bus (d_ctx d)) \<and> handles_held (bus_trace (wd_bus (d_ctx d))) = 0 \<and>
    d_body d \<noteq> B_LOOP"
  using reachable_inv [OF assms(2,1)] assms(3) by (auto simp: daemon_inv_def idle_def bus_shut_def bus_inv_def)

text \<open>An event of the loop in which nothing arrives.\<close>

definition quiet_event :: "poll_result \<Rightarrow> (nat \<Rightarrow> c_timespec, 'j tick_input) poll_event" where
  "quiet_event r =
     \<lparr>ev_now = at_ms 0, ev_poll = r, ev_recv = [RECV_FAIL], ev_after = at_ms 0, ev_stat = True, ev_sock = sample_sock 3,
      ev_tick = \<lparr>ti_env = exact_env, ti_world = undefined, ti_clock = \<lparr>tv_sec = 0, tv_nsec = 0\<rparr>\<rparr>\<rparr>"

lemma quiet_event_ok: "daemon_input_ok lay (ITER (quiet_event r))"
  by (simp add: daemon_input_ok_def quiet_event_def exact_env_ok)

fun main_rank :: "main_pc \<Rightarrow> nat" where
  "main_rank M_START = 9"
| "main_rank M_MASKED = 8"
| "main_rank M_LOADED = 7"
| "main_rank M_BUS = 6"
| "main_rank M_WIRED = 5"
| "main_rank M_SIGWAIT = 4"
| "main_rank M_JOINED = 3"
| "main_rank M_UNWIRED = 2"
| "main_rank M_STOPPED = 1"
| "main_rank (M_EXIT rc) = 0"

lemma main_can_move:
  fixes P :: "'j daemon_params"
  assumes "daemon_inv P d" "\<forall>rc. d_main d \<noteq> M_EXIT rc" "\<not> (d_main d = M_STOPPED \<and> d_log_held d)"
  shows "\<exists>d'. daemon_step P d MAIN d'"
proof (cases "d_main d")
  case M_LOADED
  obtain rc b where o: "weid_bus_open good_bus (wd_bus (d_ctx d)) = (rc, b)" by (metis surj_pair)
  then show ?thesis using M_LOADED by (cases "rc = bus_error_success") (auto intro: daemon_step.bus_open daemon_step.bus_fail)
next
  case M_BUS
  obtain poll :: "'j weid_poll" and ctx sys where "weid_wire_init (dp_layout P) (True, True) (sample_sock 3) (d_ctx d) (d_sys d) = (0, Some poll, ctx, sys)"
    using good_wire_inits by blast
  then show ?thesis using M_BUS by (auto intro: daemon_step.wire_up)
qed (use assms in \<open>auto intro: daemon_step.intros\<close>)



text \<open>
  C39. A loop that gives up leaves a deaf daemon: \<open>wei_poll_run\<close> returns on any error flag of its
  socket, the body thread ignores the result, and the process stays up, waiting for a signal,
  with no step that scores, receives or exits short of that signal.
\<close>

theorem daemon_deaf:
  fixes P :: "'j daemon_params"
  assumes "params_ok P"
  shows "(\<exists>d. reachable P d \<and> d_main d = M_SIGWAIT \<and> d_body d = B_RETURNED) \<and>
    (\<forall>d a d'. d_main d = M_SIGWAIT \<and> d_body d = B_RETURNED \<and> daemon_step P d a d' \<longrightarrow>
       a = MAIN \<and> d_main d' = M_JOINED \<or>
       a = BUS_THREAD \<and> d_main d' = M_SIGWAIT \<and> d_body d' = B_RETURNED \<and>
       wd_engine (d_ctx d') = wd_engine (d_ctx d) \<and> d_sys d' = d_sys d)"
proof
  obtain d where d: "reachable P d" "d_main d = M_SIGWAIT" "d_body d = B_LOOP"
    using daemon_comes_up [OF assms] by blast
  obtain p where p: "d_poll d = Some p"
    using inv_body [OF reachable_inv [OF d(1) assms] d(3)] by (auto simp: wired_def)
  define ev :: "(nat \<Rightarrow> c_timespec, 'j tick_input) poll_event" where "ev = quiet_event (POLL_DONE True False)"
  have "daemon_input_ok (dp_layout P) (ITER ev)" by (simp add: ev_def quiet_event_ok)
  moreover obtain st where "poll_iter ev (loop_of p d) = Some (LOOP_RETURNED st)"
    by (simp add: poll_iter_def ev_def quiet_event_def Let_def)
  ultimately have "reachable P ((with_loop st d)\<lparr>d_body := B_RETURNED\<rparr>)"
    using d p by (blast intro: reachable.step daemon_step.loop_returns)
  then show "\<exists>d. reachable P d \<and> d_main d = M_SIGWAIT \<and> d_body d = B_RETURNED"
    using d(2) by (intro exI [of _ "(with_loop st d)\<lparr>d_body := B_RETURNED\<rparr>"]) simp
next
  show "\<forall>d a d'. d_main d = M_SIGWAIT \<and> d_body d = B_RETURNED \<and> daemon_step P d a d' \<longrightarrow>
       a = MAIN \<and> d_main d' = M_JOINED \<or>
       a = BUS_THREAD \<and> d_main d' = M_SIGWAIT \<and> d_body d' = B_RETURNED \<and>
       wd_engine (d_ctx d') = wd_engine (d_ctx d) \<and> d_sys d' = d_sys d"
  proof (intro allI impI, elim conjE)
    fix d a and d' :: "'j daemon"
    assume "daemon_step P d a d'" "d_main d = M_SIGWAIT" "d_body d = B_RETURNED"
    then show "a = MAIN \<and> d_main d' = M_JOINED \<or>
       a = BUS_THREAD \<and> d_main d' = M_SIGWAIT \<and> d_body d' = B_RETURNED \<and>
       wd_engine (d_ctx d') = wd_engine (d_ctx d) \<and> d_sys d' = d_sys d"
      by (cases a) (auto elim!: MAIN_E BODY_E BUS_E simp: with_bus_def)
  qed
qed

section \<open>Instances\<close>

definition sample_params :: "json_val daemon_params" where
  "sample_params = \<lparr>dp_cjson = sample_cjson, dp_layout = sample_layout, dp_close = good_bus\<rparr>"

lemma sample_params_ok: "params_ok sample_params"
  by (simp add: params_ok_def sample_params_def good_bus_def)

theorem daemon_body_safe_witness:
  "\<exists>d eng. reachable sample_params d \<and> d_body d = B_LOOP \<and> wd_engine (d_ctx d) = Some eng \<and> engine_ok eng"
proof -
  obtain d where d: "reachable sample_params d" "d_body d = B_LOOP"
    using daemon_comes_up [OF sample_params_ok] by blast
  then show ?thesis using daemon_body_safe [OF sample_params_ok d] by blast
qed

theorem daemon_exit_clean_witness:
  "\<exists>d. reachable sample_params d \<and> d_main d = M_EXIT 1 \<and> d_poll d = None \<and>
     handles_held (bus_trace (wd_bus (d_ctx d))) = 0"
proof -
  let ?d = "(daemon_init None)\<lparr>d_main := M_EXIT 1\<rparr>"
  have r: "reachable sample_params ?d"
    by (rule reachable.step [OF reachable.start daemon_step.mask_fail]) (simp add: daemon_init_def)
  then show ?thesis using daemon_exit_clean [OF sample_params_ok r, of 1] by (intro exI [of _ ?d]) simp
qed



theorem daemon_deaf_witness: "\<exists>d. reachable sample_params d \<and> d_main d = M_SIGWAIT \<and> d_body d = B_RETURNED"
  using daemon_deaf [OF sample_params_ok] by blast

end
