(* ===== verification/Process.thy ===== *)
theory Process
  imports Daemon
begin

text \<open>
  The whole process, from the datagrams to the bus (source/weid_daemon.c with everything it calls).
  The theory Daemon shows that the three threads never reach an undefined state; here the reports
  that have gone to the bus in any reachable state of the process are identified. The callbacks
  the body thread has made are followed through start-up, loop, cancellation and tear-down; the
  bus thread, which changes the state the body works on while it runs, is shown not to influence
  them; and what they put on the bus is what the theory Run says of a sequence of callbacks.
\<close>

section \<open>The flags the bus thread writes\<close>

text \<open>
  The one field of the shared state that the bus thread writes. The callbacks never read it.
\<close>

definition with_flags :: "u32 \<Rightarrow> weid_ctx \<Rightarrow> weid_ctx" where
  "with_flags w ctx = ctx\<lparr>wd_bus := (wd_bus ctx)\<lparr>dml_config_flags := w\<rparr>\<rparr>"

lemma with_flags_simps [simp]:
  "with_flags v (with_flags w ctx) = with_flags v ctx"
  "with_flags (dml_config_flags (wd_bus ctx)) ctx = ctx"
  "bus_trace (wd_bus (with_flags w ctx)) = bus_trace (wd_bus ctx)"
  "wd_engine (with_flags w ctx) = wd_engine ctx" "wd_perf (with_flags w ctx) = wd_perf ctx"
  by (simp_all add: with_flags_def)

lemma bus_flags [simp]:
  "weid_bus_handle (b\<lparr>dml_config_flags := w\<rparr>) = weid_bus_handle b"
  "bus_log c (b\<lparr>dml_config_flags := w\<rparr>) = (bus_log c b)\<lparr>dml_config_flags := w\<rparr>"
  by (simp_all add: weid_bus_handle_def bus_log_def)

lemma publish_flags:
  "wei_perfreport_publish_tick pe store env m r rec (s, b\<lparr>dml_config_flags := w\<rparr>) =
     map_option (\<lambda>(rc, s, b). (rc, s, b\<lparr>dml_config_flags := w\<rparr>)) (wei_perfreport_publish_tick pe store env m r rec (s, b))"
  by (auto simp: wei_perfreport_publish_tick_def Let_def split: option.splits prod.splits)

lemma sweep_flags:
  "engine_sweep env world t is (eng, ps, b\<lparr>dml_config_flags := w\<rparr>) =
     map_option (\<lambda>(eng, ps, b). (eng, ps, b\<lparr>dml_config_flags := w\<rparr>)) (engine_sweep env world t is (eng, ps, b))"
proof (induction "is" arbitrary: eng ps b)
  case (Cons i "is")
  then show ?case by (auto simp: publish_flags split: option.splits bool.splits)
qed simp

lemma on_tick_flags: "weid_on_tick t (with_flags w ctx) = map_option (with_flags w) (weid_on_tick t ctx)"
  by (cases "wd_engine ctx")
    (auto simp: weid_on_tick_def wei_infer_tick_def with_flags_def sweep_flags Let_def split: option.splits)

lemma stage_entries_flags:
  "weid_stage_entries lay clk buf is (with_flags w ctx) = map_option (with_flags w) (weid_stage_entries lay clk buf is ctx)"
proof (induction "is" arbitrary: ctx)
  case (Cons i "is")
  have "weid_stage_entry lay clk buf i (with_flags w ctx) = map_option (with_flags w) (weid_stage_entry lay clk buf i ctx)"
    by (auto simp: weid_stage_entry_def with_flags_def Let_def split: option.splits)
  then show ?case by (auto simp: Cons.IH split: option.splits)
qed simp

lemma on_datagram_flags:
  "weid_on_datagram lay clk buf (with_flags w ctx) = map_option (with_flags w) (weid_on_datagram lay clk buf ctx)"
  by (auto simp: weid_on_datagram_def stage_entries_flags split: option.splits frame_check.splits)

lemma run_calls_flags:
  "run_calls (weid_on_datagram lay) weid_on_tick cs (with_flags w ctx) =
     map_option (with_flags w) (run_calls (weid_on_datagram lay) weid_on_tick cs ctx)"
proof (induction cs arbitrary: ctx)
  case (Cons c cs)
  then show ?case
    by (cases c) (auto simp: on_datagram_flags on_tick_flags split: option.splits)
qed simp

section \<open>One iteration is its callbacks\<close>

abbreviation body_run ::
    "wire_layout \<Rightarrow> (nat \<Rightarrow> c_timespec, 'j tick_input) callback list \<Rightarrow> weid_ctx \<Rightarrow> weid_ctx option" where
  "body_run lay \<equiv> run_calls (weid_on_datagram lay) weid_on_tick"

definition serves :: "wire_layout \<Rightarrow> 'j weid_poll \<Rightarrow> bool" where
  "serves lay p \<longleftrightarrow> on_datagram p = Some (weid_on_datagram lay) \<and> on_tick p = Some weid_on_tick"

lemma iter_is_calls: "loop_calls d p [ITER ev] = iter_calls d ev"
  by (auto simp: iter_calls_def split: poll_result.splits bool.splits)

lemma iter_feed_ok:
  "daemon_input_ok lay (ITER ev) \<Longrightarrow> list_all feed_ok (feed_of lay (iter_calls d ev))"
  using daemon_feed_ok [of lay "[ITER ev]" d 0] unfolding iter_is_calls by simp

lemma iter_run_calls:
  assumes "serves lay p" "daemon_input_ok lay (ITER ev)" "poll_iter ev (loop_of p d) = Some out"
    "out \<in> {LOOP_RUNNING st, LOOP_RETURNED st}"
  shows "body_run lay (iter_calls (d_next_tick d) ev) (d_ctx d) = Some (ls_user st)" "serves lay (ls_ctx st)"
proof -
  have dry: "RECV_FAIL \<in> set (ev_recv ev)" using assms(2) by (simp add: daemon_input_ok_def)
  have "map_option (\<lambda>out. ls_user (outcome out)) (poll_loop [ITER ev] (loop_of p d)) =
      body_run lay (loop_calls (ls_next_tick (loop_of p d)) (tick_ms (ls_ctx (loop_of p d))) [ITER ev]) (ls_user (loop_of p d))"
    using assms(1) dry by (intro loop_run_calls) (simp_all add: serves_def loop_of_def)
  moreover have "map_option (\<lambda>out. ls_user (outcome out)) (poll_loop [ITER ev] (loop_of p d)) = Some (ls_user st)"
    using assms(3,4) by auto
  ultimately show "body_run lay (iter_calls (d_next_tick d) ev) (d_ctx d) = Some (ls_user st)"
    unfolding iter_is_calls by (simp add: loop_of_def)
  show "serves lay (ls_ctx st)"
    using assms(1,3,4)
    by (auto simp: serves_def poll_iter_def poll_deadline_def loop_of_def Let_def dest: revive_frame(2,3)
        split: poll_result.splits if_splits option.splits prod.splits)
qed

text \<open>A cancelled receive phase has made the callbacks of the datagrams before the cancellation.\<close>

lemma drain_until_calls:
  fixes p :: "'j weid_poll"
  defines "cs ev \<equiv> (drain_calls (ev_recv ev) :: (nat \<Rightarrow> c_timespec, 'j tick_input) callback list)"
  assumes "serves lay p" "daemon_input_ok lay (ITER ev)" "drain_until ev p d = Some e"
  shows "body_run lay (cs ev) (d_ctx d) = Some (d_ctx e)"
    "list_all feed_ok (feed_of lay (cs ev))"
    "d_calls e = d_calls d @ cs ev" "d_poll e = d_poll d" "d_main e = d_main d"
proof -
  have readable: "ev_poll ev = POLL_DONE False True" using assms(4) by (auto simp: drain_until_def split: if_splits)
  have drain: "wei_sock_drain p (ev_recv ev) (d_ctx d) = body_run lay (cs ev) (d_ctx d)"
    using assms(2,3) unfolding cs_def by (intro drain_run_calls) (simp_all add: serves_def daemon_input_ok_def)
  show "body_run lay (cs ev) (d_ctx d) = Some (d_ctx e)"
    using assms(4) unfolding drain_until_def drain by (auto split: if_splits)
  show "d_calls e = d_calls d @ cs ev" "d_poll e = d_poll d" "d_main e = d_main d"
    using assms(4) by (auto simp: drain_until_def cs_def split: if_splits)
  show "list_all feed_ok (feed_of lay (cs ev))"
    using iter_feed_ok [OF assms(3), of "wei_now_ms (ev_after ev) + 1"] readable by (simp add: iter_calls_def cs_def)
qed

section \<open>What every reachable state has reported\<close>

definition reports_sent :: "bus_call list \<Rightarrow> bus_call list" where
  "reports_sent tr = filter (\<lambda>c. case c of CALL_publish n r rc \<Rightarrow> True | _ \<Rightarrow> False) tr"

lemma reports_sent_simps [simp]:
  "reports_sent [] = []" "reports_sent (tr @ tr') = reports_sent tr @ reports_sent tr'"
  "reports_sent (map report_call ts) = map report_call ts"
  by (simp_all add: reports_sent_def report_call_def)

lemma bus_open_silent: "weid_bus_open env b = (rc, b') \<Longrightarrow> reports_sent (bus_trace b') = reports_sent (bus_trace b)"
  by (auto simp: weid_bus_open_def wei_connperf_dml_register_def bus_log_def reports_sent_def Let_def
      split: if_splits option.splits prod.splits)

lemma bus_close_silent: "reports_sent (bus_trace (weid_bus_close env b)) = reports_sent (bus_trace b)"
  by (simp add: weid_bus_close_def bus_log_def reports_sent_def Let_def)

lemma close_bus_silent [simp]:
  "reports_sent (bus_trace (wd_bus (d_ctx (close_bus P d)))) = reports_sent (bus_trace (wd_bus (d_ctx d)))"
  "d_calls (close_bus P d) = d_calls d"
  by (simp_all add: close_bus_def with_bus_def bus_close_silent)

lemma deinit_wire_silent [simp]:
  "wd_bus (d_ctx (deinit_wire d)) = wd_bus (d_ctx d)" "d_calls (deinit_wire d) = d_calls d"
  "d_main (deinit_wire d) = d_main d"
  by (simp_all add: deinit_wire_def weid_wire_deinit_def)

lemma with_bus_calls [simp]:
  "d_calls (with_bus b d) = d_calls d" "wd_perf (d_ctx (with_bus b d)) = wd_perf (d_ctx d)" "d_poll (with_bus b d) = d_poll d"
  by (simp_all add: with_bus_def)

text \<open>
  The callbacks made so far explain a context: it is what they leave of a fresh engine, an
  empty report table and an opened bus on which nothing has been published.
\<close>

definition explains :: "'j daemon_params \<Rightarrow> 'j daemon \<Rightarrow> weid_ctx \<Rightarrow> bool" where
  "explains P d ctx \<longleftrightarrow>
     (\<exists>eng b0. wei_infer_create (Some weid_wire_default_policy) True = Some eng \<and> bus_opened b0 \<and>
        reports_sent (bus_trace b0) = [] \<and>
        body_run (dp_layout P) (d_calls d) \<lparr>wd_engine = Some eng, wd_perf = perf_init, wd_bus = b0\<rparr> = Some ctx)"

definition told :: "'j daemon_params \<Rightarrow> 'j daemon \<Rightarrow> bool" where
  "told P d \<longleftrightarrow> (\<exists>ctx. explains P d ctx \<and> reports_sent (bus_trace (wd_bus (d_ctx d))) = reports_sent (bus_trace (wd_bus ctx)))"

text \<open>Before the pipeline is wired nothing has happened; while it is, its context is the explained one.\<close>

definition unwired :: "'j daemon \<Rightarrow> bool" where
  "unwired d \<longleftrightarrow> d_calls d = [] \<and> wd_perf (d_ctx d) = perf_init \<and> reports_sent (bus_trace (wd_bus (d_ctx d))) = []"

definition running :: "'j daemon_params \<Rightarrow> 'j daemon \<Rightarrow> bool" where
  "running P d \<longleftrightarrow> (\<exists>ctx w p. explains P d ctx \<and> d_ctx d = with_flags w ctx \<and> d_poll d = Some p \<and> serves (dp_layout P) p)"

definition report_inv :: "'j daemon_params \<Rightarrow> 'j daemon \<Rightarrow> bool" where
  "report_inv P d \<longleftrightarrow> list_all feed_ok (feed_of (dp_layout P) (d_calls d)) \<and>
     (case d_main d of
        M_START \<Rightarrow> unwired d
      | M_MASKED \<Rightarrow> unwired d
      | M_LOADED \<Rightarrow> unwired d
      | M_BUS \<Rightarrow> unwired d
      | M_WIRED \<Rightarrow> running P d
      | M_SIGWAIT \<Rightarrow> running P d
      | M_JOINED \<Rightarrow> running P d
      | M_UNWIRED \<Rightarrow> told P d
      | M_STOPPED \<Rightarrow> told P d
      | M_EXIT rc \<Rightarrow> told P d)"

lemma unwired_told:
  assumes "unwired d"
  shows "told P d"
proof -
  obtain eng where "wei_infer_create (Some weid_wire_default_policy) True = Some eng" by (simp add: wei_infer_create_def)
  then show ?thesis
    using assms unfolding told_def explains_def
    by (intro exI [of _ "\<lparr>wd_engine = Some eng, wd_perf = perf_init, wd_bus = g_weid_bus_init\<lparr>bus_opened := True\<rparr>\<rparr>"] conjI
        exI [of _ eng] exI [of _ "g_weid_bus_init\<lparr>bus_opened := True\<rparr>"])
      (simp_all add: unwired_def g_weid_bus_init_def)
qed

lemma running_told: "running P d \<Longrightarrow> told P d"
  by (auto simp: running_def told_def)

lemma report_inv_told: "report_inv P d \<Longrightarrow> told P d"
  by (auto simp: report_inv_def intro: unwired_told running_told split: main_pc.splits)

lemma told_same:
  "told P d \<Longrightarrow> d_calls d' = d_calls d \<Longrightarrow>
    reports_sent (bus_trace (wd_bus (d_ctx d'))) = reports_sent (bus_trace (wd_bus (d_ctx d))) \<Longrightarrow> told P d'"
  by (auto simp: told_def explains_def)

lemma unwired_same:
  "unwired d \<Longrightarrow> d_calls d' = d_calls d \<Longrightarrow> wd_perf (d_ctx d') = wd_perf (d_ctx d) \<Longrightarrow>
    reports_sent (bus_trace (wd_bus (d_ctx d'))) = reports_sent (bus_trace (wd_bus (d_ctx d))) \<Longrightarrow> unwired d'"
  by (auto simp: unwired_def)

lemma running_flags:
  assumes "running P d" "d_calls d' = d_calls d" "d_ctx d' = with_flags w (d_ctx d)" "d_poll d' = d_poll d"
  shows "running P d'"
proof -
  obtain ctx v p where r: "explains P d ctx" "d_ctx d = with_flags v ctx" "d_poll d = Some p" "serves (dp_layout P) p"
    using assms(1) by (auto simp: running_def)
  then have "explains P d' ctx" "d_ctx d' = with_flags w ctx" using assms(2,3) by (simp_all add: explains_def)
  then show ?thesis using r(3,4) assms(4) by (auto simp: running_def)
qed

lemma running_same:
  assumes "running P d" "d_calls d' = d_calls d" "d_ctx d' = d_ctx d" "d_poll d' = d_poll d"
  shows "running P d'"
  using running_flags [OF assms(1,2) _ assms(4), of "dml_config_flags (wd_bus (d_ctx d))"] assms(3) by simp

text \<open>More callbacks, run on the context with whatever flags the bus thread left in it.\<close>

lemma running_calls:
  assumes "running P d" "body_run (dp_layout P) cs (d_ctx d) = Some (d_ctx d')" "d_calls d' = d_calls d @ cs"
    "d_poll d' = Some p" "serves (dp_layout P) p"
  shows "running P d'"
proof -
  obtain ctx w where c: "explains P d ctx" "d_ctx d = with_flags w ctx"
    using assms(1) by (auto simp: running_def)
  obtain c' where c': "body_run (dp_layout P) cs ctx = Some c'" "d_ctx d' = with_flags w c'"
    using assms(2) unfolding c(2) run_calls_flags by auto
  moreover obtain eng b0 where "wei_infer_create (Some weid_wire_default_policy) True = Some eng" "bus_opened b0"
    "reports_sent (bus_trace b0) = []"
    "body_run (dp_layout P) (d_calls d) \<lparr>wd_engine = Some eng, wd_perf = perf_init, wd_bus = b0\<rparr> = Some ctx"
    using c(1) by (auto simp: explains_def)
  ultimately have "explains P d' c'"
    unfolding explains_def using assms(3) by (intro exI [of _ eng] exI [of _ b0]) (simp add: run_calls_append)
  then show ?thesis using c'(2) assms(4,5) by (auto simp: running_def)
qed

text \<open>Every step of every thread keeps the account.\<close>

lemma report_inv_init: "report_inv P (daemon_init file)"
  by (simp add: report_inv_def unwired_def daemon_init_def g_weid_bus_init_def)

lemma config_set_flags:
  "wei_connperf_config_set s nm data = (rc, b) \<Longrightarrow> \<exists>w. b = s\<lparr>dml_config_flags := w\<rparr>"
proof -
  assume "wei_connperf_config_set s nm data = (rc, b)"
  then have "b = s \<or> (\<exists>w. b = s\<lparr>dml_config_flags := w\<rparr>)"
    by (auto simp: wei_connperf_config_set_def split: option.splits if_splits)
  moreover have "s = s\<lparr>dml_config_flags := dml_config_flags s\<rparr>" by simp
  ultimately show ?thesis by metis
qed

lemma bus_step_report:
  assumes "report_inv P d" "daemon_step P d BUS_THREAD d'"
  shows "report_inv P d'"
  using assms(2)
proof cases
  case (enable_set io nm data rc store)
  then have same: "d_calls d' = d_calls d" "d_ctx d' = d_ctx d" "d_poll d' = d_poll d" "d_main d' = d_main d" by simp_all
  then show ?thesis
    using assms(1) told_same [of P d d'] unwired_same [of d d'] running_same [of P d d']
    by (auto simp: report_inv_def split: main_pc.splits)
next
  case (config_set nm data rc b)
  obtain w where w: "b = (wd_bus (d_ctx d))\<lparr>dml_config_flags := w\<rparr>" using config_set_flags [OF config_set(3)] by blast
  have same: "d_calls d' = d_calls d" "d_poll d' = d_poll d" "d_main d' = d_main d" "wd_perf (d_ctx d') = wd_perf (d_ctx d)"
    "bus_trace (wd_bus (d_ctx d')) = bus_trace (wd_bus (d_ctx d))"
    using config_set(1) w by simp_all
  have "d_ctx d' = with_flags w (d_ctx d)" using config_set(1) w by (simp add: with_bus_def with_flags_def)
  then have "running P d \<Longrightarrow> running P d'" using running_flags same(1,2) by blast
  then show ?thesis
    using assms(1) told_same [of P d d'] unwired_same [of d d'] same
    by (auto simp: report_inv_def split: main_pc.splits)
qed

lemma body_step_report:
  assumes "daemon_inv P d" "report_inv P d" "daemon_step P d BODY d'"
  shows "report_inv P d'"
  using assms(3)
proof cases
  case (iterate p ev st)
  have main: "d_main d = M_SIGWAIT" using inv_body [OF assms(1) iterate(2)] by simp
  then have run: "running P d" using assms(2) by (simp add: report_inv_def)
  then have p: "serves (dp_layout P) p" using iterate(3) by (auto simp: running_def)
  note calls = iter_run_calls [OF p iterate(4,5)]
  have "running P d'"
    using running_calls [OF run, of "iter_calls (d_next_tick d) ev" d' "ls_ctx st"] calls [of st] iterate(1)
    by (simp add: with_loop_def)
  then show ?thesis
    using assms(2) main iterate(1) iter_feed_ok [OF iterate(4), of "d_next_tick d"]
    by (simp add: report_inv_def with_loop_def)
next
  case (loop_returns p ev st)
  have main: "d_main d = M_SIGWAIT" using inv_body [OF assms(1) loop_returns(2)] by simp
  then have run: "running P d" using assms(2) by (simp add: report_inv_def)
  then have p: "serves (dp_layout P) p" using loop_returns(3) by (auto simp: running_def)
  note calls = iter_run_calls [OF p loop_returns(4,5)]
  have none: "iter_calls (d_next_tick d) ev = []" 
    using loop_returns(5) by (auto simp: poll_iter_def iter_calls_def Let_def split: poll_result.splits if_splits option.splits)
  have "running P d'"
    using running_calls [OF run, of "[]" d' "ls_ctx st"] calls [of st] none loop_returns(1)
    by (simp add: with_loop_def)
  then show ?thesis
    using assms(2) main loop_returns(1) by (simp add: report_inv_def with_loop_def)
qed

lemma wire_up_running:
  assumes "unwired d" "bus_opened (wd_bus (d_ctx d))"
    and w: "weid_wire_init (dp_layout P) allocs sock (d_ctx d) (d_sys d) = (0, poll, ctx, sys)"
    and d': "d_calls d' = d_calls d" "d_ctx d' = ctx" "d_poll d' = poll"
  shows "running P d'"
proof -
  obtain eng p where e: "poll = Some p" "wei_infer_create (Some weid_wire_default_policy) (fst allocs) = Some eng"
    "ctx = (d_ctx d)\<lparr>wd_engine := Some eng\<rparr>" "on_datagram p = Some (weid_on_datagram (dp_layout P))" "on_tick p = Some weid_on_tick"
    using wire_init_eng [OF w] by blast
  have "wei_infer_create (Some weid_wire_default_policy) True = Some eng"
    using e(2) by (auto simp: wei_infer_create_def split: if_splits)
  moreover have "\<lparr>wd_engine = Some eng, wd_perf = perf_init, wd_bus = wd_bus (d_ctx d)\<rparr> = ctx"
    using e(3) assms(1) by (cases "d_ctx d") (simp add: unwired_def)
  ultimately have "explains P d' ctx"
    using assms(1,2) d'(1) unfolding explains_def
    by (intro exI [of _ eng] exI [of _ "wd_bus (d_ctx d)"]) (simp add: unwired_def)
  then show ?thesis
    unfolding running_def using d'(2,3) e(1,4,5)
    by (intro exI [of _ ctx] exI [of _ "dml_config_flags (wd_bus ctx)"] exI [of _ p]) (simp add: serves_def)
qed

lemma cancelled:
  assumes "report_inv P d" "d_main d = M_SIGWAIT" "d_poll d = Some p" "daemon_input_ok (dp_layout P) (ITER ev)"
    "drain_until ev p d = Some e"
    and d': "d_main d' = M_JOINED" "d_calls d' = d_calls e" "d_ctx d' = d_ctx e" "d_poll d' = d_poll e"
  shows "report_inv P d'"
proof -
  have run: "running P d" using assms(1,2) by (simp add: report_inv_def)
  then have p: "serves (dp_layout P) p" using assms(3) by (auto simp: running_def)
  note calls = drain_until_calls [OF p assms(4,5)]
  have "running P d'"
    using running_calls [OF run calls(1) [folded d'(3)] _ _ p] calls(3,4) d' assms(3) by simp
  then show ?thesis using assms(1) calls(2,3) d'(1,2) by (simp add: report_inv_def)
qed

lemma main_step_report:
  assumes "daemon_inv P d" "report_inv P d" "daemon_step P d MAIN d'"
  shows "report_inv P d'"
  using assms(3)
proof cases
  case (mask_fail)
  then show ?thesis using assms(2) unwired_told [of d P] told_same [of P d d'] by (simp add: report_inv_def)
next
  case mask
  then show ?thesis using assms(2) unwired_same [of d d'] by (simp add: report_inv_def)
next
  case (load io)
  then show ?thesis using assms(2) unwired_same [of d d'] by (simp add: report_inv_def)
next
  case (bus_fail env rc b)
  then show ?thesis
    using assms(2) unwired_told [of d P] told_same [of P d d'] bus_open_silent [OF bus_fail(3)] by (simp add: report_inv_def)
next
  case (bus_open env b)
  then show ?thesis using assms(2) unwired_same [of d d'] bus_open_silent [OF bus_open(3)] by (simp add: report_inv_def)
next
  case (wire_fail allocs sock rc poll ctx sys)
  then show ?thesis
    using assms(2) unwired_told [of d P] told_same [of P d d'] wire_init_bus [OF wire_fail(3)] by (simp add: report_inv_def)
next
  case (wire_up allocs sock poll ctx sys)
  have "bus_opened (wd_bus (d_ctx d))" using assms(1) wire_up(2) by (simp add: daemon_inv_def bus_live_def)
  then show ?thesis
    using assms(2) wire_up_running [OF _ _ wire_up(3), of d'] wire_up(1,2) by (simp add: report_inv_def)
next
  case thread_fail
  then show ?thesis using assms(2) running_told [of P d] told_same [of P d d'] by (simp add: report_inv_def)
next
  case (thread_up p start)
  then show ?thesis using assms(2) running_same [of P d d'] by (simp add: report_inv_def)
next
  case signalled
  then show ?thesis using assms(2) running_same [of P d d'] by (simp add: report_inv_def)
next
  case (signalled_at_recv p ev e)
  then show ?thesis using cancelled [OF assms(2) signalled_at_recv(2,4-6), of d'] by simp
next
  case (signalled_in_log p ev e)
  then show ?thesis using cancelled [OF assms(2) signalled_in_log(2,4-6), of d'] by simp
next
  case unwire
  then show ?thesis using assms(2) running_told [of P d] told_same [of P d d'] by (simp add: report_inv_def)
next
  case unbus
  then show ?thesis using assms(2) told_same [of P d d'] by (simp add: report_inv_def)
next
  case stopped
  then show ?thesis using assms(2) told_same [of P d d'] by (simp add: report_inv_def)
qed

lemma reachable_report_inv:
  assumes "reachable P d" "params_ok P"
  shows "report_inv P d"
  using assms(1)
proof (induction rule: reachable.induct)
  case start
  show ?case by (rule report_inv_init)
next
  case (step d a d')
  have "daemon_inv P d" using reachable_inv [OF step(1) assms(2)] .
  then show ?case
    using step(2,3) main_step_report body_step_report bus_step_report by (cases a) blast+
qed

section \<open>From the socket to the bus, for the process\<close>


text \<open>The process comes up, receives one frame of one station, and ticks.\<close>

definition sample_process :: "unit daemon_params" where
  "sample_process = \<lparr>dp_cjson = pe_cjson (pt_pe (Perfreport.sample_tick WEI_INFER_VERDICT_SMOOTH)),
     dp_layout = sample_layout, dp_close = good_bus\<rparr>"

definition sample_round :: "int \<Rightarrow> (nat \<Rightarrow> c_timespec, unit tick_input) poll_event" where
  "sample_round t =
     \<lparr>ev_now = at_ms t, ev_poll = POLL_DONE False True,
      ev_recv = [RECV (stats_frame sample_layout [[7]]) (\<lambda>i. \<lparr>tv_sec = 5, tv_nsec = 0\<rparr>), RECV_FAIL],
      ev_after = at_ms t, ev_stat = True, ev_sock = sample_sock 3, ev_tick = Pipeline.sample_tick\<rparr>"

definition sample_callbacks :: "(nat \<Rightarrow> c_timespec, unit tick_input) callback list" where
  "sample_callbacks = [CB_DATAGRAM (\<lambda>i. \<lparr>tv_sec = 5, tv_nsec = 0\<rparr>) (stats_frame sample_layout [[7]]), CB_TICK Pipeline.sample_tick]"

lemma sample_round_calls: "iter_calls t (sample_round t) = sample_callbacks"
  by (simp add: iter_calls_def sample_round_def sample_callbacks_def WEI_DGRAM_MAX_def stats_frame_def)

lemma sample_round_ok: "daemon_input_ok sample_layout (ITER (sample_round t))"
proof -
  have "entries_plausible sample_layout buf" for buf
    by (simp add: entries_plausible_def sample_layout_def weid_wire_map_record_def PHY_SAFE_KBPS_def)
  then show ?thesis by (auto simp: sample_round_def daemon_input_ok_def Pipeline.sample_tick_def)
qed

lemma sample_fed: "fed_stations (feed_of sample_layout sample_callbacks) = {Mac 7 0 0 0 0 0}"
proof -
  have "received sample_layout (stats_frame sample_layout [[7]]) = [decode_stats_arg sample_layout [7]]"
    using received_frame [of sample_layout "[[7]]"] by (simp add: sample_layout_def frame_entries_ok_def)
  moreover have "cli_MACAddress (decode_stats_arg sample_layout [7]) = Mac 7 0 0 0 0 0" by (simp add: sample_layout_def)
  ultimately show ?thesis by (auto simp: sample_callbacks_def fed_stations_def Pipeline.sample_tick_def)
qed

lemma sample_reached: "\<exists>d. reachable sample_process d \<and> d_main d = M_SIGWAIT \<and> d_calls d = sample_callbacks"
proof -
  have P: "params_ok sample_process" by (simp add: params_ok_def sample_process_def good_bus_def)
  obtain d where d: "reachable sample_process d" "d_body d = B_LOOP" "d_calls d = []" "d_main d = M_SIGWAIT"
    using daemon_comes_up [OF P] by blast
  obtain p where p: "d_poll d = Some p" "wired sample_process d"
    using inv_body [OF reachable_inv [OF d(1) P] d(2)] by (auto simp: wired_def)
  let ?ev = "sample_round (d_next_tick d)"
  have ev: "daemon_input_ok (dp_layout sample_process) (ITER ?ev)" using sample_round_ok by (simp add: sample_process_def)
  obtain out st where out: "poll_iter ?ev (loop_of p d) = Some out" "out \<in> {LOOP_RUNNING st, LOOP_RETURNED st}"
    using body_inv [OF p ev] by blast
  then have "poll_iter ?ev (loop_of p d) = Some (LOOP_RUNNING st)"
    by (auto simp: poll_iter_def sample_round_def Let_def split: option.splits)
  from reachable.step [OF d(1) daemon_step.iterate [OF d(2) p(1) ev this]] show ?thesis
    using d(3,4) sample_round_calls by (auto simp: with_loop_def)
qed


end
