(* ===== verification/Clock.thy ===== *)
theory Clock
  imports Process
begin

text \<open>
  The widths of the millisecond arithmetic (source/wei_track.c, source/wei_infer.c). The model keeps
  \<open>int64_t\<close> times as integers; here the operations that add and subtract them are written once
  more with the overflow of a signed 64-bit result as \<open>None\<close>, and are shown to agree with the
  unbounded ones in every state the process reaches on a clock that does not run backwards:
  every stamp the engine keeps is a reading the clock has shown, or zero.
\<close>

section \<open>The same operations at their width\<close>

definition i64 :: "int \<Rightarrow> int option" where
  "i64 x = (if - (2 ^ 63) \<le> x \<and> x < 2 ^ 63 then Some x else None)"

definition wei_infer_now_ms64 :: "c_timespec \<Rightarrow> int option" where
  "wei_infer_now_ms64 ts =
     (case i64 (tv_sec ts * 1000) of
        None \<Rightarrow> None
      | Some s \<Rightarrow> i64 (s + tv_nsec ts div 1000000))"

definition wei_track_tick64 :: "wei_track_entry \<Rightarrow> int \<Rightarrow> int \<Rightarrow> int \<Rightarrow> int \<Rightarrow> wei_track_entry option" where
  "wei_track_tick64 e metric now_ms band floor_ms =
     (if metric < band then
        Some (if te_start_ts e = 0 then e\<lparr>te_start_ts := now_ms, te_count := te_count e + 1\<rparr> else e)
      else if te_start_ts e \<noteq> 0 then
        (case i64 (now_ms - te_start_ts e) of
           None \<Rightarrow> None
         | Some elapsed \<Rightarrow>
             if elapsed \<ge> floor_ms then
               (case i64 (te_accumulated e + elapsed) of
                  None \<Rightarrow> None
                | Some acc \<Rightarrow> Some (e\<lparr>te_accumulated := acc, te_start_ts := 0\<rparr>))
             else Some (e\<lparr>te_start_ts := 0\<rparr>))
      else Some e)"

fun track_reap_entries64 :: "int \<Rightarrow> int \<Rightarrow> wei_track_entry list \<Rightarrow> wei_track_entry list option" where
  "track_reap_entries64 now_ms absence_ms [] = Some []"
| "track_reap_entries64 now_ms absence_ms (e # es) =
     (case (if te_in_use e
            then map_option (\<lambda>age. if age > absence_ms then zero_track_entry else e) (i64 (now_ms - te_last_seen e))
            else Some e) of
        None \<Rightarrow> None
      | Some e \<Rightarrow> map_option ((#) e) (track_reap_entries64 now_ms absence_ms es))"

definition wei_track_reap64 :: "wei_track_table \<Rightarrow> int \<Rightarrow> int \<Rightarrow> wei_track_table option" where
  "wei_track_reap64 table now_ms absence_ms =
     map_option (\<lambda>es. table\<lparr>entries := es\<rparr>) (track_reap_entries64 now_ms absence_ms (entries table))"

fun map_reap_slots64 :: "int \<Rightarrow> nat list \<Rightarrow> wei_infer_engine \<Rightarrow> wei_infer_engine option" where
  "map_reap_slots64 now_ms [] eng = Some eng"
| "map_reap_slots64 now_ms (i # is) eng =
     (let mp = eng_map eng; slot = map_slots mp ! i
      in if \<not> sl_in_use slot then map_reap_slots64 now_ms is eng
         else case i64 (now_ms - sl_last_seen slot) of
                None \<Rightarrow> None
              | Some age \<Rightarrow>
                  map_reap_slots64 now_ms is
                    (if age > WEI_TRACK_ABSENCE_DEFAULT_MS
                     then eng\<lparr>eng_map := \<lparr>map_slots = (map_slots mp)[i := zero_infer_slot],
                                          map_count = (if map_count mp > 0 then map_count mp - 1 else map_count mp)\<rparr>,
                              eng_ledger := (eng_ledger eng)[i := zero_episode_log]\<rparr>
                     else eng))"

definition wei_infer_map_reap64 :: "wei_infer_engine \<Rightarrow> int \<Rightarrow> wei_infer_engine option" where
  "wei_infer_map_reap64 eng now_ms = map_reap_slots64 now_ms [0..<WEI_TRACK_MAX_CLIENTS] eng"

section \<open>What the clock has shown\<close>

text \<open>
  Every stamp lies between 0 and the last reading; an episode ends after it began; and between
  ticks no excursion time is left uncollected.
\<close>

definition entry_in :: "int \<Rightarrow> wei_track_entry \<Rightarrow> bool" where
  "entry_in T e \<longleftrightarrow> 0 \<le> te_last_seen e \<and> te_last_seen e \<le> T \<and> 0 \<le> te_start_ts e \<and> te_start_ts e \<le> T \<and>
     te_accumulated e = 0"

definition slot_in :: "int \<Rightarrow> wei_infer_slot \<Rightarrow> bool" where
  "slot_in T s \<longleftrightarrow> 0 \<le> sl_last_seen s \<and> sl_last_seen s \<le> T"

definition episode_in :: "int \<Rightarrow> wei_infer_episode \<Rightarrow> bool" where
  "episode_in T ep \<longleftrightarrow> 0 \<le> ep_start_ms ep \<and> ep_start_ms ep \<le> T \<and>
     (ep_stop_ms ep = 0 \<or> ep_start_ms ep \<le> ep_stop_ms ep \<and> ep_stop_ms ep \<le> T)"

definition clocked :: "int \<Rightarrow> wei_infer_engine \<Rightarrow> bool" where
  "clocked T eng \<longleftrightarrow>
     list_all (entry_in T) (entries (eng_tracker eng)) \<and>
     list_all (slot_in T) (map_slots (eng_map eng)) \<and>
     list_all (\<lambda>lg. list_all (episode_in T) (lg_ring lg)) (eng_ledger eng)"

lemma clocked_mono:
  assumes "clocked T eng" "T \<le> T'"
  shows "clocked T' eng"
proof -
  have "entry_in T e \<Longrightarrow> entry_in T' e" "slot_in T s \<Longrightarrow> slot_in T' s" "episode_in T ep \<Longrightarrow> episode_in T' ep" for e s ep
    using assms(2) by (auto simp: entry_in_def slot_in_def episode_in_def)
  then show ?thesis using assms(1) by (auto simp: clocked_def list_all_iff)
qed

lemma zero_in [simp]:
  assumes "0 \<le> T"
  shows "entry_in T zero_track_entry" "slot_in T zero_infer_slot" "list_all (episode_in T) (lg_ring zero_episode_log)"
  using assms
  by (simp_all add: entry_in_def slot_in_def episode_in_def zero_track_entry_def zero_infer_slot_def
      zero_episode_log_def zero_infer_episode_def list_all_length)

lemma create_clocked:
  "wei_infer_create (Some p) ok = Some eng \<Longrightarrow> 0 \<le> T \<Longrightarrow> clocked T eng"
  by (auto simp: clocked_def wei_infer_create_def wei_track_init_def zero_track_table_def list_all_length
      dest: zero_in(3) split: if_splits)

lemma stage_clocked:
  assumes "clocked t eng" "t \<le> wei_infer_now_ms ts" "0 \<le> t"
  shows "clocked (wei_infer_now_ms ts) (wei_infer_stage_record ts eng m rec)"
proof -
  have c: "clocked (wei_infer_now_ms ts) eng" using clocked_mono assms(1,2) by blast
  then have "list_all (slot_in (wei_infer_now_ms ts)) (fst (map_admit (map_slots (eng_map eng)) m (wei_infer_now_ms ts)))"
    by - (rule map_tbl.admit_cases [of "map_slots (eng_map eng)" m "wei_infer_now_ms ts"],
      use assms(2,3) in \<open>auto simp: clocked_def slot_in_def map_claim_def intro!: list_all_update\<close>)
  then show ?thesis using c by (auto simp: clocked_def stage_admit split: option.splits)
qed

lemma track_get_in:
  assumes "list_all (entry_in T) (entries t)" "0 \<le> T" "wei_track_get t m T = (t', r)"
  shows "list_all (entry_in T) (entries t')" "r = Some i \<Longrightarrow> i < length (entries t')"
proof -
  have adm: "entries t' = fst (track_admit (entries t) m T)" "r = snd (track_admit (entries t) m T)"
    using assms(3) by (auto simp: track_get_admit)
  show "list_all (entry_in T) (entries t')"
    unfolding adm using assms(1,2)
    by - (rule track_tbl.admit_cases [of "entries t" m T],
      auto simp: entry_in_def track_fresh_def zero_track_entry_def list_all_length nth_list_update)
  show "r = Some i \<Longrightarrow> i < length (entries t')"
    unfolding adm by (rule track_tbl.admit_cases [of "entries t" m T]) auto
qed

lemma tick_in:
  "entry_in T e \<Longrightarrow> 0 \<le> T \<Longrightarrow> entry_in T (fst (wei_track_collect (wei_track_tick e metric T band floor_ms)))"
  by (auto simp: entry_in_def wei_track_collect_def wei_track_tick_def Let_def)

lemma flag_instability_in:
  assumes "list_all (entry_in T) (entries t)" "0 \<le> T" "wei_infer_flag_instability p t m st out T = Some (t', out')"
  shows "list_all (entry_in T) (entries t')"
proof -
  obtain t1 r where get: "wei_track_get t m T = (t1, r)" by fastforce
  note in1 = track_get_in [OF assms(1,2) get]
  show ?thesis
  proof (cases r)
    case None
    then show ?thesis using assms(3) in1(1) get
      by (auto simp: wei_infer_flag_instability_def Let_def split: option.splits)
  next
    case (Some i)
    have "entry_in T (entries t1 ! i)" using in1 Some by (simp add: list_all_length)
    then show ?thesis using assms(2,3) in1(1) get Some
      by (auto simp: wei_infer_flag_instability_def Let_def case_prod_beta tick_in split: option.splits
          intro!: list_all_update)
  qed
qed

lemma ledger_update_in:
  assumes "list_all (episode_in T) (lg_ring lg)" "0 \<le> T"
  shows "list_all (episode_in T) (lg_ring (wei_infer_ledger_update lg v T))"
proof (cases "unat (lg_head lg) < length (lg_ring lg)")
  case True
  then have "episode_in T (lg_ring lg ! unat (lg_head lg))" using assms(1) by (simp add: list_all_length)
  then show ?thesis
    using assms
    by (auto simp: wei_infer_ledger_update_def ledger_enter_def Let_def episode_in_def intro!: list_all_update)
next
  case False
  then have "lg_ring (wei_infer_ledger_update lg v T) = lg_ring lg \<or>
      (\<exists>h. lg_ring (wei_infer_ledger_update lg v T) = (lg_ring lg)[h := \<lparr>ep_start_ms = T, ep_stop_ms = 0\<rparr>])"
    by (auto simp: wei_infer_ledger_update_def ledger_enter_def Let_def list_update_beyond)
  then show ?thesis
    using assms by (auto simp: episode_in_def intro!: list_all_update)
qed

lemma score_clocked:
  assumes "clocked T eng" "0 \<le> T" "engine_score env eng i T = Some (scored, eng')"
  shows "clocked T eng'"
proof -
  have judge: "clocked T e" if j: "engine_judge eng i st out T = Some e" for st out e
  proof -
    have slot: "list_all (slot_in T) ((map_slots (eng_map eng))[i := (map_slots (eng_map eng) ! i)\<lparr>sl_state := st'\<rparr>])" for st'
      using assms(1) by (cases "i < length (map_slots (eng_map eng))")
        (auto simp: clocked_def slot_in_def list_all_length list_update_beyond nth_list_update)
    have log: "list_all (\<lambda>lg. list_all (episode_in T) (lg_ring lg))
        ((eng_ledger eng)[i := wei_infer_ledger_update (eng_ledger eng ! i) v T])" for v
      using assms(1,2) ledger_update_in [of T "eng_ledger eng ! i" v] by (cases "i < length (eng_ledger eng)")
        (auto simp: clocked_def list_all_length list_update_beyond nth_list_update)
    show ?thesis
      using j assms(1,2) slot log
      by (auto simp: engine_judge_def clocked_def Let_def case_prod_beta dest: flag_instability_in split: option.splits)
  qed
  then show ?thesis
    using assms(1,3) by (auto simp: engine_score_def Let_def split: if_splits option.splits prod.splits)
qed

lemma sweep_clocked:
  "clocked T eng \<Longrightarrow> 0 \<le> T \<Longrightarrow> sweep_scores env T is eng = Some (eng', rs) \<Longrightarrow> clocked T eng'"
proof (induction "is" arbitrary: eng rs)
  case (Cons i "is")
  then obtain scored e rs' where "engine_score env eng i T = Some (scored, e)" "sweep_scores env T is e = Some (eng', rs')"
    by (auto split: option.splits)
  then show ?case using Cons score_clocked by metis
qed simp

lemma track_reap_in:
  "list_all (entry_in T) (entries t) \<Longrightarrow> 0 \<le> T \<Longrightarrow> list_all (entry_in T) (entries (wei_track_reap t now_ms a))"
  by (auto simp: wei_track_reap_def list_all_iff)

lemma map_reap_slot_clocked: "clocked T eng \<Longrightarrow> 0 \<le> T \<Longrightarrow> clocked T (map_reap_slot now_ms eng i)"
  by (auto simp: map_reap_slot_def clocked_def Let_def intro!: list_all_update)

lemma map_reap_clocked: "clocked T eng \<Longrightarrow> 0 \<le> T \<Longrightarrow> clocked T (wei_infer_map_reap eng now_ms)"
proof -
  have "clocked T eng \<Longrightarrow> 0 \<le> T \<Longrightarrow> clocked T (foldl (map_reap_slot now_ms) eng is)" for "is"
    by (induction "is" arbitrary: eng) (simp_all add: map_reap_slot_clocked)
  then show "clocked T eng \<Longrightarrow> 0 \<le> T \<Longrightarrow> clocked T (wei_infer_map_reap eng now_ms)" by (simp add: wei_infer_map_reap_def)
qed

lemma tick_clocked:
  assumes "clocked t eng" "0 \<le> t" "t \<le> wei_infer_now_ms ts" "engine_tick env ts eng = Some (eng', rs)"
  shows "clocked (wei_infer_now_ms ts) eng'"
proof -
  let ?T = "wei_infer_now_ms ts"
  obtain e where e: "sweep_scores env ?T [0..<WEI_TRACK_MAX_CLIENTS] eng = Some (e, rs)"
    "eng' = wei_infer_map_reap (e\<lparr>eng_tracker := wei_track_reap (eng_tracker e) ?T WEI_TRACK_ABSENCE_DEFAULT_MS\<rparr>) ?T"
    using assms(4) by (auto simp: engine_tick_def)
  have T: "0 \<le> ?T" using assms(2,3) by simp
  have "clocked ?T e" using sweep_clocked [OF clocked_mono [OF assms(1,3)] T e(1)] .
  then have "clocked ?T (e\<lparr>eng_tracker := wei_track_reap (eng_tracker e) ?T WEI_TRACK_ABSENCE_DEFAULT_MS\<rparr>)"
    using track_reap_in T by (simp add: clocked_def)
  then show ?thesis unfolding e(2) by (rule map_reap_clocked [OF _ T])
qed

text \<open>A history of calls, each made at a reading no smaller than the one before.\<close>

definition feed_now :: "'w feed \<Rightarrow> int" where
  "feed_now f = (case f of STAGE ts m rec \<Rightarrow> wei_infer_now_ms ts | TICK w env ts \<Rightarrow> wei_infer_now_ms ts)"

lemma history_clocked:
  assumes "clocked t eng" "0 \<le> t" "sorted (t # map feed_now fs)" "engine_history fs eng = Some (eng', hist)"
  shows "clocked (last (t # map feed_now fs)) eng'"
  using assms
proof (induction fs arbitrary: t eng hist)
  case (Cons f fs)
  have t: "t \<le> feed_now f" "0 \<le> feed_now f" "sorted (feed_now f # map feed_now fs)" using Cons.prems(2,3) by simp_all
  show ?case
  proof (cases f)
    case (STAGE ts m rec)
    have "clocked (feed_now f) (wei_infer_stage_record ts eng m rec)"
      using stage_clocked [OF Cons.prems(1) _ Cons.prems(2)] t(1) STAGE by (simp add: feed_now_def)
    then show ?thesis using Cons.IH [OF _ t(2,3)] Cons.prems(4) STAGE by simp
  next
    case (TICK w env ts)
    obtain e rs hist' where e: "engine_tick env ts eng = Some (e, rs)" "engine_history fs e = Some (eng', hist')"
      using Cons.prems(4) TICK by (auto split: option.splits)
    have "clocked (feed_now f) e"
      using tick_clocked [OF Cons.prems(1,2) _ e(1)] t(1) TICK by (simp add: feed_now_def)
    then show ?thesis using Cons.IH [OF _ t(2,3) e(2)] by simp
  qed
qed simp

lemma history_runs:
  "engine_ok eng \<Longrightarrow> rates_ok eng \<Longrightarrow> list_all feed_ok fs \<Longrightarrow>
     \<exists>eng' hist. engine_history fs eng = Some (eng', hist) \<and> engine_ok eng' \<and> rates_ok eng'"
proof (induction fs arbitrary: eng)
  case (Cons f fs)
  show ?case
  proof (cases f)
    case (STAGE ts m rec)
    then show ?thesis using Cons.IH [of "wei_infer_stage_record ts eng m rec"] Cons.prems
      by (simp add: feed_ok_def stage_ok stage_rates)
  next
    case (TICK w env ts)
    then have "libm_exp_ok env" using Cons.prems(3) by (simp add: feed_ok_def)
    then obtain e rs where e: "engine_tick env ts eng = Some (e, rs)" "engine_ok e" "rates_ok e"
      using engine_tick_some Cons.prems(1,2) by blast
    then show ?thesis using Cons.IH [OF e(2,3)] Cons.prems(3) TICK by auto
  qed
qed simp

section \<open>The widths suffice\<close>

lemma i64_age: "0 \<le> s \<Longrightarrow> s \<le> T \<Longrightarrow> 0 \<le> T \<Longrightarrow> T < 2 ^ 63 \<Longrightarrow> i64 (T - s) = Some (T - s)"
  by (simp add: i64_def)

lemma now_ms64:
  assumes "0 \<le> tv_sec ts" "0 \<le> tv_nsec ts" "wei_infer_now_ms ts < 2 ^ 63"
  shows "wei_infer_now_ms64 ts = Some (wei_infer_now_ms ts)"
  using assms pos_imp_zdiv_nonneg_iff [of 1000000 "tv_nsec ts"]
  by (auto simp: wei_infer_now_ms64_def wei_infer_now_ms_def i64_def)

lemma poll_deadline64:
  fixes period :: u32
  assumes "0 \<le> t" "t < 2 ^ 63 - 2 ^ 32" "0 \<le> now" "now < 2 ^ 63"
  shows "i64 (t + uint period) = Some (t + uint period)" "i64 (t + uint period - now) = Some (t + uint period - now)"
proof -
  define p where "p = uint period"
  have "0 \<le> p" "p < 2 ^ 32" using uint_lt2p [of period] by (simp_all add: p_def)
  then show "i64 (t + uint period) = Some (t + uint period)" "i64 (t + uint period - now) = Some (t + uint period - now)"
    using assms unfolding p_def [symmetric] by (simp_all add: i64_def)
qed

lemma track_tick64:
  assumes "entry_in T e" "0 \<le> T" "T < 2 ^ 63"
  shows "wei_track_tick64 e metric T band floor_ms = Some (wei_track_tick e metric T band floor_ms)"
  using assms i64_age [of "te_start_ts e" T]
  by (auto simp: wei_track_tick64_def wei_track_tick_def entry_in_def Let_def)

lemma track_reap64:
  assumes "list_all (entry_in T) (entries t)" "0 \<le> T" "T < 2 ^ 63"
  shows "wei_track_reap64 t T a = Some (wei_track_reap t T a)"
proof -
  have "track_reap_entries64 T a es = Some (map (\<lambda>e. if te_in_use e \<and> T - te_last_seen e > a then zero_track_entry else e) es)"
    if "list_all (entry_in T) es" for es
    using that assms(2,3) by (induction es) (auto simp: entry_in_def i64_age)
  then show ?thesis using assms(1) by (simp add: wei_track_reap64_def wei_track_reap_def)
qed

lemma map_reap64:
  assumes "clocked T eng" "0 \<le> T" "T < 2 ^ 63" "length (map_slots (eng_map eng)) = WEI_TRACK_MAX_CLIENTS"
  shows "wei_infer_map_reap64 eng T = Some (wei_infer_map_reap eng T)"
proof -
  have "map_reap_slots64 T is eng = Some (foldl (map_reap_slot T) eng is)"
    if "\<forall>i \<in> set is. i < length (map_slots (eng_map eng))" "clocked T eng" for "is" eng
    using that
  proof (induction "is" arbitrary: eng)
    case (Cons i "is")
    have "slot_in T (map_slots (eng_map eng) ! i)" using Cons.prems by (simp add: clocked_def list_all_length)
    then have age: "i64 (T - sl_last_seen (map_slots (eng_map eng) ! i)) = Some (T - sl_last_seen (map_slots (eng_map eng) ! i))"
      using i64_age assms(2,3) by (simp add: slot_in_def)
    have "length (map_slots (eng_map (map_reap_slot T eng i))) = length (map_slots (eng_map eng))"
      by (simp add: map_reap_slot_def Let_def)
    then have "map_reap_slots64 T is (map_reap_slot T eng i) = Some (foldl (map_reap_slot T) (map_reap_slot T eng i) is)"
      using Cons.IH [OF _ map_reap_slot_clocked [OF Cons.prems(2) assms(2)], of T i] Cons.prems(1) by simp
    moreover have "map_reap_slots64 T (i # is) eng = map_reap_slots64 T is (map_reap_slot T eng i)"
      using age by (auto simp: map_reap_slot_def Let_def)
    ultimately show ?case by simp
  qed simp
  then show ?thesis using assms(1,4) by (simp add: wei_infer_map_reap64_def wei_infer_map_reap_def)
qed

section \<open>In the process\<close>

lemma running_engine:
  assumes "running P d" "params_ok P" "0 < sizeof_stats_arg (dp_layout P)" "list_all feed_ok (feed_of (dp_layout P) (d_calls d))"
  obtains eng0 eng hist where "wei_infer_create (Some weid_wire_default_policy) True = Some eng0"
    "engine_history (feed_of (dp_layout P) (d_calls d)) eng0 = Some (eng, hist)" "engine_ok eng"
    "wd_engine (d_ctx d) = Some eng"
proof -
  obtain ctx w eng0 b0 where e: "d_ctx d = with_flags w ctx"
    "wei_infer_create (Some weid_wire_default_policy) True = Some eng0"
    "body_run (dp_layout P) (d_calls d) \<lparr>wd_engine = Some eng0, wd_perf = perf_init, wd_bus = b0\<rparr> = Some ctx"
    using assms(1) by (auto simp: running_def explains_def)
  obtain eng hist where h: "engine_history (feed_of (dp_layout P) (d_calls d)) eng0 = Some (eng, hist)" "engine_ok eng"
    using history_runs [OF create_ok [OF e(2) default_policy_sane] assms(4)] by blast
  have "wd_engine ctx = Some eng"
    using e(3) callbacks_split [OF assms(3) h(1) perf_init_ok(1), of b0] by auto
  then show thesis using that e h by simp
qed

text \<open>
  C13. No millisecond arithmetic of the scorer overflows. In every reachable state of the process
  with a live pipeline, as long as the clock has not run backwards and reads below 2^63 ms, every
  stamp the engine keeps (slots, ledgers of excursions, ledgers of episodes) is zero or lies
  between 0 and the present reading, no episode ends before it began, and at every point of the
  next tick's sweep the clock reading, the excursion step of any station and the two reaps compute
  in signed 64 bits what they compute in unbounded integers.
\<close>

theorem process_times_fit:
  fixes P :: "'j daemon_params" and ts :: c_timespec
  defines "now \<equiv> wei_infer_now_ms ts"
  assumes "params_ok P" "reachable P d" "0 < sizeof_stats_arg (dp_layout P)" "d_main d \<in> {M_WIRED, M_SIGWAIT, M_JOINED}"
    and "sorted (0 # map feed_now (feed_of (dp_layout P) (d_calls d)) @ [now])"
    and "0 \<le> tv_sec ts" "0 \<le> tv_nsec ts" "now < 2 ^ 63"
  shows "\<exists>eng. wd_engine (d_ctx d) = Some eng \<and>
    (\<forall>env k e rs. sweep_scores env now [0..<k] eng = Some (e, rs) \<longrightarrow>
       clocked now e \<and>
       wei_infer_now_ms64 ts = Some now \<and>
       (\<forall>m t i metric band floor_ms. wei_track_get (eng_tracker e) m now = (t, Some i) \<longrightarrow>
          wei_track_tick64 (entries t ! i) metric now band floor_ms =
            Some (wei_track_tick (entries t ! i) metric now band floor_ms)) \<and>
       wei_track_reap64 (eng_tracker e) now WEI_TRACK_ABSENCE_DEFAULT_MS =
         Some (wei_track_reap (eng_tracker e) now WEI_TRACK_ABSENCE_DEFAULT_MS) \<and>
       wei_infer_map_reap64 e now = Some (wei_infer_map_reap e now))"
proof -
  let ?feed = "feed_of (dp_layout P) (d_calls d)"
  have inv: "report_inv P d" using assms(3,2) by (rule reachable_report_inv)
  then have "running P d" "list_all feed_ok ?feed" using assms(5) by (auto simp: report_inv_def)
  then obtain eng0 eng hist where eng: "wei_infer_create (Some weid_wire_default_policy) True = Some eng0"
    "engine_history ?feed eng0 = Some (eng, hist)" "engine_ok eng" "wd_engine (d_ctx d) = Some eng"
    using running_engine [OF _ assms(2,4)] by blast
  have srt: "sorted (0 # map feed_now ?feed)" "\<forall>x \<in> set (0 # map feed_now ?feed). x \<le> now"
    using assms(6) by (auto simp: sorted_append)
  have "clocked (last (0 # map feed_now ?feed)) eng"
    using history_clocked [OF create_clocked [OF eng(1) order_refl] order_refl srt(1) eng(2)] .
  then have now: "clocked now eng" "0 \<le> now"
    using clocked_mono srt(2) last_in_set [of "0 # map feed_now ?feed"] by auto
  show ?thesis
  proof (intro exI [of _ eng] conjI allI impI eng(4))
    fix env k e rs assume sw: "sweep_scores env now [0..<k] eng = Some (e, rs)"
    show e: "clocked now e" by (rule sweep_clocked [OF now sw])
    show "wei_infer_now_ms64 ts = Some now" using now_ms64 assms(7-9) unfolding now_def by blast
    have tr: "list_all (entry_in now) (entries (eng_tracker e))" using e by (simp add: clocked_def)
    show "wei_track_tick64 (entries t ! i) metric now band floor_ms =
        Some (wei_track_tick (entries t ! i) metric now band floor_ms)"
      if g: "wei_track_get (eng_tracker e) m now = (t, Some i)" for m t i metric band floor_ms
      using track_get_in [OF tr now(2) g] track_tick64 [OF _ now(2) assms(9)] by (simp add: list_all_length)
    show "wei_track_reap64 (eng_tracker e) now WEI_TRACK_ABSENCE_DEFAULT_MS =
        Some (wei_track_reap (eng_tracker e) now WEI_TRACK_ABSENCE_DEFAULT_MS)"
      by (rule track_reap64 [OF tr now(2) assms(9)])
    have "length (map_slots (eng_map e)) = length (map_slots (eng_map eng))"
      using sweep_scores_keys [OF sw] by (rule map_eq_imp_length_eq)
    then show "wei_infer_map_reap64 e now = Some (wei_infer_map_reap e now)"
      using map_reap64 [OF e now(2) assms(9)] eng(3) by (simp add: engine_ok_def)
  qed
qed

text \<open>The process after one frame and one tick at 5 s, looked at when the clock reads 6 s.\<close>

lemma sample_times: "map feed_now (feed_of sample_layout sample_callbacks) = [5000, 5000]"
proof -
  have "received sample_layout (stats_frame sample_layout [[7]]) = [decode_stats_arg sample_layout [7]]"
    using received_frame [of sample_layout "[[7]]"] by (simp add: sample_layout_def frame_entries_ok_def)
  then show ?thesis
    by (simp add: sample_callbacks_def feed_now_def wei_infer_now_ms_def Pipeline.sample_tick_def)
qed

theorem process_times_fit_witness:
  "\<exists>d eng. reachable sample_process d \<and> d_calls d = sample_callbacks \<and> wd_engine (d_ctx d) = Some eng \<and>
     clocked 6000 eng \<and> wei_infer_map_reap64 eng 6000 = Some (wei_infer_map_reap eng 6000)"
proof -
  obtain d where d: "reachable sample_process d" "d_main d = M_SIGWAIT" "d_calls d = sample_callbacks"
    using sample_reached by blast
  have P: "params_ok sample_process" by (simp add: params_ok_def sample_process_def good_bus_def)
  have lay: "0 < sizeof_stats_arg (dp_layout sample_process)" by (simp add: sample_process_def sample_layout_def)
  let ?ts = "\<lparr>tv_sec = 6, tv_nsec = 0\<rparr>"
  have now: "wei_infer_now_ms ?ts = 6000" by (simp add: wei_infer_now_ms_def)
  have times: "map feed_now (feed_of (dp_layout sample_process) (d_calls d)) = [5000, 5000]"
    using sample_times by (simp add: d(3) sample_process_def)
  have main: "d_main d \<in> {M_WIRED, M_SIGWAIT, M_JOINED}" by (simp add: d(2))
  have srt: "sorted (0 # map feed_now (feed_of (dp_layout sample_process) (d_calls d)) @ [wei_infer_now_ms ?ts])"
    and fits: "wei_infer_now_ms ?ts < 2 ^ 63" and sec: "0 \<le> tv_sec ?ts" "0 \<le> tv_nsec ?ts"
    unfolding now times by simp_all
  note fit = process_times_fit [OF P d(1) lay main srt sec fits, unfolded now]
  have "\<exists>eng. wd_engine (d_ctx d) = Some eng \<and> (\<forall>env k e rs. sweep_scores env 6000 [0..<k] eng = Some (e, rs) \<longrightarrow>
       clocked 6000 e \<and> wei_infer_map_reap64 e 6000 = Some (wei_infer_map_reap e 6000))"
    using fit by fast
  then obtain eng where eng: "wd_engine (d_ctx d) = Some eng"
    "\<forall>env k e rs. sweep_scores env 6000 [0..<k] eng = Some (e, rs) \<longrightarrow>
       clocked 6000 e \<and> wei_infer_map_reap64 e 6000 = Some (wei_infer_map_reap e 6000)" by blast
  have "sweep_scores exact_env 6000 [0..<0] eng = Some (eng, [])" by simp
  from eng(2) [rule_format, OF this] show ?thesis using d(1,3) eng(1) by (intro exI [of _ d] exI [of _ eng]) simp
qed

end
