(* ===== verification/Life.thy ===== *)
theory Life
  imports Conn_Scorer Track Poll
begin

text \<open>
  The per-station lifecycle unit (source/wei_life.c): the roster of tracking contexts, the
  station events that open and close them, the four excursion detectors, and the interval tick
  that drives the detectors and hands their excursions to the report sink. A pointer to a
  context is its slot index; a slot is \<open>None\<close> when its pointer is NULL. The roster's mutex makes
  each locked section one atomic operation; the tick holds it slot by slot, and what other threads
  do in between is the subject of Life_Race. A result \<open>None\<close> of a detector is a signed negation
  that overflows.
\<close>

definition WEI_LIFE_MAX_STATIONS :: nat where
  "WEI_LIFE_MAX_STATIONS = WEI_TRACK_MAX_CLIENTS"

datatype wei_life_event =
    WEI_LIFE_EVENT_ASSOC | WEI_LIFE_EVENT_DISASSOC | WEI_LIFE_EVENT_CONN_CHANGE
  | WEI_LIFE_EVENT_OTHER int  \<comment> \<open>a value outside the enumeration\<close>

datatype wei_life_metric =
  WEI_LIFE_METRIC_SNR | WEI_LIFE_METRIC_LOSS | WEI_LIFE_METRIC_PHY | WEI_LIFE_METRIC_CHANUTIL

record wei_life_policy =
  snr_floor :: int
  snr_dwell_ms :: int
  loss_ceiling :: int
  loss_dwell_ms :: int
  phy_floor :: int
  phy_dwell_ms :: int
  chanutil_ceiling :: int
  chanutil_dwell_ms :: int

record wei_life_excursion =
  ex_mac :: mac
  ex_metric :: wei_life_metric
  ex_onset_count :: u32
  ex_duration_ms :: int

record wei_life_ctx =
  lc_mac :: mac
  lc_sample :: wei_conn_metric_record
  snr_track :: wei_track_entry
  loss_track :: wei_track_entry
  phy_track :: wei_track_entry
  chanutil_track :: wei_track_entry

record wei_life_roster =
  lr_slots :: "wei_life_ctx option list"
  lr_active :: u32
  lr_policy :: wei_life_policy

definition WEI_LIFE_DEFAULT_SNR_FLOOR_DB :: int where [simp]: "WEI_LIFE_DEFAULT_SNR_FLOOR_DB = 15"
definition WEI_LIFE_DEFAULT_LOSS_CEILING :: int where [simp]: "WEI_LIFE_DEFAULT_LOSS_CEILING = 10"
definition WEI_LIFE_DEFAULT_PHY_FLOOR_KBPS :: int where [simp]: "WEI_LIFE_DEFAULT_PHY_FLOOR_KBPS = 6000"
definition WEI_LIFE_DEFAULT_CHANUTIL_CEIL_PCT :: int where [simp]: "WEI_LIFE_DEFAULT_CHANUTIL_CEIL_PCT = 70"
definition WEI_LIFE_DEFAULT_DWELL_MS :: int where
  "WEI_LIFE_DEFAULT_DWELL_MS = 3 * uint WEI_TICK_DEFAULT_MS"

definition wei_life_policy_set_defaults :: wei_life_policy where
  "wei_life_policy_set_defaults =
     \<lparr>snr_floor = WEI_LIFE_DEFAULT_SNR_FLOOR_DB, snr_dwell_ms = WEI_LIFE_DEFAULT_DWELL_MS,
      loss_ceiling = WEI_LIFE_DEFAULT_LOSS_CEILING, loss_dwell_ms = WEI_LIFE_DEFAULT_DWELL_MS,
      phy_floor = WEI_LIFE_DEFAULT_PHY_FLOOR_KBPS, phy_dwell_ms = WEI_LIFE_DEFAULT_DWELL_MS,
      chanutil_ceiling = WEI_LIFE_DEFAULT_CHANUTIL_CEIL_PCT, chanutil_dwell_ms = WEI_LIFE_DEFAULT_DWELL_MS\<rparr>"

section \<open>Sinks and set-up\<close>

text \<open>The two static sinks: is the station sink bound to a roster, is a report sink installed.\<close>

record life_sinks =
  sink_bound :: bool
  report_bound :: bool

definition wei_life_set_report_sink :: "bool \<Rightarrow> life_sinks \<Rightarrow> life_sinks" where
  "wei_life_set_report_sink present g = g\<lparr>report_bound := present\<rparr>"

definition wei_life_report :: "life_sinks \<Rightarrow> wei_life_excursion \<Rightarrow> u8 \<Rightarrow> (wei_life_excursion \<times> u8) list" where
  "wei_life_report g ex score = (if report_bound g then [(ex, score)] else [])"

definition wei_life_init ::
    "bool \<Rightarrow> wei_life_roster option \<Rightarrow> wei_life_policy option \<Rightarrow> life_sinks
      \<Rightarrow> int \<times> wei_life_roster option \<times> life_sinks" where
  "wei_life_init mutex_ok roster policy g =
     (case roster of
        None \<Rightarrow> (- 1, None, g)
      | Some _ \<Rightarrow>
          let r = \<lparr>lr_slots = replicate WEI_LIFE_MAX_STATIONS None, lr_active = 0,
                   lr_policy = (case policy of Some p \<Rightarrow> p | None \<Rightarrow> wei_life_policy_set_defaults)\<rparr>
          in if \<not> mutex_ok then (- 1, Some r, g)
             else (0, Some r, g\<lparr>sink_bound := True\<rparr>))"

definition wei_life_deinit :: "wei_life_roster option \<Rightarrow> life_sinks \<Rightarrow> life_sinks" where
  "wei_life_deinit roster g = (case roster of None \<Rightarrow> g | Some _ \<Rightarrow> g\<lparr>sink_bound := False\<rparr>)"

section \<open>The roster\<close>

text \<open>The walk over the slots, from slot number \<open>i\<close>; -1 is "untracked".\<close>

fun life_walk :: "nat \<Rightarrow> wei_life_ctx option list \<Rightarrow> mac \<Rightarrow> int" where
  "life_walk i [] m = - 1"
| "life_walk i (s # slots) m =
     (if s \<noteq> None \<and> lc_mac (the s) = m then int i else life_walk (Suc i) slots m)"

definition wei_life_slot_of :: "wei_life_roster \<Rightarrow> mac \<Rightarrow> int" where
  "wei_life_slot_of roster m = life_walk 0 (lr_slots roster) m"

text \<open>The image of \<open>calloc\<close> with the key copied in.\<close>

definition life_fresh :: "mac \<Rightarrow> wei_life_ctx" where
  "life_fresh m =
     \<lparr>lc_mac = m, lc_sample = zero_metric_record, snr_track = zero_track_entry, loss_track = zero_track_entry,
      phy_track = zero_track_entry, chanutil_track = zero_track_entry\<rparr>"

text \<open>The loop that claims the first NULL slot; \<open>i\<close> is the number of the first slot of the list.\<close>

fun life_claim :: "bool \<Rightarrow> mac \<Rightarrow> nat \<Rightarrow> wei_life_ctx option list \<Rightarrow> wei_life_ctx option list \<times> nat option" where
  "life_claim calloc_ok m i [] = ([], None)"
| "life_claim calloc_ok m i (s # slots) =
     (if s = None then (if calloc_ok then (Some (life_fresh m) # slots, Some i) else (s # slots, None))
      else (case life_claim calloc_ok m (Suc i) slots of (slots', r) \<Rightarrow> (s # slots', r)))"

definition wei_life_attach_station :: "bool \<Rightarrow> wei_life_roster \<Rightarrow> mac \<Rightarrow> wei_life_roster \<times> nat option" where
  "wei_life_attach_station calloc_ok roster m =
     (let idx = wei_life_slot_of roster m
      in if idx \<ge> 0 then (roster, Some (nat idx))
         else (case life_claim calloc_ok m 0 (lr_slots roster) of
                 (slots, None) \<Rightarrow> (roster\<lparr>lr_slots := slots\<rparr>, None)
               | (slots, Some i) \<Rightarrow> (roster\<lparr>lr_slots := slots, lr_active := lr_active roster + 1\<rparr>, Some i)))"

definition wei_life_detach_station :: "wei_life_roster \<Rightarrow> mac \<Rightarrow> wei_life_roster" where
  "wei_life_detach_station roster m =
     (let idx = wei_life_slot_of roster m
      in if idx \<ge> 0
         then roster\<lparr>lr_slots := (lr_slots roster)[nat idx := None], lr_active := lr_active roster - 1\<rparr>
         else roster)"

definition wei_life_ingest_metric :: "wei_life_roster \<Rightarrow> mac \<Rightarrow> wei_conn_metric_record \<Rightarrow> wei_life_roster" where
  "wei_life_ingest_metric roster m record =
     (let idx = wei_life_slot_of roster m
      in if idx \<ge> 0
         then roster\<lparr>lr_slots := (lr_slots roster)[nat idx :=
                map_option (\<lambda>c. c\<lparr>lc_sample := record\<rparr>) (lr_slots roster ! nat idx)]\<rparr>
         else roster)"

text \<open>Looks the station up and changes nothing.\<close>

definition wei_life_reeval_station :: "wei_life_roster \<Rightarrow> mac \<Rightarrow> wei_life_roster" where
  "wei_life_reeval_station roster m = (if wei_life_slot_of roster m < 0 then roster else roster)"

definition wei_life_on_station_event :: "bool \<Rightarrow> wei_life_roster \<Rightarrow> wei_life_event \<Rightarrow> mac \<Rightarrow> wei_life_roster" where
  "wei_life_on_station_event calloc_ok roster event m =
     (case event of
        WEI_LIFE_EVENT_ASSOC \<Rightarrow> fst (wei_life_attach_station calloc_ok roster m)
      | WEI_LIFE_EVENT_DISASSOC \<Rightarrow> wei_life_detach_station roster m
      | WEI_LIFE_EVENT_CONN_CHANGE \<Rightarrow> wei_life_reeval_station roster m
      | WEI_LIFE_EVENT_OTHER n \<Rightarrow> roster)"

text \<open>The entry points with their NULL checks.\<close>

definition wei_life_attach_station_ptr ::
    "bool \<Rightarrow> wei_life_roster option \<Rightarrow> mac option \<Rightarrow> wei_life_roster option \<times> nat option" where
  "wei_life_attach_station_ptr calloc_ok roster m =
     (case (roster, m) of
        (Some r, Some k) \<Rightarrow> (case wei_life_attach_station calloc_ok r k of (r', i) \<Rightarrow> (Some r', i))
      | _ \<Rightarrow> (roster, None))"

definition wei_life_detach_station_ptr ::
    "wei_life_roster option \<Rightarrow> mac option \<Rightarrow> wei_life_roster option" where
  "wei_life_detach_station_ptr roster m =
     (case (roster, m) of (Some r, Some k) \<Rightarrow> Some (wei_life_detach_station r k) | _ \<Rightarrow> roster)"

definition wei_life_ingest_metric_ptr ::
    "wei_life_roster option \<Rightarrow> mac option \<Rightarrow> wei_conn_metric_record option \<Rightarrow> wei_life_roster option" where
  "wei_life_ingest_metric_ptr roster m record =
     (case (roster, m, record) of
        (Some r, Some k, Some rec) \<Rightarrow> Some (wei_life_ingest_metric r k rec) | _ \<Rightarrow> roster)"

definition wei_life_on_station_event_ptr ::
    "bool \<Rightarrow> wei_life_roster option \<Rightarrow> wei_life_event \<Rightarrow> mac option \<Rightarrow> wei_life_roster option" where
  "wei_life_on_station_event_ptr calloc_ok roster event m =
     (case (roster, m) of
        (Some r, Some k) \<Rightarrow> Some (wei_life_on_station_event calloc_ok r event k) | _ \<Rightarrow> roster)"

section \<open>The detectors\<close>

lemma uint_not_min: "uint (w :: 'a::len word) \<noteq> - 2147483648"
  using uint_nonnegative [of w] by linarith

text \<open>The tail the four detectors share: collect, and fill the excursion if anything was collected.\<close>

definition life_surface :: "mac \<Rightarrow> wei_life_metric \<Rightarrow> wei_track_entry \<Rightarrow> wei_track_entry \<times> wei_life_excursion option" where
  "life_surface m metric e =
     (let (e, rec) = wei_track_collect e
      in if tr_count rec = 0 \<and> tr_duration_ms rec = 0 then (e, None)
         else (e, Some \<lparr>ex_mac = m, ex_metric = metric, ex_onset_count = tr_count rec,
                        ex_duration_ms = tr_duration_ms rec\<rparr>))"

definition wei_life_eval_snr ::
    "wei_life_ctx \<Rightarrow> wei_conn_metric_record \<Rightarrow> wei_life_policy \<Rightarrow> int
      \<Rightarrow> (wei_life_ctx \<times> wei_life_excursion option) option" where
  "wei_life_eval_snr ctx m policy now_ms =
     (let e = wei_track_tick (snr_track ctx) (link_snr_db m) now_ms (snr_floor policy) (snr_dwell_ms policy);
          (e, ex) = life_surface (lc_mac ctx) WEI_LIFE_METRIC_SNR e
      in Some (ctx\<lparr>snr_track := e\<rparr>, ex))"

definition wei_life_eval_loss ::
    "wei_life_ctx \<Rightarrow> wei_conn_metric_record \<Rightarrow> wei_life_policy \<Rightarrow> int
      \<Rightarrow> (wei_life_ctx \<times> wei_life_excursion option) option" where
  "wei_life_eval_loss ctx m policy now_ms =
     (case (neg_i32 (to_i32 (tx_err_frames m)), neg_i32 (loss_ceiling policy)) of
        (Some v, Some band) \<Rightarrow>
          (let e = wei_track_tick (loss_track ctx) v now_ms band (loss_dwell_ms policy);
               (e, ex) = life_surface (lc_mac ctx) WEI_LIFE_METRIC_LOSS e
           in Some (ctx\<lparr>loss_track := e\<rparr>, ex))
      | _ \<Rightarrow> None)"

definition wei_life_eval_phy ::
    "wei_life_ctx \<Rightarrow> wei_conn_metric_record \<Rightarrow> wei_life_policy \<Rightarrow> int
      \<Rightarrow> (wei_life_ctx \<times> wei_life_excursion option) option" where
  "wei_life_eval_phy ctx m policy now_ms =
     (let e = wei_track_tick (phy_track ctx) (to_i32 (phy_rate_kbps m)) now_ms (phy_floor policy) (phy_dwell_ms policy);
          (e, ex) = life_surface (lc_mac ctx) WEI_LIFE_METRIC_PHY e
      in Some (ctx\<lparr>phy_track := e\<rparr>, ex))"

definition wei_life_eval_chanutil ::
    "wei_life_ctx \<Rightarrow> wei_conn_metric_record \<Rightarrow> wei_life_policy \<Rightarrow> int
      \<Rightarrow> (wei_life_ctx \<times> wei_life_excursion option) option" where
  "wei_life_eval_chanutil ctx m policy now_ms =
     (case (neg_i32 (uint (chan_util_pct m)), neg_i32 (chanutil_ceiling policy)) of
        (Some v, Some band) \<Rightarrow>
          (let e = wei_track_tick (chanutil_track ctx) v now_ms band (chanutil_dwell_ms policy);
               (e, ex) = life_surface (lc_mac ctx) WEI_LIFE_METRIC_CHANUTIL e
           in Some (ctx\<lparr>chanutil_track := e\<rparr>, ex))
      | _ \<Rightarrow> None)"

text \<open>The excursions produced, in the order they are packed into \<open>out\<close>.\<close>

definition opt_list :: "'a option \<Rightarrow> 'a list" where
  "opt_list x = (case x of None \<Rightarrow> [] | Some a \<Rightarrow> [a])"

definition wei_life_eval_ctx ::
    "wei_life_ctx \<Rightarrow> wei_life_policy \<Rightarrow> int \<Rightarrow> (wei_life_ctx \<times> wei_life_excursion list) option" where
  "wei_life_eval_ctx ctx policy now_ms =
     (let m = lc_sample ctx
      in case wei_life_eval_snr ctx m policy now_ms of
           None \<Rightarrow> None
         | Some (ctx, x1) \<Rightarrow>
             (case wei_life_eval_loss ctx m policy now_ms of
                None \<Rightarrow> None
              | Some (ctx, x2) \<Rightarrow>
                  (case wei_life_eval_phy ctx m policy now_ms of
                     None \<Rightarrow> None
                   | Some (ctx, x3) \<Rightarrow>
                       (case wei_life_eval_chanutil ctx m policy now_ms of
                          None \<Rightarrow> None
                        | Some (ctx, x4) \<Rightarrow>
                            Some (ctx, opt_list x1 @ opt_list x2 @ opt_list x3 @ opt_list x4)))))"

section \<open>The interval tick\<close>

definition wei_life_now_ms :: "c_timespec \<Rightarrow> int" where
  "wei_life_now_ms ts = tv_sec ts * 1000 + tv_nsec ts div 1000000"

text \<open>The loop over the slots from slot \<open>i\<close>: the roster and what was delivered.\<close>

fun life_sweep ::
    "scorer_env \<Rightarrow> life_sinks \<Rightarrow> int \<Rightarrow> nat list \<Rightarrow> wei_life_roster
      \<Rightarrow> (wei_life_roster \<times> (wei_life_excursion \<times> u8) list) option" where
  "life_sweep env g now_ms [] roster = Some (roster, [])"
| "life_sweep env g now_ms (i # is) roster =
     (case lr_slots roster ! i of
        None \<Rightarrow> life_sweep env g now_ms is roster
      | Some ctx \<Rightarrow>
          (case wei_life_eval_ctx ctx (lr_policy roster) now_ms of
             None \<Rightarrow> None
           | Some (ctx, batch) \<Rightarrow>
               let roster = roster\<lparr>lr_slots := (lr_slots roster)[i := Some ctx]\<rparr>;
                   score = wei_conn_scorer_score env (Some (lc_sample ctx))
               in map_option (\<lambda>(r, out). (r, concat (map (\<lambda>ex. wei_life_report g ex score) batch) @ out))
                    (life_sweep env g now_ms is roster)))"

definition wei_life_eval_station ::
    "scorer_env \<Rightarrow> life_sinks \<Rightarrow> c_timespec \<Rightarrow> wei_life_roster option
      \<Rightarrow> (wei_life_roster option \<times> (wei_life_excursion \<times> u8) list) option" where
  "wei_life_eval_station env g ts user =
     (case user of
        None \<Rightarrow> Some (None, [])
      | Some roster \<Rightarrow>
          map_option (\<lambda>(r, out). (Some r, out))
            (life_sweep env g (wei_life_now_ms ts) [0..<WEI_LIFE_MAX_STATIONS] roster))"

text \<open>The callback handed to the poll daemon.\<close>

definition wei_life_tick_fn ::
    "scorer_env \<Rightarrow> life_sinks \<Rightarrow> c_timespec \<Rightarrow> wei_life_roster option
      \<Rightarrow> (wei_life_roster option \<times> (wei_life_excursion \<times> u8) list) option" where
  "wei_life_tick_fn = wei_life_eval_station"

end
