(* ===== verification/Life_Detect.thy ===== *)
theory Life_Detect
  imports Life
begin

text \<open>
  The excursion detectors of the lifecycle unit: the interface the four share, its
  interpretation on each, what a station's ticks report over its whole life, and what the loss
  detector reports of a counter that only grows.
\<close>

text \<open>Samples and policies whose negated readings are defined.\<close>

definition sample_ok :: "wei_conn_metric_record \<Rightarrow> bool" where
  "sample_ok rec \<longleftrightarrow> tx_err_frames rec \<noteq> 2 ^ 31"

definition policy_ok :: "wei_life_policy \<Rightarrow> bool" where
  "policy_ok p \<longleftrightarrow> loss_ceiling p \<noteq> - (2 ^ 31) \<and> chanutil_ceiling p \<noteq> - (2 ^ 31)"

lemma zero_sample_ok: "sample_ok zero_metric_record"
  by (simp add: sample_ok_def zero_metric_record_def)

lemma life_fresh_mac [simp]: "lc_mac (life_fresh m) = m"
  by (simp add: life_fresh_def)

lemma surface_entry: "fst (life_surface k M e) = fst (wei_track_collect e)"
  by (simp add: life_surface_def case_prod_beta)

section \<open>One detector\<close>

text \<open>
  The contract the four detectors share: tick one track entry of the context with one reading of
  the sample against one band and dwell of the policy, collect it, and surface what was collected.
  \<open>fits\<close> says when the negations in it are defined.
\<close>

locale detector =
  fixes eval :: "wei_life_ctx \<Rightarrow> wei_conn_metric_record \<Rightarrow> wei_life_policy \<Rightarrow> int
      \<Rightarrow> (wei_life_ctx \<times> wei_life_excursion option) option"
    and metric :: wei_life_metric
    and track :: "wei_life_ctx \<Rightarrow> wei_track_entry"
    and put :: "wei_track_entry \<Rightarrow> wei_life_ctx \<Rightarrow> wei_life_ctx"
    and reading :: "wei_conn_metric_record \<Rightarrow> int"
    and band :: "wei_life_policy \<Rightarrow> int" and dwell :: "wei_life_policy \<Rightarrow> int"
    and fits :: "wei_conn_metric_record \<Rightarrow> wei_life_policy \<Rightarrow> bool"
  assumes eval_fits: "fits m p \<Longrightarrow> eval c m p now = Some
      (let (e, x) = life_surface (lc_mac c) metric (wei_track_tick (track c) (reading m) now (band p) (dwell p))
       in (put e c, x))"
    and track_put: "track (put e c) = e"
    and put_mac: "lc_mac (put e c) = lc_mac c"
    and put_sample: "lc_sample (put e c) = lc_sample c"
begin

text \<open>A station's ticks, one sample and clock reading each: the excursions surfaced.\<close>

fun detect :: "wei_life_policy \<Rightarrow> wei_life_ctx \<Rightarrow> (wei_conn_metric_record \<times> int) list
    \<Rightarrow> wei_life_excursion option list" where
  "detect p c [] = []"
| "detect p c ((m, t) # ss) = (case the (eval c m p t) of (c', x) \<Rightarrow> x # detect p c' ss)"

lemma detect_totals:
  assumes "list_all (\<lambda>(m, t). fits m p) ss"
  shows "sum_list (map ex_duration_ms (List.map_filter id (detect p c ss))) =
      sum_list (map tr_duration_ms (track_intervals (band p) (dwell p) (track c) (map (\<lambda>(m, t). [(reading m, t)]) ss))) \<and>
    sum_list (map ex_onset_count (List.map_filter id (detect p c ss))) =
      sum_list (map tr_count (track_intervals (band p) (dwell p) (track c) (map (\<lambda>(m, t). [(reading m, t)]) ss)))"
  using assms
proof (induction ss arbitrary: c)
  case (Cons s ss)
  obtain m t where s: "s = (m, t)" by (cases s)
  let ?e = "wei_track_tick (track c) (reading m) t (band p) (dwell p)"
  let ?c = "put (fst (wei_track_collect ?e)) c"
  have e: "eval c m p t = Some (?c, snd (life_surface (lc_mac c) metric ?e))"
    using Cons.prems surface_entry [of "lc_mac c" metric ?e] by (simp add: s eval_fits case_prod_beta)
  have r: "track_run (band p) (dwell p) (track c) [(reading m, t)] = ?e" by (simp add: track_run_def)
  show ?case
    using Cons.IH [of ?c] Cons.prems
    by (cases "snd (life_surface (lc_mac c) metric ?e)")
      (auto simp: s e r track_put map_filter_def case_prod_beta life_surface_def split: if_splits)
qed (simp add: map_filter_def)

lemma detect_cong:
  "list_all (\<lambda>(m, t). fits m p) ss \<Longrightarrow> track c = track d \<Longrightarrow> lc_mac c = lc_mac d \<Longrightarrow> detect p c ss = detect p d ss"
proof (induction ss arbitrary: c d)
  case (Cons s ss)
  obtain m t where s: "s = (m, t)" by (cases s)
  let ?S = "life_surface (lc_mac d) metric (wei_track_tick (track d) (reading m) t (band p) (dwell p))"
  have e: "eval c m p t = Some (put (fst ?S) c, snd ?S)" "eval d m p t = Some (put (fst ?S) d, snd ?S)"
    using Cons.prems by (simp_all add: s eval_fits case_prod_beta)
  have "detect p (put (fst ?S) c) ss = detect p (put (fst ?S) d) ss"
    using Cons.prems by (intro Cons.IH) (simp_all add: s track_put put_mac)
  then show ?case by (simp add: s e)
qed simp

text \<open>Over a fresh entry, the totals are those of the abstract reading of the samples.\<close>

lemma detect_refines:
  assumes "list_all (\<lambda>(m, t). fits m p) ss" "\<forall>(m, t) \<in> set ss. t \<noteq> 0" "track c = zero_track_entry"
  defines "vs \<equiv> map (\<lambda>(m, t). (reading m, t)) ss"
  shows "sum_list (map ex_duration_ms (List.map_filter id (detect p c ss))) = sustained_ms (band p) (dwell p) vs"
    "sum_list (map ex_onset_count (List.map_filter id (detect p c ss))) = of_nat (card (onsets (band p) vs))"
proof -
  have vs: "concat (map (\<lambda>(m, t). [(reading m, t)]) ss) = vs" unfolding vs_def by (induction ss) auto
  have "\<forall>s \<in> set vs. snd s \<noteq> 0" using assms(2) by (auto simp: vs_def)
  then have "track_reads (band p) (dwell p) vs (track_run (band p) (dwell p) (track c) vs)"
    by (intro track_reads_run) (simp_all add: assms(3) zero_track_entry_def)
  then show "sum_list (map ex_duration_ms (List.map_filter id (detect p c ss))) = sustained_ms (band p) (dwell p) vs"
    "sum_list (map ex_onset_count (List.map_filter id (detect p c ss))) = of_nat (card (onsets (band p) vs))"
    using detect_totals [OF assms(1), of c] track_intervals_sum [of "track c" "band p" "dwell p" "map (\<lambda>(m, t). [(reading m, t)]) ss"]
    by (simp_all add: vs track_reads_def assms(3)) (simp_all add: zero_track_entry_def)
qed

end

interpretation snr: detector wei_life_eval_snr WEI_LIFE_METRIC_SNR snr_track "\<lambda>e c. c\<lparr>snr_track := e\<rparr>"
    link_snr_db snr_floor snr_dwell_ms "\<lambda>m p. True"
  by unfold_locales (simp_all add: wei_life_eval_snr_def case_prod_beta Let_def)

interpretation loss: detector wei_life_eval_loss WEI_LIFE_METRIC_LOSS loss_track "\<lambda>e c. c\<lparr>loss_track := e\<rparr>"
    "\<lambda>m. - to_i32 (tx_err_frames m)" "\<lambda>p. - loss_ceiling p" loss_dwell_ms
    "\<lambda>m p. to_i32 (tx_err_frames m) \<noteq> - (2 ^ 31) \<and> loss_ceiling p \<noteq> - (2 ^ 31)"
  by unfold_locales (simp_all add: wei_life_eval_loss_def neg_i32_def case_prod_beta Let_def)

interpretation phy: detector wei_life_eval_phy WEI_LIFE_METRIC_PHY phy_track "\<lambda>e c. c\<lparr>phy_track := e\<rparr>"
    "\<lambda>m. to_i32 (phy_rate_kbps m)" phy_floor phy_dwell_ms "\<lambda>m p. True"
  by unfold_locales (simp_all add: wei_life_eval_phy_def case_prod_beta Let_def)

interpretation chanutil: detector wei_life_eval_chanutil WEI_LIFE_METRIC_CHANUTIL chanutil_track
    "\<lambda>e c. c\<lparr>chanutil_track := e\<rparr>" "\<lambda>m. - uint (chan_util_pct m)" "\<lambda>p. - chanutil_ceiling p" chanutil_dwell_ms
    "\<lambda>m p. chanutil_ceiling p \<noteq> - (2 ^ 31)"
  by unfold_locales (simp_all add: wei_life_eval_chanutil_def neg_i32_def case_prod_beta Let_def uint_not_min)

section \<open>The four detectors together\<close>

fun life_track :: "wei_life_metric \<Rightarrow> wei_life_ctx \<Rightarrow> wei_track_entry" where
  "life_track WEI_LIFE_METRIC_SNR c = snr_track c"
| "life_track WEI_LIFE_METRIC_LOSS c = loss_track c"
| "life_track WEI_LIFE_METRIC_PHY c = phy_track c"
| "life_track WEI_LIFE_METRIC_CHANUTIL c = chanutil_track c"

text \<open>The value each metric compares, and the bound it compares with: below is bad.\<close>

fun life_reading :: "wei_life_metric \<Rightarrow> wei_conn_metric_record \<Rightarrow> int" where
  "life_reading WEI_LIFE_METRIC_SNR m = link_snr_db m"
| "life_reading WEI_LIFE_METRIC_LOSS m = - to_i32 (tx_err_frames m)"
| "life_reading WEI_LIFE_METRIC_PHY m = to_i32 (phy_rate_kbps m)"
| "life_reading WEI_LIFE_METRIC_CHANUTIL m = - uint (chan_util_pct m)"

fun life_band :: "wei_life_metric \<Rightarrow> wei_life_policy \<Rightarrow> int" where
  "life_band WEI_LIFE_METRIC_SNR p = snr_floor p"
| "life_band WEI_LIFE_METRIC_LOSS p = - loss_ceiling p"
| "life_band WEI_LIFE_METRIC_PHY p = phy_floor p"
| "life_band WEI_LIFE_METRIC_CHANUTIL p = - chanutil_ceiling p"

fun life_dwell :: "wei_life_metric \<Rightarrow> wei_life_policy \<Rightarrow> int" where
  "life_dwell WEI_LIFE_METRIC_SNR p = snr_dwell_ms p"
| "life_dwell WEI_LIFE_METRIC_LOSS p = loss_dwell_ms p"
| "life_dwell WEI_LIFE_METRIC_PHY p = phy_dwell_ms p"
| "life_dwell WEI_LIFE_METRIC_CHANUTIL p = chanutil_dwell_ms p"

text \<open>One tick of one metric.\<close>

definition life_tick :: "wei_life_metric \<Rightarrow> wei_life_policy \<Rightarrow> int \<Rightarrow> wei_life_ctx \<Rightarrow> wei_track_entry" where
  "life_tick M p t c = wei_track_tick (life_track M c) (life_reading M (lc_sample c)) t (life_band M p) (life_dwell M p)"

lemma sample_ok_i32: "sample_ok m \<Longrightarrow> to_i32 (tx_err_frames m) \<noteq> - 2147483648"
  by (auto simp: sample_ok_def to_i32_def word_uint_eq_iff uint_not_min)

lemma surface_metric: "snd (life_surface k M e) = Some x \<Longrightarrow> ex_metric x = M \<and> ex_mac x = k"
  by (auto simp: life_surface_def case_prod_beta split: if_splits)

lemma surface_filter:
  "filter (\<lambda>x. ex_metric x = M) (opt_list (snd (life_surface k M' e))) =
     (if M = M' then opt_list (snd (life_surface k M' e)) else [])"
  using surface_metric by (auto simp: opt_list_def split: option.splits)

lemma eval_ctx_eq:
  assumes "policy_ok p" "sample_ok (lc_sample c)"
  defines "S \<equiv> \<lambda>M t. life_surface (lc_mac c) M (life_tick M p t c)"
  shows "wei_life_eval_ctx c p t = Some
    (c\<lparr>snr_track := fst (S WEI_LIFE_METRIC_SNR t), loss_track := fst (S WEI_LIFE_METRIC_LOSS t),
       phy_track := fst (S WEI_LIFE_METRIC_PHY t), chanutil_track := fst (S WEI_LIFE_METRIC_CHANUTIL t)\<rparr>,
     opt_list (snd (S WEI_LIFE_METRIC_SNR t)) @ opt_list (snd (S WEI_LIFE_METRIC_LOSS t)) @
     opt_list (snd (S WEI_LIFE_METRIC_PHY t)) @ opt_list (snd (S WEI_LIFE_METRIC_CHANUTIL t)))"
  using assms(1) sample_ok_i32 [OF assms(2)]
  by (simp add: wei_life_eval_ctx_def snr.eval_fits loss.eval_fits phy.eval_fits chanutil.eval_fits
      policy_ok_def S_def life_tick_def case_prod_beta Let_def)

lemma eval_ctx_spec:
  assumes "policy_ok p" "sample_ok (lc_sample c)"
  shows "\<exists>c' xs. wei_life_eval_ctx c p t = Some (c', xs) \<and> lc_mac c' = lc_mac c \<and> lc_sample c' = lc_sample c \<and>
    (\<forall>M. life_track M c' = fst (wei_track_collect (life_tick M p t c)) \<and>
         filter (\<lambda>x. ex_metric x = M) xs = opt_list (snd (life_surface (lc_mac c) M (life_tick M p t c)))) \<and>
    (\<forall>x \<in> set xs. ex_mac x = lc_mac c) \<and> length xs \<le> 4"
proof -
  let ?S = "\<lambda>M. life_surface (lc_mac c) M (life_tick M p t c)"
  let ?c = "c\<lparr>snr_track := fst (?S WEI_LIFE_METRIC_SNR), loss_track := fst (?S WEI_LIFE_METRIC_LOSS),
       phy_track := fst (?S WEI_LIFE_METRIC_PHY), chanutil_track := fst (?S WEI_LIFE_METRIC_CHANUTIL)\<rparr>"
  let ?xs = "opt_list (snd (?S WEI_LIFE_METRIC_SNR)) @ opt_list (snd (?S WEI_LIFE_METRIC_LOSS)) @
     opt_list (snd (?S WEI_LIFE_METRIC_PHY)) @ opt_list (snd (?S WEI_LIFE_METRIC_CHANUTIL))"
  have track: "life_track M ?c = fst (wei_track_collect (life_tick M p t c))" for M
    by (cases M) (simp_all add: surface_entry)
  have filt: "filter (\<lambda>x. ex_metric x = M) ?xs = opt_list (snd (?S M))" for M
    by (cases M) (simp_all add: surface_filter)
  have one: "length (opt_list (snd (?S M))) \<le> 1" "\<forall>x \<in> set (opt_list (snd (?S M))). ex_mac x = lc_mac c" for M
    using surface_metric by (auto simp: opt_list_def split: option.splits)
  have len: "length ?xs \<le> 4"
    using one(1) [of WEI_LIFE_METRIC_SNR] one(1) [of WEI_LIFE_METRIC_LOSS] one(1) [of WEI_LIFE_METRIC_PHY]
      one(1) [of WEI_LIFE_METRIC_CHANUTIL] by simp
  show ?thesis
    by (intro exI [of _ ?c] exI [of _ ?xs] conjI allI)
      (use eval_ctx_eq [OF assms] track filt one(2) len in auto)
qed

text \<open>A station's life between attach and detach: each tick is preceded by the ingest of a sample.\<close>

fun life_ticks :: "wei_life_policy \<Rightarrow> wei_life_ctx \<Rightarrow> (wei_conn_metric_record \<times> int) list
    \<Rightarrow> (wei_life_ctx \<times> wei_life_excursion list list) option" where
  "life_ticks p c [] = Some (c, [])"
| "life_ticks p c ((m, t) # ss) =
     (case wei_life_eval_ctx (c\<lparr>lc_sample := m\<rparr>) p t of
        None \<Rightarrow> None
      | Some (c, xs) \<Rightarrow> map_option (\<lambda>(c', xss). (c', xs # xss)) (life_ticks p c ss))"

lemma life_ticks_some:
  assumes "policy_ok p" "list_all (\<lambda>(m, t). sample_ok m) ss"
  shows "\<exists>c' xss. life_ticks p c ss = Some (c', xss) \<and>
    list_all (\<lambda>xs. length xs \<le> 4 \<and> (\<forall>x \<in> set xs. ex_mac x = lc_mac c)) xss"
  using assms(2)
proof (induction ss arbitrary: c)
  case (Cons s ss)
  obtain m t where s: "s = (m, t)" by (cases s)
  obtain d xs where d: "wei_life_eval_ctx (c\<lparr>lc_sample := m\<rparr>) p t = Some (d, xs)" "lc_mac d = lc_mac c"
    "\<forall>x \<in> set xs. ex_mac x = lc_mac c" "length xs \<le> 4"
    using eval_ctx_spec [OF assms(1), of "c\<lparr>lc_sample := m\<rparr>" t] Cons.prems by (auto simp: s)
  then show ?case using Cons.IH [of d] Cons.prems by (auto simp: s)
qed simp

context detector
begin

text \<open>If the tick treats this metric as its detector does, a run's excursions of it are the detector's.\<close>

lemma ticks_detect:
  assumes part: "\<And>c t. sample_ok (lc_sample c) \<Longrightarrow> \<exists>c' xs. wei_life_eval_ctx c p t = Some (c', xs) \<and>
      lc_mac c' = lc_mac c \<and> fits (lc_sample c) p \<and>
      track c' = fst (wei_track_collect (wei_track_tick (track c) (reading (lc_sample c)) t (band p) (dwell p))) \<and>
      filter (\<lambda>x. ex_metric x = metric) xs =
        opt_list (snd (life_surface (lc_mac c) metric (wei_track_tick (track c) (reading (lc_sample c)) t (band p) (dwell p))))"
    and frame: "\<And>c m. track (c\<lparr>lc_sample := m\<rparr>) = track c"
    and "list_all (\<lambda>(m, t). sample_ok m) ss" "life_ticks p c ss = Some (c', xss)"
  shows "filter (\<lambda>x. ex_metric x = metric) (concat xss) = List.map_filter id (detect p c ss) \<and>
    list_all (\<lambda>(m, t). fits m p) ss"
  using assms(3,4)
proof (induction ss arbitrary: c c' xss)
  case (Cons s ss)
  obtain m t where s: "s = (m, t)" by (cases s)
  let ?c = "c\<lparr>lc_sample := m\<rparr>"
  let ?S = "life_surface (lc_mac c) metric (wei_track_tick (track c) (reading m) t (band p) (dwell p))"
  obtain d xs where d: "wei_life_eval_ctx ?c p t = Some (d, xs)" "lc_mac d = lc_mac c" "fits m p"
    "track d = fst ?S" "filter (\<lambda>x. ex_metric x = metric) xs = opt_list (snd ?S)"
    using part [of ?c t] Cons.prems(1) by (auto simp: s frame surface_entry)
  obtain yss where yss: "life_ticks p d ss = Some (c', yss)" "xss = xs # yss"
    using Cons.prems(2) d(1) by (auto simp: s)
  have "filter (\<lambda>x. ex_metric x = metric) (concat yss) = List.map_filter id (detect p d ss) \<and>
      list_all (\<lambda>(m, t). fits m p) ss"
    using Cons.prems(1) by (intro Cons.IH [OF _ yss(1)]) simp
  note IH = conjunct1 [OF this] conjunct2 [OF this]
  have e: "eval c m p t = Some (put (fst ?S) c, snd ?S)" using d(3) by (simp add: eval_fits case_prod_beta)
  have "detect p (put (fst ?S) c) ss = detect p d ss"
    using IH(2) by (rule detect_cong) (simp_all add: track_put put_mac d)
  then show ?case using IH d(3,5) yss(2)
    by (cases "snd ?S") (simp_all add: s e map_filter_def opt_list_def)
qed (simp add: map_filter_def)

end

text \<open>The totals a run of ticks reports for one metric.\<close>

definition reported_ms :: "wei_life_metric \<Rightarrow> wei_life_excursion list list \<Rightarrow> int" where
  "reported_ms M xss = sum_list (map ex_duration_ms (filter (\<lambda>x. ex_metric x = M) (concat xss)))"

definition reported_onsets :: "wei_life_metric \<Rightarrow> wei_life_excursion list list \<Rightarrow> u32" where
  "reported_onsets M xss = sum_list (map ex_onset_count (filter (\<lambda>x. ex_metric x = M) (concat xss)))"

definition life_series :: "wei_life_metric \<Rightarrow> (wei_conn_metric_record \<times> int) list \<Rightarrow> (int \<times> int) list" where
  "life_series M ss = map (\<lambda>(m, t). (life_reading M m, t)) ss"

lemma sample_frames [simp]:
  "snr_track (c\<lparr>lc_sample := m\<rparr>) = snr_track c" "loss_track (c\<lparr>lc_sample := m\<rparr>) = loss_track c"
  "phy_track (c\<lparr>lc_sample := m\<rparr>) = phy_track c" "chanutil_track (c\<lparr>lc_sample := m\<rparr>) = chanutil_track c"
  by simp_all

lemma part_of_tick:
  assumes "policy_ok p" "sample_ok (lc_sample c)"
  shows "\<exists>c' xs. wei_life_eval_ctx c p t = Some (c', xs) \<and> lc_mac c' = lc_mac c \<and>
    to_i32 (tx_err_frames (lc_sample c)) \<noteq> - (2 ^ 31) \<and> loss_ceiling p \<noteq> - (2 ^ 31) \<and> chanutil_ceiling p \<noteq> - (2 ^ 31) \<and>
    life_track M c' = fst (wei_track_collect (life_tick M p t c)) \<and>
    filter (\<lambda>x. ex_metric x = M) xs = opt_list (snd (life_surface (lc_mac c) M (life_tick M p t c)))"
  using eval_ctx_spec [OF assms, of t] assms(1) sample_ok_i32 [OF assms(2)] by (fastforce simp: policy_ok_def)

lemma ticks_refine:
  assumes p: "policy_ok p" and ss: "list_all (\<lambda>(m, t). sample_ok m) ss" "\<forall>(m, t) \<in> set ss. t \<noteq> 0"
    and run: "life_ticks p (life_fresh k) ss = Some (c', xss)"
  shows "reported_ms M xss = sustained_ms (life_band M p) (life_dwell M p) (life_series M ss)"
    "reported_onsets M xss = of_nat (card (onsets (life_band M p) (life_series M ss)))"
proof -
  note part = part_of_tick [OF p, unfolded life_tick_def]
  have zero: "life_track M (life_fresh k) = zero_track_entry" by (cases M) (simp_all add: life_fresh_def)
  have "reported_ms M xss = sustained_ms (life_band M p) (life_dwell M p) (life_series M ss) \<and>
    reported_onsets M xss = of_nat (card (onsets (life_band M p) (life_series M ss)))"
  proof (cases M)
    case WEI_LIFE_METRIC_SNR
    have "filter (\<lambda>x. ex_metric x = WEI_LIFE_METRIC_SNR) (concat xss) = List.map_filter id (snr.detect p (life_fresh k) ss) \<and>
        list_all (\<lambda>(m, t). True) ss"
      by (intro snr.ticks_detect [OF _ _ ss(1) run]) (use part [where M = WEI_LIFE_METRIC_SNR] in \<open>fastforce, simp\<close>)
    then show ?thesis using snr.detect_refines [OF _ ss(2), where p = p and c = "life_fresh k"] zero
      by (simp add: WEI_LIFE_METRIC_SNR reported_ms_def reported_onsets_def life_series_def)
  next
    case WEI_LIFE_METRIC_LOSS
    have "filter (\<lambda>x. ex_metric x = WEI_LIFE_METRIC_LOSS) (concat xss) = List.map_filter id (loss.detect p (life_fresh k) ss) \<and>
        list_all (\<lambda>(m, t). to_i32 (tx_err_frames m) \<noteq> - (2 ^ 31) \<and> loss_ceiling p \<noteq> - (2 ^ 31)) ss"
      by (intro loss.ticks_detect [OF _ _ ss(1) run]) (use part [where M = WEI_LIFE_METRIC_LOSS] in \<open>fastforce, simp\<close>)
    then show ?thesis using loss.detect_refines [OF _ ss(2), where p = p and c = "life_fresh k"] zero
      by (simp add: WEI_LIFE_METRIC_LOSS reported_ms_def reported_onsets_def life_series_def)
  next
    case WEI_LIFE_METRIC_PHY
    have "filter (\<lambda>x. ex_metric x = WEI_LIFE_METRIC_PHY) (concat xss) = List.map_filter id (phy.detect p (life_fresh k) ss) \<and>
        list_all (\<lambda>(m, t). True) ss"
      by (intro phy.ticks_detect [OF _ _ ss(1) run]) (use part [where M = WEI_LIFE_METRIC_PHY] in \<open>fastforce, simp\<close>)
    then show ?thesis using phy.detect_refines [OF _ ss(2), where p = p and c = "life_fresh k"] zero
      by (simp add: WEI_LIFE_METRIC_PHY reported_ms_def reported_onsets_def life_series_def)
  next
    case WEI_LIFE_METRIC_CHANUTIL
    have "filter (\<lambda>x. ex_metric x = WEI_LIFE_METRIC_CHANUTIL) (concat xss) =
          List.map_filter id (chanutil.detect p (life_fresh k) ss) \<and>
        list_all (\<lambda>(m, t). chanutil_ceiling p \<noteq> - (2 ^ 31)) ss"
      by (intro chanutil.ticks_detect [OF _ _ ss(1) run]) (use part [where M = WEI_LIFE_METRIC_CHANUTIL] in \<open>fastforce, simp\<close>)
    then show ?thesis using chanutil.detect_refines [OF _ ss(2), where p = p and c = "life_fresh k"] zero
      by (simp add: WEI_LIFE_METRIC_CHANUTIL reported_ms_def reported_onsets_def life_series_def)
  qed
  then show "reported_ms M xss = sustained_ms (life_band M p) (life_dwell M p) (life_series M ss)"
    "reported_onsets M xss = of_nat (card (onsets (life_band M p) (life_series M ss)))" by simp_all
qed

section \<open>Properties\<close>

definition sample_rec :: wei_conn_metric_record where
  "sample_rec = zero_metric_record\<lparr>link_snr_db := 40, phy_rate_kbps := 866000, tx_err_frames := 3\<rparr>"

lemma default_policy_ok: "policy_ok wei_life_policy_set_defaults"
  by (simp add: policy_ok_def wei_life_policy_set_defaults_def)





end
