(* ===== verification/Life_Roster.thy ===== *)
theory Life_Roster
  imports Life_Detect
begin

text \<open>
  The roster of the lifecycle unit: it meets the keyed-table contract, refines a map from
  stations to their latest sample, and its interval tick delivers each station's excursions with
  the score of that station's sample.
\<close>

section \<open>The roster meets the keyed-table contract\<close>

fun slot_used :: "wei_life_ctx option \<Rightarrow> bool" where
  "slot_used None = False"
| "slot_used (Some c) = True"

lemma slot_used_iff: "slot_used s \<longleftrightarrow> s \<noteq> None"
  by (cases s) simp_all

abbreviation slot_mac :: "wei_life_ctx option \<Rightarrow> mac" where "slot_mac s \<equiv> lc_mac (the s)"

lemma life_walk_eq:
  "life_walk i slots m =
     (case slot_of slot_used slot_mac slots m of None \<Rightarrow> - 1 | Some j \<Rightarrow> int (i + j))"
  by (induction slots arbitrary: i) (auto simp: slot_of_def slot_used_iff split: option.splits)

lemma life_claim_eq:
  "life_claim calloc_ok m i slots =
     (case free_slot slot_used slots of
        None \<Rightarrow> (slots, None)
      | Some j \<Rightarrow> if calloc_ok then (slots[j := Some (life_fresh m)], Some (i + j)) else (slots, None))"
  by (induction slots arbitrary: i) (auto simp: free_slot_def slot_used_iff split: option.splits prod.splits)

definition life_admit :: "wei_life_ctx option list \<Rightarrow> mac \<Rightarrow> unit \<Rightarrow> wei_life_ctx option list \<times> nat option" where
  "life_admit slots m x =
     (case wei_life_attach_station True \<lparr>lr_slots = slots, lr_active = 0, lr_policy = wei_life_policy_set_defaults\<rparr> m of
        (r, i) \<Rightarrow> (lr_slots r, i))"

interpretation roster_tbl: keyed_table slot_used slot_mac "\<lambda>x e. e" "\<lambda>m x e. Some (life_fresh m)" life_admit
  by unfold_locales
    (auto simp: life_admit_def wei_life_attach_station_def wei_life_slot_of_def life_walk_eq life_claim_eq
      Let_def list_update_same_conv slot_of_SomeD(1) list_update_id split: option.splits)

lemma attach_admit:
  "wei_life_attach_station True r m =
     (r\<lparr>lr_slots := fst (life_admit (lr_slots r) m ()),
        lr_active := (if slot_of slot_used slot_mac (lr_slots r) m = None \<and> snd (life_admit (lr_slots r) m ()) \<noteq> None
                      then lr_active r + 1 else lr_active r)\<rparr>,
      snd (life_admit (lr_slots r) m ()))"
  by (auto simp: life_admit_def wei_life_attach_station_def wei_life_slot_of_def life_walk_eq life_claim_eq Let_def
      split: option.splits)

section \<open>The abstract roster: a map from stations to their latest sample\<close>

text \<open>What a tick leaves alone: which station each slot holds, and its sample.\<close>

definition life_shape :: "wei_life_ctx option \<Rightarrow> (mac \<times> wei_conn_metric_record) option" where
  "life_shape s = map_option (\<lambda>c. (lc_mac c, lc_sample c)) s"

definition life_abs :: "wei_life_ctx option list \<Rightarrow> mac \<Rightarrow> wei_conn_metric_record option" where
  "life_abs slots m =
     (case slot_of slot_used slot_mac slots m of None \<Rightarrow> None | Some i \<Rightarrow> Some (lc_sample (the (slots ! i))))"

definition roster_ok :: "wei_life_roster \<Rightarrow> bool" where
  "roster_ok r \<longleftrightarrow>
     length (lr_slots r) = WEI_LIFE_MAX_STATIONS \<and>
     unique_keys slot_used slot_mac (lr_slots r) \<and>
     unat (lr_active r) = length (filter slot_used (lr_slots r)) \<and>
     (\<forall>c. Some c \<in> set (lr_slots r) \<longrightarrow> sample_ok (lc_sample c)) \<and>
     policy_ok (lr_policy r)"

lemma life_abs_dom: "dom (life_abs slots) = set (table_keys slot_used slot_mac slots)"
proof (rule set_eqI)
  fix m
  show "m \<in> dom (life_abs slots) \<longleftrightarrow> m \<in> set (table_keys slot_used slot_mac slots)"
    using slot_of_None_iff [of slot_used slot_mac slots m]
    by (auto simp: life_abs_def dom_def split: option.splits)
qed

lemma roster_card:
  assumes "unique_keys slot_used slot_mac slots"
  shows "card (dom (life_abs slots)) = length (filter slot_used slots)"
  unfolding life_abs_dom using assms by (metis distinct_card length_map table_keys_def unique_keys_def)

lemma life_abs_update:
  assumes "unique_keys slot_used slot_mac slots" "slot_of slot_used slot_mac slots m = Some i"
    and "s = None \<or> slot_mac s = m"
  shows "life_abs (slots[i := s]) = (life_abs slots)(m := map_option lc_sample s)"
proof
  fix k
  note i = slot_of_SomeD [OF assms(2)]
  have u: "unique_keys slot_used slot_mac (slots[i := s])"
    using assms(1) by (rule unique_keys_update_same) (use i assms(3) in auto)
  show "life_abs (slots[i := s]) k = ((life_abs slots)(m := map_option lc_sample s)) k"
  proof (cases "k = m")
    case False
    then have "slot_of slot_used slot_mac (slots[i := s]) k = slot_of slot_used slot_mac slots k"
      using i assms(3) by (intro slot_of_update_other) auto
    moreover have "slot_of slot_used slot_mac slots k \<noteq> Some i"
      using i(3) False slot_of_SomeD(3) by fastforce
    ultimately show ?thesis using False by (auto simp: life_abs_def split: option.splits)
  next
    case True
    show ?thesis
    proof (cases s)
      case None
      have "slot_of slot_used slot_mac (slots[i := s]) m = None"
      proof (rule ccontr)
        assume "slot_of slot_used slot_mac (slots[i := s]) m \<noteq> None"
        then obtain j where "slot_of slot_used slot_mac (slots[i := s]) m = Some j" by blast
        note j = slot_of_SomeD [OF this]
        have "j \<noteq> i" using j None i(1) by auto
        then have "slot_used (slots ! j)" "slot_mac (slots ! j) = m" "j < length slots" using j by auto
        then show False using assms(1) i \<open>j \<noteq> i\<close> unfolding unique_keys_iff by blast
      qed
      then show ?thesis using True None by (simp add: life_abs_def)
    next
      case (Some c)
      have "slot_of slot_used slot_mac (slots[i := s]) m = Some i"
        using u by (rule slot_of_unique) (use i Some assms(3) in auto)
      then show ?thesis using True Some i(1) by (simp add: life_abs_def)
    qed
  qed
qed

text \<open>Everything above depends on the shape of the slots alone.\<close>

lemma slot_of_shape:
  "slot_of slot_used slot_mac slots m = find_index (\<lambda>x. \<exists>rec. x = Some (m, rec)) (map life_shape slots)"
  unfolding slot_of_def
  by (induction slots) (auto simp: life_shape_def slot_used_iff)

lemma unique_shape:
  "unique_keys slot_used slot_mac slots = distinct (map (fst \<circ> the) (filter (\<lambda>x. x \<noteq> None) (map life_shape slots)))"
proof -
  have "table_keys slot_used slot_mac slots = map (fst \<circ> the) (filter (\<lambda>x. x \<noteq> None) (map life_shape slots))"
    unfolding table_keys_def by (induction slots) (auto simp: life_shape_def slot_used_iff)
  then show ?thesis by (simp add: unique_keys_def)
qed

lemma used_shape: "length (filter slot_used slots) = length (filter (\<lambda>x. x \<noteq> None) (map life_shape slots))"
  by (induction slots) (auto simp: life_shape_def slot_used_iff)

lemma abs_shape:
  assumes "map life_shape slots' = map life_shape slots"
  shows "life_abs slots' = life_abs slots"
proof
  fix m
  have s: "slot_of slot_used slot_mac slots' m = slot_of slot_used slot_mac slots m"
    by (simp add: slot_of_shape assms)
  show "life_abs slots' m = life_abs slots m"
  proof (cases "slot_of slot_used slot_mac slots m")
    case (Some i)
    note i = slot_of_SomeD [OF Some] slot_of_SomeD [OF s [unfolded Some]]
    have "life_shape (slots' ! i) = life_shape (slots ! i)"
      using i(1,4) assms by (metis nth_map)
    then have "lc_sample (the (slots' ! i)) = lc_sample (the (slots ! i))"
      using i(2,5) by (auto simp: life_shape_def slot_used_iff)
    then show ?thesis using Some s by (simp add: life_abs_def)
  qed (simp add: life_abs_def s)
qed

lemma shape_ok:
  assumes "roster_ok r" "map life_shape slots = map life_shape (lr_slots r)"
  shows "roster_ok (r\<lparr>lr_slots := slots\<rparr>)"
proof -
  have "length slots = length (lr_slots r)" using assms(2) by (rule map_eq_imp_length_eq)
  moreover have "sample_ok (lc_sample c)" if c: "Some c \<in> set slots" for c
  proof -
    have "life_shape (Some c) \<in> life_shape ` set (lr_slots r)"
      using c assms(2) by (metis image_eqI list.set_map)
    then obtain s where s: "s \<in> set (lr_slots r)" "life_shape s = life_shape (Some c)" by fastforce
    from s(2) obtain c' where "s = Some c'" "lc_sample c' = lc_sample c" by (auto simp: life_shape_def)
    then show ?thesis using s(1) assms(1) by (auto simp: roster_ok_def)
  qed
  ultimately show ?thesis
    using assms by (simp add: roster_ok_def unique_shape used_shape)
qed

section \<open>The tick over the whole roster\<close>

definition station_tick :: "wei_life_policy \<Rightarrow> int \<Rightarrow> wei_life_ctx \<Rightarrow> wei_life_ctx \<times> wei_life_excursion list" where
  "station_tick p t c = the (wei_life_eval_ctx c p t)"

lemma station_tick_spec:
  assumes "policy_ok p" "sample_ok (lc_sample c)"
  shows "wei_life_eval_ctx c p t = Some (station_tick p t c)"
    "lc_mac (fst (station_tick p t c)) = lc_mac c" "lc_sample (fst (station_tick p t c)) = lc_sample c"
  using eval_ctx_spec [OF assms, of t] by (auto simp: station_tick_def)

text \<open>What one slot delivers.\<close>

definition slot_reports :: "scorer_env \<Rightarrow> life_sinks \<Rightarrow> wei_life_policy \<Rightarrow> int \<Rightarrow> wei_life_ctx option
    \<Rightarrow> (wei_life_excursion \<times> u8) list" where
  "slot_reports env g p t s =
     (case s of
        None \<Rightarrow> []
      | Some c \<Rightarrow> if report_bound g
                  then map (\<lambda>x. (x, wei_conn_scorer_score env (Some (lc_sample c)))) (snd (station_tick p t c)) else [])"

lemma sweep_eq:
  assumes "policy_ok (lr_policy r)" "\<forall>c. Some c \<in> set (lr_slots r) \<longrightarrow> sample_ok (lc_sample c)"
    and "distinct is" "\<forall>i \<in> set is. i < length (lr_slots r)"
  shows "\<exists>slots. life_sweep env g t is r =
      Some (r\<lparr>lr_slots := slots\<rparr>, concat (map (\<lambda>i. slot_reports env g (lr_policy r) t (lr_slots r ! i)) is)) \<and>
    length slots = length (lr_slots r) \<and>
    (\<forall>i < length slots. slots ! i =
       (if i \<in> set is then map_option (\<lambda>c. fst (station_tick (lr_policy r) t c)) (lr_slots r ! i) else lr_slots r ! i))"
  using assms
proof (induction "is" arbitrary: r)
  case Nil
  then show ?case by (auto intro!: exI [of _ "lr_slots r"])
next
  case (Cons i "is")
  let ?p = "lr_policy r"
  show ?case
  proof (cases "lr_slots r ! i")
    case None
    obtain slots where "life_sweep env g t is r =
        Some (r\<lparr>lr_slots := slots\<rparr>, concat (map (\<lambda>i. slot_reports env g ?p t (lr_slots r ! i)) is))"
      "length slots = length (lr_slots r)"
      "\<forall>i < length slots. slots ! i =
         (if i \<in> set is then map_option (\<lambda>c. fst (station_tick ?p t c)) (lr_slots r ! i) else lr_slots r ! i)"
      using Cons.IH [of r] Cons.prems by auto
    then show ?thesis using None by (auto simp: slot_reports_def intro!: exI [of _ slots])
  next
    case (Some c)
    then have "sample_ok (lc_sample c)" using Cons.prems(2,4) by (metis list.set_intros(1) nth_mem)
    note c = station_tick_spec [OF Cons.prems(1) this]
    let ?c = "fst (station_tick ?p t c)"
    let ?r = "r\<lparr>lr_slots := (lr_slots r)[i := Some ?c]\<rparr>"
    have "\<forall>d. Some d \<in> set (lr_slots ?r) \<longrightarrow> sample_ok (lc_sample d)"
      using Cons.prems(2) c(3) \<open>sample_ok (lc_sample c)\<close> set_update_subset_insert [of "lr_slots r" i "Some ?c"]
      by auto
    then obtain slots where s: "life_sweep env g t is ?r =
        Some (?r\<lparr>lr_slots := slots\<rparr>, concat (map (\<lambda>j. slot_reports env g ?p t (lr_slots ?r ! j)) is))"
      "length slots = length (lr_slots r)"
      "\<forall>j < length slots. slots ! j =
         (if j \<in> set is then map_option (\<lambda>c. fst (station_tick ?p t c)) (lr_slots ?r ! j) else lr_slots ?r ! j)"
      using Cons.IH [of ?r] Cons.prems by auto
    have other: "lr_slots ?r ! j = lr_slots r ! j" if "j \<in> set is" for j
      using that Cons.prems(3) by (cases "i = j") auto
    then have out: "map (\<lambda>j. slot_reports env g ?p t (lr_slots ?r ! j)) is = map (\<lambda>j. slot_reports env g ?p t (lr_slots r ! j)) is"
      by simp
    have rep: "concat (map (\<lambda>ex. wei_life_report g ex sc) xs) = (if report_bound g then map (\<lambda>x. (x, sc)) xs else [])" for xs sc
      by (induction xs) (auto simp: wei_life_report_def)
    have here: "slot_reports env g ?p t (Some c) =
        (if report_bound g then map (\<lambda>x. (x, wei_conn_scorer_score env (Some (lc_sample c)))) (snd (station_tick ?p t c)) else [])"
      by (simp add: slot_reports_def)
    have "life_sweep env g t (i # is) r =
        Some (r\<lparr>lr_slots := slots\<rparr>, concat (map (\<lambda>j. slot_reports env g ?p t (lr_slots r ! j)) (i # is)))"
      using s(1) [unfolded out] c here by (simp add: Some rep case_prod_beta Let_def)
    moreover have "\<forall>j < length slots. slots ! j =
       (if j \<in> set (i # is) then map_option (\<lambda>c. fst (station_tick ?p t c)) (lr_slots r ! j) else lr_slots r ! j)"
      using s(2,3) other Some Cons.prems(3,4) by (auto simp: nth_list_update)
    ultimately show ?thesis using s(2) by blast
  qed
qed

text \<open>
  The interval tick over the whole roster: every station's context is replaced by its own tick,
  whatever the other stations hold, and what is delivered is, in slot order, each station's
  excursions with the score of that station's own sample; without a report sink nothing is
  delivered, and the excursions are consumed all the same.
\<close>

lemma eval_station_eq:
  assumes "roster_ok r"
  shows "wei_life_eval_station env g ts (Some r) =
    Some (Some (r\<lparr>lr_slots := map (map_option (\<lambda>c. fst (station_tick (lr_policy r) (wei_life_now_ms ts) c))) (lr_slots r)\<rparr>),
      concat (map (slot_reports env g (lr_policy r) (wei_life_now_ms ts)) (lr_slots r)))"
proof -
  let ?t = "wei_life_now_ms ts" and ?p = "lr_policy r"
  have len: "length (lr_slots r) = WEI_LIFE_MAX_STATIONS" using assms by (simp add: roster_ok_def)
  obtain slots where s: "life_sweep env g ?t [0..<WEI_LIFE_MAX_STATIONS] r =
      Some (r\<lparr>lr_slots := slots\<rparr>, concat (map (\<lambda>i. slot_reports env g ?p ?t (lr_slots r ! i)) [0..<WEI_LIFE_MAX_STATIONS]))"
    "length slots = length (lr_slots r)"
    "\<forall>i < length slots. slots ! i = (if i \<in> set [0..<WEI_LIFE_MAX_STATIONS]
       then map_option (\<lambda>c. fst (station_tick ?p ?t c)) (lr_slots r ! i) else lr_slots r ! i)"
    using sweep_eq [of r "[0..<WEI_LIFE_MAX_STATIONS]" env g ?t] assms len by (auto simp: roster_ok_def)
  have "slots = map (map_option (\<lambda>c. fst (station_tick ?p ?t c))) (lr_slots r)"
    using s(2,3) len by (intro nth_equalityI) auto
  moreover have "map (\<lambda>i. slot_reports env g ?p ?t (lr_slots r ! i)) [0..<WEI_LIFE_MAX_STATIONS] =
      map (slot_reports env g ?p ?t) (lr_slots r)"
    using len by (intro nth_equalityI) auto
  ultimately show ?thesis using s(1) by (simp add: wei_life_eval_station_def)
qed

lemma tick_shape:
  assumes "roster_ok r"
  shows "map life_shape (map (map_option (\<lambda>c. fst (station_tick (lr_policy r) t c))) (lr_slots r)) = map life_shape (lr_slots r)"
proof -
  have "life_shape (map_option (\<lambda>c. fst (station_tick (lr_policy r) t c)) s) = life_shape s" if "s \<in> set (lr_slots r)" for s
    using assms that station_tick_spec(2,3) by (cases s) (auto simp: roster_ok_def life_shape_def)
  then show ?thesis by simp
qed

section \<open>The roster refines a map\<close>

datatype life_op =
    LOP_event bool wei_life_event mac
  | LOP_attach bool mac
  | LOP_detach mac
  | LOP_ingest mac wei_conn_metric_record
  | LOP_tick scorer_env life_sinks c_timespec

fun life_step :: "life_op \<Rightarrow> wei_life_roster \<Rightarrow> wei_life_roster option" where
  "life_step (LOP_event calloc_ok ev m) r = Some (wei_life_on_station_event calloc_ok r ev m)"
| "life_step (LOP_attach calloc_ok m) r = Some (fst (wei_life_attach_station calloc_ok r m))"
| "life_step (LOP_detach m) r = Some (wei_life_detach_station r m)"
| "life_step (LOP_ingest m rec) r = Some (wei_life_ingest_metric r m rec)"
| "life_step (LOP_tick env g ts) r =
     (case wei_life_eval_station env g ts (Some r) of None \<Rightarrow> None | Some (r', out) \<Rightarrow> r')"

fun life_run :: "life_op list \<Rightarrow> wei_life_roster \<Rightarrow> wei_life_roster option" where
  "life_run [] r = Some r"
| "life_run (op # ops) r = (case life_step op r of None \<Rightarrow> None | Some r \<Rightarrow> life_run ops r)"

text \<open>The abstract operations: at most 64 stations, each with its latest sample.\<close>

definition abs_attach :: "bool \<Rightarrow> mac \<Rightarrow> (mac \<Rightarrow> wei_conn_metric_record option) \<Rightarrow> mac \<Rightarrow> wei_conn_metric_record option" where
  "abs_attach calloc_ok m S =
     (if m \<in> dom S \<or> \<not> calloc_ok \<or> card (dom S) \<ge> 64 then S else S(m \<mapsto> zero_metric_record))"

fun abs_step :: "life_op \<Rightarrow> (mac \<Rightarrow> wei_conn_metric_record option) \<Rightarrow> mac \<Rightarrow> wei_conn_metric_record option" where
  "abs_step (LOP_event calloc_ok WEI_LIFE_EVENT_ASSOC m) S = abs_attach calloc_ok m S"
| "abs_step (LOP_event calloc_ok WEI_LIFE_EVENT_DISASSOC m) S = S(m := None)"
| "abs_step (LOP_event calloc_ok WEI_LIFE_EVENT_CONN_CHANGE m) S = S"
| "abs_step (LOP_event calloc_ok (WEI_LIFE_EVENT_OTHER n) m) S = S"
| "abs_step (LOP_attach calloc_ok m) S = abs_attach calloc_ok m S"
| "abs_step (LOP_detach m) S = S(m := None)"
| "abs_step (LOP_ingest m rec) S = (if m \<in> dom S then S(m \<mapsto> rec) else S)"
| "abs_step (LOP_tick env g ts) S = S"

text \<open>The one sample the loss detector cannot negate is never ingested.\<close>

fun op_ok :: "life_op \<Rightarrow> bool" where
  "op_ok (LOP_ingest m rec) = sample_ok rec"
| "op_ok op = True"

lemma slot_of_walk:
  "wei_life_slot_of r m \<ge> 0 \<longleftrightarrow> slot_of slot_used slot_mac (lr_slots r) m \<noteq> None"
  "slot_of slot_used slot_mac (lr_slots r) m = Some i \<Longrightarrow> wei_life_slot_of r m = int i"
  by (auto simp: wei_life_slot_of_def life_walk_eq split: option.splits)

lemma mem_dom_abs: "m \<in> dom (life_abs slots) \<longleftrightarrow> slot_of slot_used slot_mac slots m \<noteq> None"
  by (auto simp: life_abs_def dom_def split: option.splits)

lemma active_le:
  "roster_ok r \<Longrightarrow> unat (lr_active r) = card (dom (life_abs (lr_slots r))) \<and> card (dom (life_abs (lr_slots r))) \<le> 64"
  using length_filter_le [of slot_used "lr_slots r"] roster_card [of "lr_slots r"]
  by (auto simp: roster_ok_def WEI_LIFE_MAX_STATIONS_def WEI_TRACK_MAX_CLIENTS_def)

lemma attach_fails: "wei_life_attach_station False r m = (r, map_option nat (if wei_life_slot_of r m \<ge> 0 then Some (wei_life_slot_of r m) else None))"
  by (auto simp: wei_life_attach_station_def life_claim_eq Let_def split: option.splits)

lemma attach_step:
  fixes calloc_ok :: bool and m :: mac
  assumes ok: "roster_ok r"
  defines "r' \<equiv> fst (wei_life_attach_station calloc_ok r m)"
  shows "roster_ok r' \<and> life_abs (lr_slots r') = abs_attach calloc_ok m (life_abs (lr_slots r))"
proof (cases calloc_ok)
  case False
  then show ?thesis using ok by (simp add: r'_def attach_fails abs_attach_def)
next
  case True
  let ?s = "lr_slots r"
  have u: "unique_keys slot_used slot_mac ?s" and len: "length ?s = 64" using ok
    by (simp_all add: roster_ok_def WEI_LIFE_MAX_STATIONS_def WEI_TRACK_MAX_CLIENTS_def)
  show ?thesis
  proof (rule roster_tbl.admit_cases [of ?s m "()"])
    fix i assume hit: "slot_of slot_used slot_mac ?s m = Some i" "life_admit ?s m () = (?s[i := ?s ! i], Some i)"
    then have "r' = r" using True by (simp add: r'_def attach_admit)
    then show ?thesis using ok hit(1) by (simp add: abs_attach_def mem_dom_abs)
  next
    fix i assume claim: "slot_of slot_used slot_mac ?s m = None"
      "life_admit ?s m () = (?s[i := Some (life_fresh m)], Some i)" "i < length ?s" "\<not> slot_used (?s ! i)"
    have r': "r' = r\<lparr>lr_slots := ?s[i := Some (life_fresh m)], lr_active := lr_active r + 1\<rparr>"
      using True claim by (simp add: r'_def attach_admit)
    have u': "unique_keys slot_used slot_mac (?s[i := Some (life_fresh m)])"
      using roster_tbl.admit_unique [OF u, of m "()"] claim(2) by simp
    have count: "length (filter slot_used (?s[i := Some (life_fresh m)])) = length (filter slot_used ?s) + 1"
      using length_filter_update [OF claim(3), of slot_used "Some (life_fresh m)"] claim(4) by simp
    have room: "length (filter slot_used ?s) < 64"
      using count length_filter_le [of slot_used "?s[i := Some (life_fresh m)]"] len by simp
    have active: "unat (lr_active r + 1) = length (filter slot_used (?s[i := Some (life_fresh m)]))"
      using ok room count by (simp add: roster_ok_def unat_word_ariths)
    have samples: "\<forall>c. Some c \<in> set (?s[i := Some (life_fresh m)]) \<longrightarrow> sample_ok (lc_sample c)"
      using ok set_update_subset_insert [of ?s i "Some (life_fresh m)"] zero_sample_ok
      by (auto simp: roster_ok_def life_fresh_def)
    have "life_abs (?s[i := Some (life_fresh m)]) k = ((life_abs ?s)(m \<mapsto> zero_metric_record)) k" for k
    proof (cases "k = m")
      case True
      have "slot_of slot_used slot_mac (?s[i := Some (life_fresh m)]) m = Some i"
        using u' by (rule slot_of_unique) (use claim(3) in auto)
      then show ?thesis using True claim(3) by (simp add: life_abs_def life_fresh_def)
    next
      case False
      have "slot_of slot_used slot_mac (?s[i := Some (life_fresh m)]) k = slot_of slot_used slot_mac ?s k"
        using False claim(3,4) by (intro slot_of_update_other) auto
      moreover have "slot_of slot_used slot_mac ?s k \<noteq> Some i" using claim(4) slot_of_SomeD(2) by fastforce
      ultimately show ?thesis using False by (auto simp: life_abs_def split: option.splits)
    qed
    then have "life_abs (?s[i := Some (life_fresh m)]) = (life_abs ?s)(m \<mapsto> zero_metric_record)" by (rule ext)
    moreover have "m \<notin> dom (life_abs ?s)" "card (dom (life_abs ?s)) < 64"
      using claim(1) room roster_card [OF u] by (simp_all add: mem_dom_abs)
    ultimately show ?thesis
      using r' u' active samples ok True by (simp add: roster_ok_def abs_attach_def)
  next
    assume full: "slot_of slot_used slot_mac ?s m = None" "life_admit ?s m () = (?s, None)" "\<forall>e \<in> set ?s. slot_used e"
    then have "r' = r" using True by (simp add: r'_def attach_admit)
    moreover have "card (dom (life_abs ?s)) = 64" using roster_card [OF u] full(3) len by simp
    ultimately show ?thesis using ok by (simp add: abs_attach_def)
  qed
qed

lemma detach_step:
  assumes ok: "roster_ok r"
  shows "roster_ok (wei_life_detach_station r m) \<and>
    life_abs (lr_slots (wei_life_detach_station r m)) = (life_abs (lr_slots r))(m := None)"
proof (cases "slot_of slot_used slot_mac (lr_slots r) m")
  case None
  then have "life_abs (lr_slots r) m = None" by (simp add: life_abs_def)
  moreover have "wei_life_detach_station r m = r"
    using None slot_of_walk(1) [of r m] by (simp add: wei_life_detach_station_def)
  ultimately show ?thesis using ok by (simp add: fun_upd_idem)
next
  case (Some i)
  let ?s = "lr_slots r"
  note i = slot_of_SomeD [OF Some]
  have u: "unique_keys slot_used slot_mac ?s" using ok by (simp add: roster_ok_def)
  have d: "wei_life_detach_station r m = r\<lparr>lr_slots := ?s[i := None], lr_active := lr_active r - 1\<rparr>"
    using slot_of_walk(2) [OF Some] by (simp add: wei_life_detach_station_def)
  have count: "length (filter slot_used (?s[i := None])) + 1 = length (filter slot_used ?s)"
    using length_filter_update [OF i(1), of slot_used None] i(2) by simp
  then have "lr_active r \<noteq> 0" using ok by (auto simp: roster_ok_def)
  then have "unat (lr_active r - 1) = length (filter slot_used (?s[i := None]))"
    using ok count by (simp add: roster_ok_def unat_minus_one)
  moreover have "unique_keys slot_used slot_mac (?s[i := None])" using u by (rule unique_keys_update_same) simp
  moreover have "\<forall>c. Some c \<in> set (?s[i := None]) \<longrightarrow> sample_ok (lc_sample c)"
    using ok set_update_subset_insert [of ?s i None] by (auto simp: roster_ok_def)
  ultimately show ?thesis
    using ok d life_abs_update [OF u Some, of None] by (simp add: roster_ok_def)
qed

lemma ingest_step:
  assumes ok: "roster_ok r" and rec: "sample_ok rec"
  shows "roster_ok (wei_life_ingest_metric r m rec) \<and>
    life_abs (lr_slots (wei_life_ingest_metric r m rec)) = abs_step (LOP_ingest m rec) (life_abs (lr_slots r))"
proof (cases "slot_of slot_used slot_mac (lr_slots r) m")
  case None
  then show ?thesis using ok slot_of_walk(1) [of r m]
    by (auto simp: wei_life_ingest_metric_def mem_dom_abs)
next
  case (Some i)
  let ?s = "lr_slots r"
  note i = slot_of_SomeD [OF Some]
  obtain c where c: "?s ! i = Some c" "lc_mac c = m" using i by (cases "?s ! i") auto
  let ?c = "Some (c\<lparr>lc_sample := rec\<rparr>)"
  have u: "unique_keys slot_used slot_mac ?s" using ok by (simp add: roster_ok_def)
  have d: "wei_life_ingest_metric r m rec = r\<lparr>lr_slots := ?s[i := ?c]\<rparr>"
    using slot_of_walk(2) [OF Some] c by (simp add: wei_life_ingest_metric_def)
  have "length (filter slot_used (?s[i := ?c])) = length (filter slot_used ?s)"
    using length_filter_update [OF i(1), of slot_used ?c] i(2) by simp
  moreover have "unique_keys slot_used slot_mac (?s[i := ?c])"
    using u by (rule unique_keys_update_same) (simp add: c)
  moreover have "\<forall>c. Some c \<in> set (?s[i := ?c]) \<longrightarrow> sample_ok (lc_sample c)"
    using ok rec set_update_subset_insert [of ?s i ?c] by (auto simp: roster_ok_def)
  moreover have "life_abs (?s[i := ?c]) = (life_abs ?s)(m \<mapsto> rec)"
    using life_abs_update [OF u Some, of ?c] c by simp
  ultimately show ?thesis
    using ok d Some by (simp add: roster_ok_def mem_dom_abs)
qed

lemma life_step_refines:
  assumes "roster_ok r" "op_ok op"
  shows "\<exists>r'. life_step op r = Some r' \<and> roster_ok r' \<and> life_abs (lr_slots r') = abs_step op (life_abs (lr_slots r))"
proof (cases op)
  case (LOP_event calloc_ok ev m)
  then show ?thesis using assms attach_step detach_step
    by (cases ev) (simp_all add: wei_life_on_station_event_def wei_life_reeval_station_def)
next
  case (LOP_ingest m rec)
  then show ?thesis using assms ingest_step by simp
next
  case (LOP_tick env g ts)
  then show ?thesis
    using eval_station_eq [OF assms(1)] shape_ok [OF assms(1) tick_shape [OF assms(1)]] abs_shape [OF tick_shape [OF assms(1)]]
    by simp
qed (use assms attach_step detach_step in simp_all)

lemma life_run_refines:
  "roster_ok r \<Longrightarrow> list_all op_ok ops \<Longrightarrow>
     \<exists>r'. life_run ops r = Some r' \<and> roster_ok r' \<and>
       life_abs (lr_slots r') = foldl (\<lambda>S op. abs_step op S) (life_abs (lr_slots r)) ops"
proof (induction ops arbitrary: r)
  case (Cons op ops)
  then obtain r1 where "life_step op r = Some r1" "roster_ok r1" "life_abs (lr_slots r1) = abs_step op (life_abs (lr_slots r))"
    using life_step_refines [of r op] by auto
  then show ?case using Cons.IH [of r1] Cons.prems(2) by auto
qed simp

section \<open>Properties\<close>

lemma init_ok:
  assumes "wei_life_init True (Some r0) pol g = (rc, Some r, g')" "policy_ok (lr_policy r)"
  shows "roster_ok r" "life_abs (lr_slots r) = Map.empty"
proof -
  have r: "lr_slots r = replicate WEI_LIFE_MAX_STATIONS None" "lr_active r = 0"
    using assms(1) by (auto simp: wei_life_init_def Let_def)
  have none: "slot_of slot_used slot_mac (replicate n None) m = None" for n m
    by (simp add: slot_of_def find_index_None_iff)
  show "roster_ok r" using assms(2) by (simp add: roster_ok_def r unique_keys_replicate)
  show "life_abs (lr_slots r) = Map.empty" by (rule ext) (simp add: life_abs_def r none)
qed

text \<open>
  C19. The roster is a map. After any sequence of station events, attaches, detaches, ingests and
  interval ticks, with any allocation failures, the slots hold exactly one context for each
  station that is attached and none for any other, with the sample ingested last (or the zero
  sample); the active count is the number of stations; and a station is refused only when 64 others
  are attached or the allocator fails. Nothing in the run is undefined.
\<close>

theorem roster_refines_map:
  assumes "wei_life_init True (Some r0) pol g = (rc, Some r, g')" "policy_ok (lr_policy r)" "list_all op_ok ops"
  defines "S \<equiv> foldl (\<lambda>S op. abs_step op S) Map.empty ops"
  shows "\<exists>r'. life_run ops r = Some r' \<and> life_abs (lr_slots r') = S \<and>
    unique_keys slot_used slot_mac (lr_slots r') \<and> unat (lr_active r') = card (dom S) \<and> card (dom S) \<le> 64"
proof -
  note ok = init_ok [OF assms(1,2)]
  obtain r' where r': "life_run ops r = Some r'" "roster_ok r'" "life_abs (lr_slots r') = S"
    using life_run_refines [OF ok(1) assms(3)] by (auto simp: ok(2) S_def)
  then show ?thesis using active_le [OF r'(2)] by (auto simp: roster_ok_def)
qed

definition sample_roster :: wei_life_roster where
  "sample_roster = \<lparr>lr_slots = [], lr_active = 0, lr_policy = wei_life_policy_set_defaults\<rparr>"

definition sample_sinks :: life_sinks where "sample_sinks = \<lparr>sink_bound = False, report_bound = True\<rparr>"

theorem roster_refines_map_witness:
  "\<exists>r'. life_run [LOP_event True WEI_LIFE_EVENT_ASSOC zero_mac, LOP_ingest zero_mac sample_rec]
      (the (fst (snd (wei_life_init True (Some sample_roster) None sample_sinks)))) = Some r' \<and>
    life_abs (lr_slots r') = [zero_mac \<mapsto> sample_rec] \<and> unat (lr_active r') = 1"
proof -
  let ?i = "wei_life_init True (Some sample_roster) None sample_sinks"
  let ?ops = "[LOP_event True WEI_LIFE_EVENT_ASSOC zero_mac, LOP_ingest zero_mac sample_rec]"
  have i: "?i = (0, Some (the (fst (snd ?i))), snd (snd ?i))" by (simp add: wei_life_init_def Let_def)
  have p: "policy_ok (lr_policy (the (fst (snd ?i))))" using default_policy_ok by (simp add: wei_life_init_def Let_def)
  have o: "list_all op_ok ?ops" by (simp add: sample_ok_def sample_rec_def zero_metric_record_def)
  show ?thesis using roster_refines_map [OF i p o] by (auto simp: abs_attach_def)
qed

lemma fresh_roster_ok:
  "\<exists>r. wei_life_init True (Some sample_roster) None sample_sinks = (0, Some r, sample_sinks\<lparr>sink_bound := True\<rparr>) \<and> roster_ok r \<and>
     lr_policy r = wei_life_policy_set_defaults \<and> lr_slots r = replicate 64 None"
  using init_ok(1) [of sample_roster None sample_sinks] default_policy_ok
  by (simp add: wei_life_init_def Let_def WEI_LIFE_MAX_STATIONS_def WEI_TRACK_MAX_CLIENTS_def)

text \<open>
  A station that associates before its first metric record arrives is reported as degraded:
  its context holds the zero record, which reads as an active, valid sample, so the first tick
  under the default policy delivers one SNR and one PHY onset for a link nobody measured.
\<close>

lemma fresh_station_false_onsets:
  "\<exists>r r' s. wei_life_init True (Some sample_roster) None sample_sinks = (0, Some r, sample_sinks\<lparr>sink_bound := True\<rparr>) \<and>
    wei_life_eval_station env sample_sinks ts (Some (wei_life_on_station_event True r WEI_LIFE_EVENT_ASSOC m)) =
      Some (r', [(\<lparr>ex_mac = m, ex_metric = WEI_LIFE_METRIC_SNR, ex_onset_count = 1, ex_duration_ms = 0\<rparr>, s),
                 (\<lparr>ex_mac = m, ex_metric = WEI_LIFE_METRIC_PHY, ex_onset_count = 1, ex_duration_ms = 0\<rparr>, s)])"
proof -
  obtain r where r: "wei_life_init True (Some sample_roster) None sample_sinks = (0, Some r, sample_sinks\<lparr>sink_bound := True\<rparr>)"
    "roster_ok r" "lr_policy r = wei_life_policy_set_defaults" "lr_slots r = replicate 64 None"
    using fresh_roster_ok by blast
  have slots: "replicate 64 None = None # replicate 63 (None :: wei_life_ctx option)"
    by (simp add: numeral_eq_Suc)
  have walk: "life_walk 0 (lr_slots r) m = - 1"
  proof -
    have "slot_of slot_used slot_mac (replicate 64 None) m = None" by (simp add: slot_of_def find_index_None_iff)
    then show ?thesis by (simp add: life_walk_eq r(4))
  qed
  let ?r = "wei_life_on_station_event True r WEI_LIFE_EVENT_ASSOC m"
  have a: "?r = r\<lparr>lr_slots := Some (life_fresh m) # replicate 63 None, lr_active := lr_active r + 1\<rparr>"
    using walk slots r(4) by (simp add: wei_life_on_station_event_def wei_life_attach_station_def wei_life_slot_of_def)
  have ok: "roster_ok ?r" using attach_step [OF r(2), of True m] by (simp add: wei_life_on_station_event_def)
  have tick: "wei_life_eval_ctx (life_fresh m) wei_life_policy_set_defaults t =
      Some (station_tick wei_life_policy_set_defaults t (life_fresh m))" for t
    using zero_sample_ok by (intro station_tick_spec(1) [OF default_policy_ok]) (simp add: life_fresh_def)
  have "snd (station_tick wei_life_policy_set_defaults t (life_fresh m)) =
      [\<lparr>ex_mac = m, ex_metric = WEI_LIFE_METRIC_SNR, ex_onset_count = 1, ex_duration_ms = 0\<rparr>,
       \<lparr>ex_mac = m, ex_metric = WEI_LIFE_METRIC_PHY, ex_onset_count = 1, ex_duration_ms = 0\<rparr>]" for t
    unfolding station_tick_def
    by (simp add: wei_life_eval_ctx_def wei_life_eval_snr_def wei_life_eval_loss_def wei_life_eval_phy_def
        wei_life_eval_chanutil_def wei_life_policy_set_defaults_def neg_i32_def life_surface_def wei_track_tick_def
        wei_track_collect_def life_fresh_def zero_metric_record_def zero_track_entry_def to_i32_def opt_list_def Let_def)
  then show ?thesis
    using r(1) eval_station_eq [OF ok, of env sample_sinks ts]
    by (intro exI [of _ r]) (simp add: a r(3) slot_reports_def sample_sinks_def life_fresh_def)
qed

end
