(* ===== verification/Life_Clock.thy ===== *)
theory Life_Clock
  imports Clock Life_Roster
begin

text \<open>
  The widths of the lifecycle unit's millisecond arithmetic (source/wei_life.c): the trackers of
  every context keep to the clock over any sequence of roster operations, as the scorer's do.
\<close>

definition roster_in :: "int \<Rightarrow> wei_life_roster \<Rightarrow> bool" where
  "roster_in T r \<longleftrightarrow> (\<forall>c M. Some c \<in> set (lr_slots r) \<longrightarrow> entry_in T (life_track M c))"

fun life_times :: "life_op list \<Rightarrow> int list" where
  "life_times [] = []"
| "life_times (LOP_tick env g ts # ops) = wei_life_now_ms ts # life_times ops"
| "life_times (op # ops) = life_times ops"

lemma roster_in_mono: "roster_in T r \<Longrightarrow> T \<le> T' \<Longrightarrow> roster_in T' r"
  unfolding roster_in_def entry_in_def by (meson order_trans)

lemma life_fresh_in: "0 \<le> T \<Longrightarrow> entry_in T (life_track M (life_fresh m))"
  by (cases M) (simp_all add: life_fresh_def)

lemma station_tick_in:
  assumes "policy_ok p" "sample_ok (lc_sample c)" "\<forall>M. entry_in T (life_track M c)" "0 \<le> T"
  shows "entry_in T (life_track M (fst (station_tick p T c)))"
proof -
  have "life_track M (fst (station_tick p T c)) = fst (wei_track_collect (life_tick M p T c))"
    using eval_ctx_spec [OF assms(1,2), of T] station_tick_spec(1) [OF assms(1,2), of T] by auto
  then show ?thesis using tick_in assms(3,4) by (simp add: life_tick_def)
qed

lemma attach_in:
  assumes "roster_in T r" "0 \<le> T"
  shows "roster_in T (fst (wei_life_attach_station calloc_ok r m))"
proof -
  have "set (fst (life_claim calloc_ok m i slots)) \<subseteq> insert (Some (life_fresh m)) (set slots)" for i slots
    by (induction calloc_ok m i slots rule: life_claim.induct) (auto split: prod.splits)
  then have "Some c \<in> set (fst (life_claim calloc_ok m 0 (lr_slots r))) \<Longrightarrow> entry_in T (life_track M c)" for c M
    using assms life_fresh_in by (fastforce simp: roster_in_def)
  then show ?thesis
    using assms(1) by (auto simp: wei_life_attach_station_def roster_in_def Let_def split: prod.splits option.splits)
qed

lemma detach_in: "roster_in T r \<Longrightarrow> roster_in T (wei_life_detach_station r m)"
  using set_update_subset_insert [of "lr_slots r" _ None]
  by (fastforce simp: wei_life_detach_station_def roster_in_def Let_def)

lemma ingest_in:
  assumes "roster_in T r"
  shows "roster_in T (wei_life_ingest_metric r m rec)"
proof -
  have track: "life_track M (c\<lparr>lc_sample := rec\<rparr>) = life_track M c" for M c by (cases M) simp_all
  have old: "entry_in T (life_track M c)" if "lr_slots r ! i = Some c" "i < length (lr_slots r)" for i c M
    using assms that nth_mem [OF that(2)] by (simp add: roster_in_def)
  have "entry_in T (life_track M c)"
    if "(lr_slots r)[j := map_option (\<lambda>c. c\<lparr>lc_sample := rec\<rparr>) (lr_slots r ! j)] ! i = Some c" "i < length (lr_slots r)" for i j c M
    using that old by (cases "i = j") (auto simp: track)
  then show ?thesis
    using assms by (auto simp: wei_life_ingest_metric_def roster_in_def Let_def in_set_conv_nth)
qed

text \<open>
  The four trackers of every station on the roster keep to the clock as well, so their 64-bit
  steps are the unbounded ones at any later reading below 2^63 ms.
\<close>

lemma life_run_in:
  assumes "roster_ok r" "list_all op_ok ops" "roster_in T r" "0 \<le> T" "sorted (T # life_times ops)" "life_run ops r = Some r'"
  shows "roster_in (last (T # life_times ops)) r'"
  using assms
proof (induction ops arbitrary: T r)
  case (Cons op ops)
  obtain r1 where r1: "life_step op r = Some r1" "roster_ok r1"
    using life_step_refines [OF Cons.prems(1)] Cons.prems(2) by fastforce
  have run: "life_run ops r1 = Some r'" "list_all op_ok ops" using Cons.prems(2,6) r1(1) by simp_all
  show ?case
  proof (cases op)
    case (LOP_tick env g ts)
    let ?t = "wei_life_now_ms ts"
    have t: "T \<le> ?t" "0 \<le> ?t" "sorted (?t # life_times ops)" using Cons.prems(4,5) LOP_tick by simp_all
    have "entry_in ?t (life_track M (fst (station_tick (lr_policy r) ?t c)))" if "Some c \<in> set (lr_slots r)" for c M
      using roster_in_mono [OF Cons.prems(3) t(1)] Cons.prems(1) that t(2)
      by (intro station_tick_in) (auto simp: roster_in_def roster_ok_def)
    moreover have "r1 = r\<lparr>lr_slots := map (map_option (\<lambda>c. fst (station_tick (lr_policy r) ?t c))) (lr_slots r)\<rparr>"
      using r1(1) LOP_tick eval_station_eq [OF Cons.prems(1), of env g ts] by simp
    ultimately have "roster_in ?t r1" unfolding roster_in_def by (auto simp: map_option_case split: option.splits)
    then show ?thesis using Cons.IH [OF r1(2) run(2) _ t(2,3) run(1)] LOP_tick by simp
  next
    case (LOP_event calloc_ok ev m)
    have "roster_in T r1" using LOP_event r1(1) Cons.prems(3,4) attach_in detach_in
      by (cases ev) (auto simp: wei_life_on_station_event_def wei_life_reeval_station_def)
    then show ?thesis using Cons.IH [OF r1(2) run(2) _ Cons.prems(4) _ run(1)] Cons.prems(5) LOP_event by simp
  next
    case (LOP_attach calloc_ok m)
    have "roster_in T r1" using LOP_attach r1(1) Cons.prems(3,4) attach_in by auto
    then show ?thesis using Cons.IH [OF r1(2) run(2) _ Cons.prems(4) _ run(1)] Cons.prems(5) LOP_attach by simp
  next
    case (LOP_detach m)
    have "roster_in T r1" using LOP_detach r1(1) Cons.prems(3) detach_in by auto
    then show ?thesis using Cons.IH [OF r1(2) run(2) _ Cons.prems(4) _ run(1)] Cons.prems(5) LOP_detach by simp
  next
    case (LOP_ingest m rec)
    have "roster_in T r1" using LOP_ingest r1(1) Cons.prems(3) ingest_in by auto
    then show ?thesis using Cons.IH [OF r1(2) run(2) _ Cons.prems(4) _ run(1)] Cons.prems(5) LOP_ingest by simp
  qed
qed simp

lemma life_times_fit:
  assumes "wei_life_init True (Some r0) pol g = (rc, Some r, g')" "policy_ok (lr_policy r)" "list_all op_ok ops"
    and "sorted (0 # life_times ops @ [now])" "now < 2 ^ 63" "life_run ops r = Some r'" "Some c \<in> set (lr_slots r')"
  shows "wei_track_tick64 (life_track M c) metric now band floor_ms = Some (wei_track_tick (life_track M c) metric now band floor_ms)"
proof -
  have "roster_in 0 r" using assms(1) by (auto simp: wei_life_init_def Let_def roster_in_def)
  moreover have "sorted (0 # life_times ops)" "\<forall>x \<in> set (0 # life_times ops). x \<le> now"
    using assms(4) by (auto simp: sorted_append)
  ultimately have "roster_in now r'" "0 \<le> now"
    using life_run_in [OF init_ok(1) [OF assms(1,2)] assms(3) _ order_refl _ assms(6)] roster_in_mono
      last_in_set [of "0 # life_times ops"] by auto
  then show ?thesis using assms(5,7) track_tick64 by (simp add: roster_in_def)
qed

end
