(* ===== verification/Life_Race.thy ===== *)
theory Life_Race
  imports Life_Roster
begin

text \<open>
  The interval tick of the lifecycle unit against concurrent station events
  (source/wei_life.c). The tick takes the roster's mutex once per slot, not once per sweep, so
  any number of attaches, detaches, events and ingests may run between two visits. The sweep is
  written here with such operations before each visit; with none it is the sweep of the
  sequential model.
\<close>

section \<open>The sweep with operations between its visits\<close>

text \<open>\<open>evs i\<close> are the operations that get the mutex before slot \<open>i\<close> is visited.\<close>

fun racing_sweep ::
    "scorer_env \<Rightarrow> life_sinks \<Rightarrow> int \<Rightarrow> (nat \<Rightarrow> life_op list) \<Rightarrow> nat list \<Rightarrow> wei_life_roster
      \<Rightarrow> (wei_life_roster \<times> (wei_life_excursion \<times> u8) list) option" where
  "racing_sweep env g now_ms evs [] roster = Some (roster, [])"
| "racing_sweep env g now_ms evs (i # is) roster =
     (case life_run (evs i) roster of
        None \<Rightarrow> None
      | Some roster \<Rightarrow>
          (case life_sweep env g now_ms [i] roster of
             None \<Rightarrow> None
           | Some (roster, out) \<Rightarrow>
               map_option (\<lambda>(r, outs). (r, out @ outs)) (racing_sweep env g now_ms evs is roster)))"

text \<open>The operations other threads perform: all but the tick, which only the poll thread runs.\<close>

fun event_op :: "life_op \<Rightarrow> bool" where
  "event_op (LOP_tick env g ts) = False"
| "event_op op = True"

fun detaches :: "mac \<Rightarrow> life_op \<Rightarrow> bool" where
  "detaches m (LOP_event calloc_ok WEI_LIFE_EVENT_DISASSOC k) = (k = m)"
| "detaches m (LOP_detach k) = (k = m)"
| "detaches m op = False"

definition race_ok :: "(nat \<Rightarrow> life_op list) \<Rightarrow> bool" where
  "race_ok evs \<longleftrightarrow> (\<forall>i. list_all (\<lambda>op. op_ok op \<and> event_op op) (evs i))"

lemma racing_sweep_quiet:
  "racing_sweep env g t (\<lambda>i. []) is r = life_sweep env g t is r"
proof (induction "is" arbitrary: r)
  case (Cons i "is")
  then show ?case
    by (cases "lr_slots r ! i"; cases "wei_life_eval_ctx (the (lr_slots r ! i)) (lr_policy r) t")
      (auto simp: Let_def map_option_case split: option.splits)
qed simp

section \<open>What an operation leaves of a station it does not detach\<close>

text \<open>The station's slot, and its context up to the sample.\<close>

definition holds_ctx :: "wei_life_roster \<Rightarrow> mac \<Rightarrow> nat \<Rightarrow> wei_life_ctx \<Rightarrow> bool" where
  "holds_ctx r m i c \<longleftrightarrow> slot_of slot_used slot_mac (lr_slots r) m = Some i \<and>
     (\<exists>rec. lr_slots r ! i = Some (c\<lparr>lc_sample := rec\<rparr>))"

lemma holds_ctx_sample:
  assumes "holds_ctx r m i c"
  shows "\<exists>rec. life_abs (lr_slots r) m = Some rec \<and> lr_slots r ! i = Some (c\<lparr>lc_sample := rec\<rparr>)"
  using assms by (auto simp: holds_ctx_def life_abs_def)

lemma holds_ctxD:
  assumes "holds_ctx r m i c"
  shows "i < length (lr_slots r)" "lc_mac c = m"
proof -
  have "slot_of slot_used slot_mac (lr_slots r) m = Some i" using assms by (simp add: holds_ctx_def)
  note i = slot_of_SomeD [OF this]
  show "i < length (lr_slots r)" using i(1) .
  show "lc_mac c = m" using i(3) assms by (auto simp: holds_ctx_def)
qed

lemma attach_holds:
  assumes "roster_ok r" "holds_ctx r m i c"
  shows "holds_ctx (fst (wei_life_attach_station calloc_ok r k)) m i c"
proof (cases calloc_ok)
  case False
  then show ?thesis using assms by (simp add: attach_fails)
next
  case True
  let ?s = "lr_slots r" and ?a = "life_admit (lr_slots r) k ()"
  have slot: "slot_of slot_used slot_mac ?s m = Some i" using assms(2) by (simp add: holds_ctx_def)
  have u: "unique_keys slot_used slot_mac ?s" using assms(1) by (simp add: roster_ok_def)
  have "slot_of slot_used slot_mac (fst ?a) m = Some i \<and> fst ?a ! i = ?s ! i"
  proof (rule roster_tbl.admit_cases [of ?s k "()"])
    fix j assume "?a = (?s[j := ?s ! j], Some j)"
    then show ?thesis using slot by simp
  next
    fix j assume j: "?a = (?s[j := Some (life_fresh k)], Some j)" "\<not> slot_used (?s ! j)"
      "slot_of slot_used slot_mac ?s k = None"
    then have "k \<noteq> m" "j \<noteq> i" using slot slot_of_SomeD(2) [OF slot] by auto
    then show ?thesis using roster_tbl.admit_other [of m k ?s "()"] slot j(1) by simp
  qed (use slot in simp)
  then show ?thesis using assms(2) True by (simp add: holds_ctx_def attach_admit)
qed

lemma detach_holds:
  assumes "holds_ctx r m i c" "k \<noteq> m"
  shows "holds_ctx (wei_life_detach_station r k) m i c"
proof (cases "slot_of slot_used slot_mac (lr_slots r) k")
  case None
  then show ?thesis using assms(1) slot_of_walk(1) [of r k] by (simp add: wei_life_detach_station_def)
next
  case (Some j)
  note j = slot_of_SomeD [OF Some]
  have slot: "slot_of slot_used slot_mac (lr_slots r) m = Some i" using assms(1) by (simp add: holds_ctx_def)
  have "j \<noteq> i" using j(3) slot_of_SomeD(3) [OF slot] assms(2) by auto
  moreover have "slot_of slot_used slot_mac ((lr_slots r)[j := None]) m = Some i"
    using slot_of_update_other [of j "lr_slots r" slot_used None slot_mac m] j assms(2) slot by simp
  ultimately show ?thesis using assms(1) slot_of_walk(2) [OF Some]
    by (simp add: holds_ctx_def wei_life_detach_station_def)
qed

lemma ingest_holds:
  assumes "roster_ok r" "holds_ctx r m i c"
  shows "holds_ctx (wei_life_ingest_metric r k rec) m i c"
proof (cases "slot_of slot_used slot_mac (lr_slots r) k")
  case None
  then show ?thesis using assms(2) slot_of_walk(1) [of r k] by (simp add: wei_life_ingest_metric_def)
next
  case (Some j)
  note j = slot_of_SomeD [OF Some]
  obtain d where d: "lr_slots r ! j = Some d" "lc_mac d = k" using j by (cases "lr_slots r ! j") auto
  let ?s = "(lr_slots r)[j := Some (d\<lparr>lc_sample := rec\<rparr>)]"
  have slot: "slot_of slot_used slot_mac (lr_slots r) m = Some i" using assms(2) by (simp add: holds_ctx_def)
  have u: "unique_keys slot_used slot_mac (lr_slots r)" using assms(1) by (simp add: roster_ok_def)
  have r': "wei_life_ingest_metric r k rec = r\<lparr>lr_slots := ?s\<rparr>"
    using slot_of_walk(2) [OF Some] d by (simp add: wei_life_ingest_metric_def)
  show ?thesis
  proof (cases "k = m")
    case True
    then have "j = i" using Some slot by simp
    have "slot_of slot_used slot_mac ?s m = Some i"
      using unique_keys_update_same [OF u, of "Some (d\<lparr>lc_sample := rec\<rparr>)" j] d j True \<open>j = i\<close>
      by (intro slot_of_unique) auto
    then show ?thesis using assms(2) d j(1) \<open>j = i\<close> by (auto simp: holds_ctx_def r')
  next
    case False
    then have "j \<noteq> i" using j(3) slot_of_SomeD(3) [OF slot] by auto
    moreover have "slot_of slot_used slot_mac ?s m = Some i"
      using slot_of_update_other [of j "lr_slots r" slot_used "Some (d\<lparr>lc_sample := rec\<rparr>)" slot_mac m] j d False slot
      by simp
    ultimately show ?thesis using assms(2) by (simp add: holds_ctx_def r')
  qed
qed

lemma event_holds:
  assumes "roster_ok r" "holds_ctx r m i c" "event_op op" "\<not> detaches m op" "life_step op r = Some r'"
  shows "holds_ctx r' m i c"
proof (cases op)
  case (LOP_event calloc_ok ev k)
  then show ?thesis using assms attach_holds detach_holds
    by (cases ev) (auto simp: wei_life_on_station_event_def wei_life_reeval_station_def)
qed (use assms attach_holds detach_holds ingest_holds in auto)

lemma step_policy: "event_op op \<Longrightarrow> life_step op r = Some r' \<Longrightarrow> lr_policy r' = lr_policy r"
proof (induction op r rule: life_step.induct)
  case (1 calloc_ok ev m r)
  then show ?case
    by (cases ev) (auto simp: wei_life_on_station_event_def wei_life_reeval_station_def wei_life_attach_station_def
        wei_life_detach_station_def Let_def split: prod.splits option.splits)
qed (auto simp: wei_life_attach_station_def wei_life_detach_station_def wei_life_ingest_metric_def Let_def
    split: prod.splits option.splits)

abbreviation abs_run :: "life_op list \<Rightarrow> (mac \<Rightarrow> wei_conn_metric_record option) \<Rightarrow> mac \<Rightarrow> wei_conn_metric_record option" where
  "abs_run ops S \<equiv> foldl (\<lambda>S op. abs_step op S) S ops"

lemma events_run:
  assumes "roster_ok r" "list_all (\<lambda>op. op_ok op \<and> event_op op) ops"
  shows "\<exists>r'. life_run ops r = Some r' \<and> roster_ok r' \<and> lr_policy r' = lr_policy r \<and>
    life_abs (lr_slots r') = abs_run ops (life_abs (lr_slots r)) \<and>
    (\<forall>m i c. holds_ctx r m i c \<and> list_all (\<lambda>op. \<not> detaches m op) ops \<longrightarrow> holds_ctx r' m i c)"
  using assms
proof (induction ops arbitrary: r)
  case (Cons op ops)
  obtain r1 where r1: "life_step op r = Some r1" "roster_ok r1"
    "life_abs (lr_slots r1) = abs_step op (life_abs (lr_slots r))"
    using life_step_refines [of r op] Cons.prems by auto
  then show ?case
    using Cons.IH [of r1] Cons.prems step_policy [OF _ r1(1)] event_holds [OF Cons.prems(1) _ _ _ r1(1)] by fastforce
qed simp

section \<open>One visit\<close>

lemma station_tick_mac:
  assumes "policy_ok p" "sample_ok (lc_sample c)" "x \<in> set (snd (station_tick p t c))"
  shows "ex_mac x = lc_mac c"
  using eval_ctx_spec [OF assms(1,2), of t] assms(3) by (auto simp: station_tick_def)

text \<open>The delivered excursions that name the station.\<close>

definition reports_for :: "mac \<Rightarrow> (wei_life_excursion \<times> u8) list \<Rightarrow> (wei_life_excursion \<times> u8) list" where
  "reports_for m out = filter (\<lambda>r. ex_mac (fst r) = m) out"

lemma reports_for_append [simp]: "reports_for m (xs @ ys) = reports_for m xs @ reports_for m ys"
  by (simp add: reports_for_def)

lemma slot_reports_for:
  assumes "policy_ok p" "sample_ok (lc_sample c)"
  shows "reports_for m (slot_reports env g p t (Some c)) = (if m = lc_mac c then slot_reports env g p t (Some c) else [])"
  using station_tick_mac [OF assms]
  by (auto simp: reports_for_def slot_reports_def filter_empty_conv intro!: filter_True)

lemma visit:
  assumes "roster_ok r" "j < WEI_LIFE_MAX_STATIONS"
  shows "\<exists>r'. life_sweep env g t [j] r = Some (r', slot_reports env g (lr_policy r) t (lr_slots r ! j)) \<and> roster_ok r' \<and>
    lr_policy r' = lr_policy r \<and> life_abs (lr_slots r') = life_abs (lr_slots r) \<and>
    (\<forall>m i c. i \<noteq> j \<and> holds_ctx r m i c \<longrightarrow> holds_ctx r' m i c) \<and>
    (\<forall>m i c. holds_ctx r m i c \<longrightarrow> (\<exists>c'. holds_ctx r' m i c'))"
proof -
  let ?p = "lr_policy r" and ?s = "lr_slots r"
  have ok: "length ?s = WEI_LIFE_MAX_STATIONS" "policy_ok ?p" "\<forall>c. Some c \<in> set ?s \<longrightarrow> sample_ok (lc_sample c)"
    using assms(1) by (auto simp: roster_ok_def)
  obtain slots where s: "life_sweep env g t [j] r = Some (r\<lparr>lr_slots := slots\<rparr>, slot_reports env g ?p t (?s ! j))"
    "length slots = length ?s"
    "\<forall>i < length slots. slots ! i = (if i = j then map_option (\<lambda>c. fst (station_tick ?p t c)) (?s ! i) else ?s ! i)"
    using sweep_eq [OF ok(2,3), of "[j]" env g t] assms(2) ok(1) by auto
  have "life_shape (slots ! i) = life_shape (?s ! i)" if i: "i < length ?s" for i
  proof (cases "?s ! i")
    case (Some c)
    then have "sample_ok (lc_sample c)" using ok(3) i by (metis nth_mem)
    then show ?thesis using s(2,3) i Some station_tick_spec(2,3) [OF ok(2)]
      by (cases "i = j") (auto simp: life_shape_def)
  qed (use s(2,3) i in \<open>auto simp: life_shape_def\<close>)
  then have shape: "map life_shape slots = map life_shape ?s" using s(2) by (intro nth_equalityI) auto
  have "holds_ctx (r\<lparr>lr_slots := slots\<rparr>) m i c" if "i \<noteq> j" "holds_ctx r m i c" for m i c
    using that s(2,3) holds_ctxD(1) [OF that(2)] shape by (simp add: holds_ctx_def slot_of_shape)
  moreover have "\<exists>c'. holds_ctx (r\<lparr>lr_slots := slots\<rparr>) m i c'" if "holds_ctx r m i c" for m i c
  proof -
    have slot: "slot_of slot_used slot_mac slots m = Some i" using that shape by (simp add: holds_ctx_def slot_of_shape)
    then obtain d where "slots ! i = Some d" using slot_of_SomeD(2) [OF slot] by (cases "slots ! i") auto
    then show ?thesis using slot
      by (intro exI [of _ d]) (simp add: holds_ctx_def exI [of _ "lc_sample d"])
  qed
  ultimately show ?thesis
    using s(1) shape_ok [OF assms(1) shape] abs_shape [OF shape] by auto
qed

lemma visit_reports:
  assumes ok: "roster_ok r" and j: "j < WEI_LIFE_MAX_STATIONS" and c: "holds_ctx r m i c"
  shows "reports_for m (slot_reports env g (lr_policy r) t (lr_slots r ! j)) =
    (if j = i then slot_reports env g (lr_policy r) t (Some (c\<lparr>lc_sample := the (life_abs (lr_slots r) m)\<rparr>)) else [])"
proof (cases "lr_slots r ! j")
  case None
  then show ?thesis using c by (auto simp: holds_ctx_def slot_reports_def reports_for_def)
next
  case (Some d)
  have slot: "slot_of slot_used slot_mac (lr_slots r) m = Some i" using c by (simp add: holds_ctx_def)
  have "j < length (lr_slots r)" using ok j by (simp add: roster_ok_def)
  then have d: "sample_ok (lc_sample d)" "policy_ok (lr_policy r)" "lc_mac d = m \<Longrightarrow> j = i"
    using ok Some slot slot_of_unique [of slot_used slot_mac "lr_slots r" j m] nth_mem [of j "lr_slots r"]
    by (auto simp: roster_ok_def)
  obtain rec where rec: "life_abs (lr_slots r) m = Some rec" "lr_slots r ! i = Some (c\<lparr>lc_sample := rec\<rparr>)"
    using holds_ctx_sample [OF c] by blast
  show ?thesis
    using slot_reports_for [OF d(2,1), of m env g t] d(3) Some rec holds_ctxD(2) [OF c] by auto
qed

section \<open>The whole sweep\<close>

text \<open>The operations that ran before slot \<open>i\<close> was visited.\<close>

definition events_upto :: "(nat \<Rightarrow> life_op list) \<Rightarrow> nat list \<Rightarrow> nat \<Rightarrow> life_op list" where
  "events_upto evs is i = concat (map evs (takeWhile (\<lambda>j. j \<noteq> i) is @ [i]))"

lemma racing_sweep_some:
  assumes "roster_ok r" "race_ok evs" "distinct is" "\<forall>j \<in> set is. j < WEI_LIFE_MAX_STATIONS"
  shows "\<exists>r' out. racing_sweep env g t evs is r = Some (r', out) \<and> roster_ok r' \<and>
    life_abs (lr_slots r') = abs_run (concat (map evs is)) (life_abs (lr_slots r)) \<and>
    (\<forall>m i c. holds_ctx r m i c \<and> list_all (\<lambda>op. \<not> detaches m op) (concat (map evs is)) \<longrightarrow>
       reports_for m out =
         (if i \<in> set is
          then slot_reports env g (lr_policy r) t
            (Some (c\<lparr>lc_sample := the (abs_run (events_upto evs is i) (life_abs (lr_slots r)) m)\<rparr>))
          else []))"
  using assms(1,3,4)
proof (induction "is" arbitrary: r)
  case Nil
  then show ?case by (simp add: reports_for_def)
next
  case (Cons j "is")
  have j: "j < WEI_LIFE_MAX_STATIONS" "distinct is" "j \<notin> set is" "\<forall>j \<in> set is. j < WEI_LIFE_MAX_STATIONS"
    using Cons.prems(2,3) by auto
  have evs: "list_all (\<lambda>op. op_ok op \<and> event_op op) (evs j)" using assms(2) by (simp add: race_ok_def)
  obtain r1 where r1: "life_run (evs j) r = Some r1" "roster_ok r1" "lr_policy r1 = lr_policy r"
      "life_abs (lr_slots r1) = abs_run (evs j) (life_abs (lr_slots r))"
    and h1: "\<And>m i c. holds_ctx r m i c \<Longrightarrow> list_all (\<lambda>op. \<not> detaches m op) (evs j) \<Longrightarrow> holds_ctx r1 m i c"
    using events_run [OF Cons.prems(1) evs] by blast
  let ?here = "slot_reports env g (lr_policy r) t (lr_slots r1 ! j)"
  obtain r2 where r2: "life_sweep env g t [j] r1 = Some (r2, ?here)" "roster_ok r2" "lr_policy r2 = lr_policy r"
      "life_abs (lr_slots r2) = abs_run (evs j) (life_abs (lr_slots r))"
    and h2: "\<And>m i c. i \<noteq> j \<Longrightarrow> holds_ctx r1 m i c \<Longrightarrow> holds_ctx r2 m i c"
      "\<And>m i c. holds_ctx r1 m i c \<Longrightarrow> \<exists>c'. holds_ctx r2 m i c'"
    using visit [OF r1(2) j(1), of env g t] r1(3,4) by metis
  obtain r' out where r': "racing_sweep env g t evs is r2 = Some (r', out)" "roster_ok r'"
      "life_abs (lr_slots r') = abs_run (concat (map evs is)) (life_abs (lr_slots r2))"
    and rep: "\<And>m i c. holds_ctx r2 m i c \<Longrightarrow> list_all (\<lambda>op. \<not> detaches m op) (concat (map evs is)) \<Longrightarrow>
       reports_for m out =
         (if i \<in> set is
          then slot_reports env g (lr_policy r2) t
            (Some (c\<lparr>lc_sample := the (abs_run (events_upto evs is i) (life_abs (lr_slots r2)) m)\<rparr>))
          else [])"
    using Cons.IH [OF r2(2) j(2,4)] by metis
  have "reports_for m (?here @ out) = (if i \<in> set (j # is)
      then slot_reports env g (lr_policy r) t
        (Some (c\<lparr>lc_sample := the (abs_run (events_upto evs (j # is) i) (life_abs (lr_slots r)) m)\<rparr>))
      else [])"
    if h: "holds_ctx r m i c" and stays: "list_all (\<lambda>op. \<not> detaches m op) (concat (map evs (j # is)))" for m i c
  proof -
    have c1: "holds_ctx r1 m i c" using h1 [OF h] stays by simp
    note here = visit_reports [OF r1(2) j(1) c1, of env g t, unfolded r1(3,4)]
    show ?thesis
    proof (cases "j = i")
      case True
      obtain c' where "holds_ctx r2 m i c'" using h2(2) [OF c1] by blast
      from rep [OF this] have "reports_for m out = []" using stays j(3) True by simp
      then show ?thesis using here True by (simp add: events_upto_def)
    next
      case False
      then have c2: "holds_ctx r2 m i c" using h2(1) c1 by simp
      show ?thesis
        using rep [OF c2] stays here False by (simp add: r2(3,4) events_upto_def)
    qed
  qed
  then show ?case using r1(1) r2(1) r' r2(4) by (simp del: life_sweep.simps)
qed

lemma takeWhile_upt: "i < n \<Longrightarrow> takeWhile (\<lambda>j. j \<noteq> i) [0..<n] @ [i] = [0..<Suc i]"
proof -
  assume i: "i < n"
  then have "[0..<n] = [0..<i] @ i # [Suc i..<n]" by (metis le_add_same_cancel1 less_imp_add_positive upt_add_eq_append upt_conv_Cons zero_le)
  then show ?thesis by (simp add: takeWhile_append)
qed

text \<open>
  C34. The interval tick is safe against concurrent station events. Whatever attaches, detaches,
  events and ingests get the mutex between the visits of a sweep, nothing is undefined, the
  roster stays consistent, and the stations and samples it ends with are those of the operations
  alone, in the order they ran; a station that is in the roster throughout is visited exactly
  once, and what is delivered for it is one tick of its own detectors on the sample it had when
  its slot was visited; and without such operations this is the sequential tick.
\<close>

theorem racing_tick:
  fixes ts :: c_timespec
  assumes "roster_ok r" "race_ok evs"
  defines "t \<equiv> wei_life_now_ms ts" and "all \<equiv> [0..<WEI_LIFE_MAX_STATIONS]"
  shows "(\<exists>r' out. racing_sweep env g t evs all r = Some (r', out) \<and> roster_ok r' \<and>
      life_abs (lr_slots r') = abs_run (concat (map evs all)) (life_abs (lr_slots r)) \<and>
      (\<forall>m i c. slot_of slot_used slot_mac (lr_slots r) m = Some i \<and> lr_slots r ! i = Some c \<and>
         list_all (\<lambda>op. \<not> detaches m op) (concat (map evs all)) \<longrightarrow>
           reports_for m out = slot_reports env g (lr_policy r) t
             (Some (c\<lparr>lc_sample := the (abs_run (concat (map evs [0..<Suc i])) (life_abs (lr_slots r)) m)\<rparr>)))) \<and>
    wei_life_eval_station env g ts (Some r) =
      map_option (\<lambda>(r, out). (Some r, out)) (racing_sweep env g t (\<lambda>i. []) all r)"
proof
  have all: "distinct all" "\<forall>j \<in> set all. j < WEI_LIFE_MAX_STATIONS" by (simp_all add: all_def)
  obtain r' out where R: "racing_sweep env g t evs all r = Some (r', out)" "roster_ok r'"
      "life_abs (lr_slots r') = abs_run (concat (map evs all)) (life_abs (lr_slots r))"
    and rep: "\<forall>m i c. holds_ctx r m i c \<and> list_all (\<lambda>op. \<not> detaches m op) (concat (map evs all)) \<longrightarrow>
       reports_for m out =
         (if i \<in> set all
          then slot_reports env g (lr_policy r) t
            (Some (c\<lparr>lc_sample := the (abs_run (events_upto evs all i) (life_abs (lr_slots r)) m)\<rparr>))
          else [])"
    using racing_sweep_some [OF assms(1,2) all, of env g t] by blast
  have "reports_for m out = slot_reports env g (lr_policy r) t
      (Some (c\<lparr>lc_sample := the (abs_run (concat (map evs [0..<Suc i])) (life_abs (lr_slots r)) m)\<rparr>))"
    if m: "slot_of slot_used slot_mac (lr_slots r) m = Some i" "lr_slots r ! i = Some c"
      "list_all (\<lambda>op. \<not> detaches m op) (concat (map evs all))" for m i c
  proof -
    have "holds_ctx r m i c" using m(1,2) by (simp add: holds_ctx_def exI [of _ "lc_sample c"])
    moreover have "i < WEI_LIFE_MAX_STATIONS" using slot_of_SomeD(1) [OF m(1)] assms(1) by (simp add: roster_ok_def)
    ultimately show ?thesis
      using rep m(3) takeWhile_upt [of i WEI_LIFE_MAX_STATIONS]
      by (simp add: events_upto_def all_def del: upt_Suc)
  qed
  then show "\<exists>r' out. racing_sweep env g t evs all r = Some (r', out) \<and> roster_ok r' \<and>
      life_abs (lr_slots r') = abs_run (concat (map evs all)) (life_abs (lr_slots r)) \<and>
      (\<forall>m i c. slot_of slot_used slot_mac (lr_slots r) m = Some i \<and> lr_slots r ! i = Some c \<and>
         list_all (\<lambda>op. \<not> detaches m op) (concat (map evs all)) \<longrightarrow>
           reports_for m out = slot_reports env g (lr_policy r) t
             (Some (c\<lparr>lc_sample := the (abs_run (concat (map evs [0..<Suc i])) (life_abs (lr_slots r)) m)\<rparr>)))"
    using R by blast
  show "wei_life_eval_station env g ts (Some r) =
      map_option (\<lambda>(r, out). (Some r, out)) (racing_sweep env g t (\<lambda>i. []) all r)"
    by (simp add: wei_life_eval_station_def racing_sweep_quiet t_def all_def)
qed

text \<open>A roster of one station; its record is ingested after the sweep has begun, before its visit.\<close>

theorem racing_tick_witness:
  "\<exists>r r' out. lr_slots r ! 0 = Some (life_fresh zero_mac) \<and>
     racing_sweep exact_env sample_sinks 1000 (\<lambda>i. if i = 0 then [LOP_ingest zero_mac sample_rec] else [])
       [0..<WEI_LIFE_MAX_STATIONS] r = Some (r', out) \<and>
     reports_for zero_mac out = slot_reports exact_env sample_sinks (lr_policy r) 1000
       (Some ((life_fresh zero_mac)\<lparr>lc_sample := sample_rec\<rparr>))"
proof -
  obtain r0 where r0: "roster_ok r0" "lr_slots r0 = replicate 64 None" using fresh_roster_ok by blast
  let ?r = "fst (wei_life_attach_station True r0 zero_mac)"
  have none: "slot_of slot_used slot_mac (lr_slots r0) zero_mac = None"
    by (simp add: r0(2) slot_of_def find_index_None_iff)
  have slots: "replicate 64 None = None # replicate 63 (None :: wei_life_ctx option)" by (simp add: numeral_eq_Suc)
  have r: "roster_ok ?r" using attach_step [OF r0(1)] by blast
  have s0: "lr_slots ?r = Some (life_fresh zero_mac) # replicate 63 None"
    using none slots
    by (simp add: wei_life_attach_station_def wei_life_slot_of_def life_walk_eq r0(2))
  have slot: "slot_of slot_used slot_mac (lr_slots ?r) zero_mac = Some 0"
    by (simp add: s0 slot_of_def life_fresh_def)
  let ?evs = "\<lambda>i::nat. if i = 0 then [LOP_ingest zero_mac sample_rec] else []"
  have race: "race_ok ?evs" by (simp add: race_ok_def sample_ok_def sample_rec_def zero_metric_record_def)
  have stay: "list_all (\<lambda>op. \<not> detaches zero_mac op) (concat (map ?evs is))" for "is" by (induction "is") auto
  have known: "zero_mac \<in> dom (life_abs (lr_slots ?r))" using slot by (simp add: mem_dom_abs)
  let ?ts = "\<lparr>tv_sec = 1, tv_nsec = 0\<rparr> :: c_timespec"
  obtain r' out where "racing_sweep exact_env sample_sinks (wei_life_now_ms ?ts) ?evs [0..<WEI_LIFE_MAX_STATIONS] ?r = Some (r', out)"
    "reports_for zero_mac out = slot_reports exact_env sample_sinks (lr_policy ?r) (wei_life_now_ms ?ts)
       (Some ((life_fresh zero_mac)\<lparr>lc_sample := the (abs_run (concat (map ?evs [0..<Suc 0])) (life_abs (lr_slots ?r)) zero_mac)\<rparr>))"
    using racing_tick [OF r race, of exact_env sample_sinks ?ts] slot s0 stay by (metis nth_Cons_0)
  then show ?thesis using known s0
    by (intro exI [of _ ?r] exI [of _ r'] exI [of _ out]) (simp add: wei_life_now_ms_def)
qed

end
