(* ===== verification/Log_Lock.thy ===== *)
theory Log_Lock
  imports Util
begin

text \<open>
  The logger under its mutex (source/wei_util.c). Log calls come from the poll thread, the bus
  thread and the main thread; \<open>wei_util_file_write\<close> opens or rotates the stream, writes and
  counts under one lock. Here each of these is a step of its own, taken by any number of threads
  in any order the lock allows, and the file is shown to be what one thread calling
  \<open>wei_util_file_write\<close> line after line, in the order the lock was taken, would have left. That
  a thread can be cancelled inside the locked section is the subject of the daemon's model
  (Daemon), not of this one.
\<close>

section \<open>The steps of one write\<close>

definition log_open :: "util_env \<Rightarrow> log_state \<Rightarrow> log_state" where
  "log_open env s =
     (if \<not> wei_log_fp s
      then \<lparr>wei_log_fp = fopen_ok env, wei_log_bytes = 0, log_file = (if fopen_ok env then [] else log_file s)\<rparr>
      else if wei_log_bytes s \<ge> WEI_LOG_FILE_MAX_BYTES
      then \<lparr>wei_log_fp = freopen_ok env, wei_log_bytes = 0, log_file = (if freopen_ok env then [] else log_file s)\<rparr>
      else s)"

text \<open>\<open>fwrite\<close> and \<open>fflush\<close>, then the addition of what \<open>fwrite\<close> returned.\<close>

definition log_put :: "util_env \<Rightarrow> string \<Rightarrow> log_state \<Rightarrow> log_state" where
  "log_put env line s =
     (if wei_log_fp s \<and> length line > 0 then s\<lparr>log_file := log_file s @ take (fwrite_count env) line\<rparr> else s)"

definition log_count :: "util_env \<Rightarrow> string \<Rightarrow> log_state \<Rightarrow> log_state" where
  "log_count env line s =
     (if wei_log_fp s \<and> length line > 0 then s\<lparr>wei_log_bytes := wei_log_bytes s + int (fwrite_count env)\<rparr> else s)"

lemma put_then_count:
  "log_count env line (log_put env line s) =
     (if wei_log_fp s \<and> length line > 0
      then s\<lparr>wei_log_bytes := wei_log_bytes s + int (fwrite_count env), log_file := log_file s @ take (fwrite_count env) line\<rparr>
      else s)"
proof (cases "wei_log_fp s \<and> length line > 0")
  case True
  then have put: "log_put env line s = s\<lparr>log_file := log_file s @ take (fwrite_count env) line\<rparr>"
    unfolding log_put_def by (rule if_P)
  have "wei_log_fp (s\<lparr>log_file := x\<rparr>) \<and> length line > 0" for x using True by simp
  then show ?thesis unfolding put log_count_def using True by simp
next
  case False
  then have put: "log_put env line s = s" unfolding log_put_def by (rule if_not_P)
  show ?thesis unfolding put log_count_def if_not_P [OF False] ..
qed

lemma file_write_steps: "wei_util_file_write env line s = log_count env line (log_put env line (log_open env s))"
  unfolding put_then_count wei_util_file_write_def log_open_def by (simp only: Let_def)

section \<open>Threads\<close>

datatype log_pc =
    LP_IDLE
  | LP_OPEN util_env string
  | LP_PUT util_env string
  | LP_COUNT util_env string
  | LP_UNLOCK util_env string

record 't log_sys =
  lk_state :: log_state
  lk_lock :: "'t option"
  lk_pc :: "'t \<Rightarrow> log_pc"
  lk_todo :: "'t \<Rightarrow> (util_env \<times> string) list"
  lk_taken :: "('t \<times> util_env \<times> string) list"  \<comment> \<open>the calls in the order they took the lock\<close>

inductive log_step :: "'t log_sys \<Rightarrow> 't log_sys \<Rightarrow> bool" where
  lk_acquire: "\<lbrakk>lk_pc d t = LP_IDLE; lk_todo d t = (env, line) # rest; lk_lock d = None\<rbrakk> \<Longrightarrow>
    log_step d (d\<lparr>lk_lock := Some t, lk_pc := (lk_pc d)(t := LP_OPEN env line), lk_todo := (lk_todo d)(t := rest),
      lk_taken := lk_taken d @ [(t, env, line)]\<rparr>)"
| lk_open: "lk_pc d t = LP_OPEN env line \<Longrightarrow>
    log_step d (d\<lparr>lk_state := log_open env (lk_state d), lk_pc := (lk_pc d)(t := LP_PUT env line)\<rparr>)"
| lk_put: "lk_pc d t = LP_PUT env line \<Longrightarrow>
    log_step d (d\<lparr>lk_state := log_put env line (lk_state d), lk_pc := (lk_pc d)(t := LP_COUNT env line)\<rparr>)"
| lk_count: "lk_pc d t = LP_COUNT env line \<Longrightarrow>
    log_step d (d\<lparr>lk_state := log_count env line (lk_state d), lk_pc := (lk_pc d)(t := LP_UNLOCK env line)\<rparr>)"
| lk_release: "lk_pc d t = LP_UNLOCK env line \<Longrightarrow>
    log_step d (d\<lparr>lk_lock := None, lk_pc := (lk_pc d)(t := LP_IDLE)\<rparr>)"

definition log_sys_start :: "log_state \<Rightarrow> ('t \<Rightarrow> (util_env \<times> string) list) \<Rightarrow> 't log_sys" where
  "log_sys_start s todo = \<lparr>lk_state = s, lk_lock = None, lk_pc = (\<lambda>t. LP_IDLE), lk_todo = todo, lk_taken = []\<rparr>"

inductive log_reach :: "log_state \<Rightarrow> ('t \<Rightarrow> (util_env \<times> string) list) \<Rightarrow> 't log_sys \<Rightarrow> bool" for s todo where
  log_reach_init: "log_reach s todo (log_sys_start s todo)"
| log_reach_step: "log_reach s todo d \<Longrightarrow> log_step d d' \<Longrightarrow> log_reach s todo d'"

section \<open>The file is the sequential one\<close>

definition write_all :: "('t \<times> util_env \<times> string) list \<Rightarrow> log_state \<Rightarrow> log_state" where
  "write_all cs s = foldl (\<lambda>s (t, env, line). wei_util_file_write env line s) s cs"

lemma write_all_simps [simp]:
  "write_all [] s = s"
  "write_all (cs @ [(t, env, line)]) s = wei_util_file_write env line (write_all cs s)"
  by (simp_all add: write_all_def)

text \<open>How far the holder has come, from the state the lock was taken in.\<close>

fun partial_write :: "log_pc \<Rightarrow> log_state \<Rightarrow> log_state" where
  "partial_write (LP_PUT env line) s = log_open env s"
| "partial_write (LP_COUNT env line) s = log_put env line (log_open env s)"
| "partial_write (LP_UNLOCK env line) s = wei_util_file_write env line s"
| "partial_write _ s = s"

fun pc_call :: "log_pc \<Rightarrow> (util_env \<times> string) option" where
  "pc_call LP_IDLE = None"
| "pc_call (LP_OPEN env line) = Some (env, line)"
| "pc_call (LP_PUT env line) = Some (env, line)"
| "pc_call (LP_COUNT env line) = Some (env, line)"
| "pc_call (LP_UNLOCK env line) = Some (env, line)"

definition calls_of :: "'t \<Rightarrow> ('t \<times> util_env \<times> string) list \<Rightarrow> (util_env \<times> string) list" where
  "calls_of t cs = map snd (filter (\<lambda>c. fst c = t) cs)"

lemma calls_of_snoc [simp]: "calls_of t (cs @ [(u, c)]) = (if u = t then calls_of t cs @ [c] else calls_of t cs)"
  by (simp add: calls_of_def)

definition log_inv :: "log_state \<Rightarrow> ('t \<Rightarrow> (util_env \<times> string) list) \<Rightarrow> 't log_sys \<Rightarrow> bool" where
  "log_inv s todo d \<longleftrightarrow>
     (\<forall>t. lk_pc d t \<noteq> LP_IDLE \<longleftrightarrow> lk_lock d = Some t) \<and>
     (\<forall>t. calls_of t (lk_taken d) @ lk_todo d t = todo t) \<and>
     (case lk_lock d of
        None \<Rightarrow> lk_state d = write_all (lk_taken d) s
      | Some t \<Rightarrow> \<exists>cs env line. lk_taken d = cs @ [(t, env, line)] \<and> pc_call (lk_pc d t) = Some (env, line) \<and>
          lk_state d = partial_write (lk_pc d t) (write_all cs s))"

lemma log_step_inv [wei_inv]:
  assumes "log_step d d'" "log_inv s todo d"
  shows "log_inv s todo d'"
  using assms
proof (induction rule: log_step.induct)
  case (lk_acquire d t env line rest)
  then have todo: "calls_of u (lk_taken d) @ lk_todo d u = todo u" for u by (simp add: log_inv_def)
  show ?case using lk_acquire todo [of t] todo by (auto simp: log_inv_def)
next
  case (lk_open d t env line)
  then have "lk_lock d = Some t" unfolding log_inv_def by (metis log_pc.distinct(1))
  then show ?case using lk_open by (auto simp: log_inv_def)
next
  case (lk_put d t env line)
  then have "lk_lock d = Some t" unfolding log_inv_def by (metis log_pc.distinct(3))
  then show ?case using lk_put by (auto simp: log_inv_def)
next
  case (lk_count d t env line)
  then have "lk_lock d = Some t" unfolding log_inv_def by (metis log_pc.distinct(5))
  then show ?case using lk_count by (auto simp: log_inv_def file_write_steps)
next
  case (lk_release d t env line)
  then have "lk_lock d = Some t" unfolding log_inv_def by (metis log_pc.distinct(7))
  then show ?case using lk_release by (auto simp: log_inv_def)
qed

lemma log_reach_inv: "log_reach s todo d \<Longrightarrow> log_inv s todo d"
proof (induction rule: log_reach.induct)
  case log_reach_init
  then show ?case by (simp add: log_inv_def log_sys_start_def calls_of_def)
qed (rule log_step_inv)

lemma log_can_step:
  assumes "log_inv s todo d" "lk_lock d \<noteq> None \<or> (\<exists>t. lk_todo d t \<noteq> [])"
  shows "\<exists>d'. log_step d d'"
proof (cases "lk_lock d")
  case None
  then obtain t env line rest where "lk_pc d t = LP_IDLE" "lk_todo d t = (env, line) # rest"
    using assms by (metis log_inv_def neq_Nil_conv option.distinct(1) surj_pair)
  from log_step.lk_acquire [OF this None] show ?thesis by blast
next
  case (Some t)
  then have "lk_pc d t \<noteq> LP_IDLE" using assms(1) by (simp add: log_inv_def)
  then show ?thesis
    by (cases "lk_pc d t") (auto dest: log_step.lk_open log_step.lk_put log_step.lk_count log_step.lk_release)
qed

text \<open>
  C23. The log lock makes every write atomic. For any number of threads and any interleaving of
  the steps of their calls, at most one thread is between lock and unlock; whenever the lock is
  free the file, the stream and the byte counter are exactly what the calls that have taken the
  lock leave when they are made one after the other, so no line is torn, lost or counted twice
  and rotation never runs under a writer; each thread's lines are in its own order, none is
  dropped or repeated; and as long as a call is pending or under way some thread can move.
\<close>

theorem log_writes_atomic:
  assumes "log_reach s todo d"
  shows "(lk_pc d t \<noteq> LP_IDLE \<and> lk_pc d u \<noteq> LP_IDLE \<longrightarrow> t = u) \<and>
    (lk_lock d = None \<longrightarrow> lk_state d = write_all (lk_taken d) s) \<and>
    calls_of t (lk_taken d) @ lk_todo d t = todo t \<and>
    (lk_lock d = None \<and> (\<forall>t. lk_todo d t = []) \<or> (\<exists>d'. log_step d d'))"
proof -
  note inv = log_reach_inv [OF assms]
  have excl: "lk_pc d v \<noteq> LP_IDLE \<longleftrightarrow> lk_lock d = Some v" for v using inv by (simp add: log_inv_def)
  show ?thesis
  proof (intro conjI impI)
    show "t = u" if "lk_pc d t \<noteq> LP_IDLE \<and> lk_pc d u \<noteq> LP_IDLE" using that excl [of t] excl [of u] by auto
    show "lk_state d = write_all (lk_taken d) s" if "lk_lock d = None" using inv that by (simp add: log_inv_def)
    show "calls_of t (lk_taken d) @ lk_todo d t = todo t" using inv by (simp add: log_inv_def)
    show "lk_lock d = None \<and> (\<forall>t. lk_todo d t = []) \<or> (\<exists>d'. log_step d d')" using log_can_step [OF inv] by blast
  qed
qed

text \<open>Two threads with a line each, the first of which has just taken the lock.\<close>

definition sample_call :: "bool \<Rightarrow> util_env \<times> string" where
  "sample_call t = (\<lparr>ue_stamp = None, ue_nsec = 0, ue_message = None, fopen_ok = True, freopen_ok = True, fwrite_count = 3\<rparr>,
     if t then ''one'' else ''two'')"

theorem log_writes_atomic_witness:
  "\<exists>d. log_reach log_start (\<lambda>t. [sample_call t]) d \<and> lk_lock d = Some True \<and>
     calls_of True (lk_taken d) = [sample_call True] \<and> lk_pc d False = LP_IDLE \<and> (\<exists>d'. log_step d d')"
proof -
  let ?todo = "\<lambda>t. [sample_call t]" and ?c = "sample_call True"
  let ?start = "log_sys_start log_start ?todo"
  let ?d = "?start\<lparr>lk_lock := Some True, lk_pc := (lk_pc ?start)(True := LP_OPEN (fst ?c) (snd ?c)),
      lk_todo := (lk_todo ?start)(True := []), lk_taken := lk_taken ?start @ [(True, fst ?c, snd ?c)]\<rparr>"
  have "log_step ?start ?d"
    by (rule log_step.lk_acquire) (simp_all add: log_sys_start_def)
  then have d: "log_reach log_start ?todo ?d" by (rule log_reach_step [OF log_reach_init])
  have lock: "lk_lock ?d = Some True" "lk_todo ?d True = []" "lk_pc ?d True \<noteq> LP_IDLE" by simp_all
  note atomic = log_writes_atomic [OF d]
  have "calls_of True (lk_taken ?d) @ lk_todo ?d True = ?todo True" using atomic [of True True] by blast
  then have "calls_of True (lk_taken ?d) = [?c]" unfolding lock(2) by (simp only: append_Nil2)
  moreover have "lk_pc ?d False = LP_IDLE" using atomic [of True False] lock(3) by blast
  moreover have "\<exists>d'. log_step ?d d'" using atomic [of True True] lock(1) by (metis option.distinct(1))
  ultimately show ?thesis using d lock(1) by blast
qed

end
