(* ===== verification/Sockdump.thy ===== *)
theory Sockdump
  imports Wire
begin

text \<open>
  The diagnostic receiver (tools/wei_sockdump.c): it takes over the daemon's socket path and
  prints every datagram. The receive buffer is one array of 65536 bytes that keeps what earlier
  datagrams left, so the model threads it through the loop; a read outside it is \<open>None\<close>. The
  time stamp of a line is not modelled, and the text of a line is a value of \<open>dump_line\<close>.
\<close>

definition SOCKDUMP_BUF :: nat where "SOCKDUMP_BUF = 65536"
definition TLV_HDR_LEN :: nat where "TLV_HDR_LEN = 6"
definition HEX_PREVIEW :: nat where "HEX_PREVIEW = 32"

definition msg_type_str :: "nat \<Rightarrow> string" where
  "msg_type_str t =
     (if t = 1 then ''PERIODIC_STATS'' else if t = 2 then ''DISCONNECT''
      else if t = 3 then ''RAPID_DISCONNECT'' else if t = 7 then ''REGISTER_STA''
      else if t = 8 then ''UNREGISTER_STA'' else ''OTHER'')"

text \<open>The bytes shown and whether the ellipsis follows.\<close>

definition hex_preview :: "u8 list \<Rightarrow> nat \<Rightarrow> nat \<Rightarrow> (u8 list \<times> bool) option" where
  "hex_preview buf off n =
     (let n = (if n > HEX_PREVIEW then HEX_PREVIEW else n)
      in map_option (\<lambda>bs. (bs, n = HEX_PREVIEW)) (read_bytes buf off n))"

text \<open>The loop that makes the MAC field printable, up to its first NUL.\<close>

fun mac_scrub :: "u8 list \<Rightarrow> string" where
  "mac_scrub [] = []"
| "mac_scrub (b # bs) =
     (if b = 0 then []
      else (if b < 0x20 \<or> b > 0x7e then CHR ''.'' else char_of (unat b)) # mac_scrub bs)"

datatype dump_line =
    DUMP_RUNT nat
  | DUMP_FRAME nat nat nat nat nat nat bool
      \<comment> \<open>bytes received, type, version, elem_size, len, count, declared length differs\<close>
  | DUMP_ENTRY nat string "u8 list" bool

text \<open>One entry: the first 18 bytes as text, then the preview.\<close>

definition dump_entry :: "u8 list \<Rightarrow> nat \<Rightarrow> nat \<Rightarrow> dump_line option" where
  "dump_entry buf elem_size i =
     (let off = TLV_HDR_LEN + i * elem_size
      in case read_bytes buf off 18 of
           None \<Rightarrow> None
         | Some mac \<Rightarrow> map_option (\<lambda>(bs, more). DUMP_ENTRY i (mac_scrub mac) bs more) (hex_preview buf off elem_size))"

fun dump_entries :: "u8 list \<Rightarrow> nat \<Rightarrow> nat list \<Rightarrow> dump_line list option" where
  "dump_entries buf elem_size [] = Some []"
| "dump_entries buf elem_size (i # is) =
     (case dump_entry buf elem_size i of
        None \<Rightarrow> None
      | Some l \<Rightarrow> map_option (\<lambda>ls. l # ls) (dump_entries buf elem_size is))"

text \<open>The body of the loop for a datagram of \<open>r\<close> bytes in \<open>buf\<close>.\<close>

definition dump_datagram :: "u8 list \<Rightarrow> nat \<Rightarrow> dump_line list option" where
  "dump_datagram buf r =
     (if r < TLV_HDR_LEN then Some [DUMP_RUNT r]
      else
        let type = unat (buf ! 0); ver = unat (buf ! 1);
            elem_size = unat (buf ! 2) + 256 * unat (buf ! 3);
            len = unat (buf ! 4) + 256 * unat (buf ! 5);
            payload = r - TLV_HDR_LEN;
            count = (if elem_size > 0 then len div elem_size else 0)
        in map_option (\<lambda>ls. DUMP_FRAME r type ver elem_size len count (len \<noteq> payload) # ls)
             (dump_entries buf elem_size [0..<count]))"

text \<open>\<open>recv\<close> into the buffer: the datagram cut to the buffer, the rest of the array as it was.\<close>

definition recv_into :: "u8 list \<Rightarrow> u8 list \<Rightarrow> u8 list \<times> nat" where
  "recv_into buf d = (let d = take SOCKDUMP_BUF d in (d @ drop (length d) buf, length d))"

text \<open>
  The loop: each element says whether the stop flag is set when the loop tests it, and what
  \<open>recv\<close> then returns. The result is what was printed.
\<close>

fun dump_loop :: "(bool \<times> unit recv_result) list \<Rightarrow> u8 list \<Rightarrow> dump_line list option" where
  "dump_loop [] buf = Some []"
| "dump_loop ((stop, r) # rs) buf =
     (if stop then Some []
      else case r of
             RECV_EINTR \<Rightarrow> dump_loop rs buf
           | RECV_FAIL \<Rightarrow> Some []
           | RECV d e \<Rightarrow>
               let (buf, n) = recv_into buf d
               in case dump_datagram buf n of
                    None \<Rightarrow> None
                  | Some ls \<Rightarrow> map_option (\<lambda>out. ls @ out) (dump_loop rs buf))"

definition sockdump_main ::
    "sock_env \<Rightarrow> string option \<Rightarrow> (bool \<times> unit recv_result) list \<Rightarrow> u8 list
      \<Rightarrow> (int \<times> sys_call list \<times> dump_line list) option" where
  "sockdump_main env arg rs buf =
     (let path = (case arg of Some p \<Rightarrow> p | None \<Rightarrow> LQ_STATS_SOCKET_PATH);
          g_path = take (SUN_PATH_SIZE - 1) path;
          fd = se_socket env; tr = [SYS_socket fd]
      in if fd < 0 then Some (1, tr, [])
         else
           let tr = tr @ [SYS_setsockopt fd, SYS_unlink g_path, SYS_bind fd g_path (se_bind_ok env)]
           in if \<not> se_bind_ok env then Some (1, tr @ [SYS_close fd], [])
              else map_option (\<lambda>out. (0, tr @ [SYS_close fd, SYS_unlink g_path], out)) (dump_loop rs buf))"

section \<open>Properties\<close>

lemma recv_into_length: "length buf = SOCKDUMP_BUF \<Longrightarrow> length (fst (recv_into buf d)) = SOCKDUMP_BUF"
  by (simp add: recv_into_def Let_def)

lemma dump_entries_some:
  "\<forall>i \<in> set is. dump_entry buf n i = Some (f i) \<Longrightarrow> dump_entries buf n is = Some (map f is)"
  by (induction "is") auto

lemma dump_entries_none: "i \<in> set is \<Longrightarrow> dump_entry buf n i = None \<Longrightarrow> dump_entries buf n is = None"
  by (induction "is") (auto split: option.splits)

lemma read_bytes_append: "off + n \<le> length d \<Longrightarrow> read_bytes (d @ rest) off n = read_bytes d off n"
  by (simp add: read_bytes_def)

text \<open>An entry that lies inside the received frame is read and printed as it was sent.\<close>

lemma dump_entry_frame:
  assumes "18 \<le> sizeof_stats_arg lay" "\<forall>e \<in> set es. length e = sizeof_stats_arg lay" "i < length es"
  shows "dump_entry (stats_frame lay es @ rest) (sizeof_stats_arg lay) i =
    Some (DUMP_ENTRY i (mac_scrub (take 18 (es ! i))) (take 32 (es ! i)) (32 \<le> sizeof_stats_arg lay))"
proof -
  let ?n = "sizeof_stats_arg lay" and ?f = "stats_frame lay es"
  have flen: "length ?f = 6 + length (concat es)" by (simp add: stats_frame_def)
  have read: "drop (6 + i * ?n) ?f = drop (i * ?n) (concat es)"
    using stats_frame_split [of lay es] by auto
  have room: "i * ?n + ?n \<le> length (concat es)"
    using assms(3) concat_length [OF assms(2)] mult_le_mono1 [of "Suc i" "length es" ?n] by simp
  have ei: "take ?n (drop (i * ?n) (concat es)) = es ! i" using concat_nth [OF assms(2,3)] .
  have part: "read_bytes (?f @ rest) (6 + i * ?n) k = Some (take k (es ! i))" if "k \<le> ?n" for k
  proof -
    have "read_bytes (?f @ rest) (6 + i * ?n) k = read_bytes ?f (6 + i * ?n) k"
      using room that flen by (intro read_bytes_append) simp
    also have "\<dots> = Some (take k (drop (i * ?n) (concat es)))"
      using room that flen read by (simp add: read_bytes_def)
    also have "take k (drop (i * ?n) (concat es)) = take k (es ! i)"
      using that by (simp add: ei [symmetric] min_absorb1)
    finally show ?thesis .
  qed
  have "length (es ! i) = ?n" using assms(2,3) by simp
  then show ?thesis
    using part [of 18] part [of 32] part [of ?n] assms(1)
    by (auto simp: dump_entry_def hex_preview_def TLV_HDR_LEN_def HEX_PREVIEW_def Let_def)
qed

text \<open>
  C36. On the sender's own frames the tool prints what was sent: one line with the type, version,
  sizes and count of the frame and no mismatch mark, then each entry's leading text and its
  first 32 bytes, in order, whatever earlier datagrams left in the buffer. The entries are at
  least the 18 bytes the text takes, and the host is little-endian as the tool assumes.
\<close>

theorem sockdump_shows_frame:
  assumes "little_endian lay" "18 \<le> sizeof_stats_arg lay" "frame_entries_ok lay es" "length buf = SOCKDUMP_BUF"
    and "length (stats_frame lay es) \<le> SOCKDUMP_BUF"
  shows "dump_loop [(False, RECV (stats_frame lay es) e)] buf =
    Some (DUMP_FRAME (length (stats_frame lay es)) 1 1 (sizeof_stats_arg lay) (length (concat es)) (length es) False #
          map (\<lambda>i. DUMP_ENTRY i (mac_scrub (take 18 (es ! i))) (take 32 (es ! i)) (32 \<le> sizeof_stats_arg lay)) [0..<length es])"
proof -
  let ?n = "sizeof_stats_arg lay" and ?f = "stats_frame lay es"
  define B where "B = ?f @ drop (length ?f) buf"
  have r: "recv_into buf ?f = (B, length ?f)" using assms(5) by (simp add: recv_into_def Let_def B_def)
  have each: "\<forall>e \<in> set es. length e = ?n" and sizes: "?n < 2 ^ 16" "length (concat es) < 2 ^ 16"
    using assms(3) by (simp_all add: frame_entries_ok_def)
  have clen: "length (concat es) = length es * ?n" using each by (rule concat_length)
  have flen: "length ?f = 6 + length (concat es)" by (simp add: stats_frame_def)
  have bytes: "host_bytes lay w = [word_of_nat (unat w mod 256), word_of_nat (unat w div 256)]" for w
    using assms(1) by (simp add: host_bytes_def Let_def)
  have lo_hi: "unat (word_of_nat (k mod 256) :: u8) + 256 * unat (word_of_nat (k div 256) :: u8) = k" if "k < 2 ^ 16" for k
  proof -
    have "k div 256 < 256" using that by (simp add: less_mult_imp_div_less)
    then show ?thesis by (simp add: unat_of_nat)
  qed
  have un: "unat (word_of_nat ?n :: u16) = ?n" "unat (word_of_nat (length (concat es)) :: u16) = length (concat es)"
    using sizes by (simp_all add: unat_of_nat del: length_concat)
  have hdr: "B ! 0 = 1" "B ! 1 = 1"
    "unat (B ! 2) + 256 * unat (B ! 3) = ?n" "unat (B ! 4) + 256 * unat (B ! 5) = length (concat es)"
    using lo_hi [OF sizes(1)] lo_hi [OF sizes(2)]
    by (simp_all add: B_def stats_frame_def bytes LQ_IPC_WIRE_VERSION_def un del: length_concat)
  have count: "length (concat es) div ?n = length es" using assms(2) by (simp add: clen del: length_concat)
  have E: "dump_entries B ?n [0..<length es] = Some
      (map (\<lambda>i. DUMP_ENTRY i (mac_scrub (take 18 (es ! i))) (take 32 (es ! i)) (32 \<le> ?n)) [0..<length es])"
    using dump_entry_frame [OF assms(2) each] unfolding B_def by (intro dump_entries_some) simp
  have "dump_datagram B (length ?f) =
      Some (DUMP_FRAME (length ?f) 1 1 ?n (length (concat es)) (length es) False #
        map (\<lambda>i. DUMP_ENTRY i (mac_scrub (take 18 (es ! i))) (take 32 (es ! i)) (32 \<le> ?n)) [0..<length es])"
    using assms(2) E
    by (simp add: dump_datagram_def hdr(1,3,4) hdr(2) [unfolded One_nat_def] count flen TLV_HDR_LEN_def Let_def del: length_concat)
  then show ?thesis by (simp add: r del: length_concat)
qed

text \<open>
  C37. The tool trusts the two size fields of the header against nothing: six received bytes, an
  element size of 1 and a declared length of 65535, make it read past the end of its 65536-byte
  buffer, whatever the buffer held.
\<close>

theorem sockdump_overreads:
  assumes "length buf = SOCKDUMP_BUF"
  shows "dump_loop [(False, RECV [t, v, 1, 0, 255, 255] e)] buf = None"
proof -
  let ?buf = "[t, v, 1, 0, 255, 255] @ drop 6 buf"
  have len: "length ?buf = 65536" using assms by (simp add: SOCKDUMP_BUF_def)
  have "dump_entry ?buf 1 65530 = None"
    using len by (simp add: dump_entry_def read_bytes_def TLV_HDR_LEN_def)
  then have "dump_entries ?buf 1 [0..<65535] = None" by (intro dump_entries_none [of 65530]) auto
  then have "dump_datagram ?buf 6 = None"
    by (simp add: dump_datagram_def TLV_HDR_LEN_def Let_def)
  moreover have "recv_into buf [t, v, 1, 0, 255, 255] = (?buf, 6)"
  proof -
    have "take SOCKDUMP_BUF [t, v, 1, 0, 255, 255] = [t, v, 1, 0, 255, 255]" by (simp add: SOCKDUMP_BUF_def)
    then show ?thesis by (simp add: recv_into_def Let_def numeral_eq_Suc)
  qed
  ultimately show ?thesis by simp
qed

theorem sockdump_overreads_witness:
  "dump_loop [(False, RECV [1, 1, 1, 0, 255, 255] ())] (replicate 65536 0) = None"
  by (rule sockdump_overreads) (simp add: SOCKDUMP_BUF_def)

text \<open>Entries of 20 bytes on a little-endian host.\<close>

definition dump_layout :: wire_layout where
  "dump_layout = sample_layout\<lparr>sizeof_stats_arg := 20\<rparr>"

theorem sockdump_shows_frame_witness:
  "dump_loop [(False, RECV (stats_frame dump_layout [replicate 20 65]) ())] (replicate 65536 7) =
     Some [DUMP_FRAME 26 1 1 20 20 1 False, DUMP_ENTRY 0 (replicate 18 (CHR ''A'')) (replicate 20 65) False]"
proof -
  have f: "frame_entries_ok dump_layout [replicate 20 65]" "little_endian dump_layout" "18 \<le> sizeof_stats_arg dump_layout"
    "length (replicate 65536 (7 :: u8)) = SOCKDUMP_BUF"
    by (simp_all add: frame_entries_ok_def dump_layout_def sample_layout_def SOCKDUMP_BUF_def)
  have l: "length (stats_frame dump_layout [replicate 20 65]) = 26" by (simp add: stats_frame_def)
  have s: "mac_scrub (replicate 18 65) = replicate 18 (CHR ''A'')" by code_simp
  show ?thesis
    using sockdump_shows_frame [OF f(2,3,1,4), of "()"] l s
    by (simp add: SOCKDUMP_BUF_def) (simp add: dump_layout_def min_def)
qed

end
