(* ===== verification/Spec2Isabelle.thy ===== *)
theory Spec2Isabelle
  imports Prelude Platform_Cap Util Infer Infer_Ledger Report_Publish Pipeline Run Rejoin Process Life_Clock Life_Race Log_Lock Sockdump
begin

text \<open>
  Verification development of wei, the daemon that scores the connected performance of Wi-Fi
  stations. A sender outside the repository writes datagrams of per-station statistics to a Unix
  socket; wei receives them, keeps one slot per station, scores every station once per tick, turns
  scores into verdicts, and publishes a JSON report on the bus when a station's verdict changes.

  The parts and how they interact:

    main (weid_daemon.c) loads the enable flag (weid_rfc.c), opens the bus (weid_bus.c), which
    registers the data model (wei_connperf_dml.c), and wires the pipeline (weid_wire.c): an
    inference engine (wei_infer.c) and a poll loop (wei_poll.c) bound to two callbacks. The body
    thread runs the loop. A datagram is checked and its entries are staged in the engine; a tick
    scores every live slot with the scoring kernel (wei_conn_scorer.c), times excursions with the
    tracker (wei_track.c), decides the verdict, updates the episode ledger, and hands the result to
    the publisher (wei_perfreport.c). The lifecycle unit (wei_life.c), the record publisher
    (wei_report_publish.c) and the platform table (wei_platform_cap.c) are linked but not called by
    the daemon; wei_sockdump.c is a separate diagnostic receiver of the same datagrams.

  The theories, each a component of the source with its record, operations, invariant and lemmas:

    Prelude           shared lemmas on lists, words and options, the collections of hints
    Float64           binary64: rounding to nearest even, the rounded operations, their laws
    Platform_Cap      wei_platform_cap.c   the capability table
    Conn_Metric       wei_conn_metric.h    the metric record and its enumerations
    Conn_Scorer       wei_conn_scorer.c    normalise, reduce, weight, standardise, score
                      (locale score_kernel)
    Slot_Table        the contract of a fixed table keyed by MAC address (locales keyed_table,
                      aging_table), interpreted by Track, Perfreport, Infer and Life_Roster
    Track             wei_track.c          excursion timing and its table
    Ring              the contract of a ring written at a head (locale ring_window), interpreted by
                      the rate window, the loss window and the episode ledger
    Infer_Types, Infer_Window, Infer_Client, Infer_Ledger, Infer
                      wei_infer.c/.h       types; loss and rate windows; scoring, flags and
                      attribution of one client; episode ledger; staging, tick and reap
    Bus_Types, Rfc, Connperf_Dml, Bus
                      weid_rfc.c, wei_connperf_dml.c, weid_bus.c
    Perfreport        wei_perfreport.c     edge-triggered report, JSON buffer, publish
    Report_Publish    wei_report_publish.c
    Util              wei_util.c           the logger and its capped file
    Poll              wei_poll.c           socket, drain, loop, retune, stop (locale poll_client)
    Wire              weid_wire.c, weid_receiver.h   frame checks, mapping, callbacks, set-up
    Pipeline          Wire and Infer together: from the bytes of a frame to what is published
    Report_Table      the report table over the life of the process: 64 stations and no more
    Station           one station's machine without any table, and the engine as a family of them
    Rejoin            a station that ages out and comes back
    Run               the poll loop as the callbacks it makes; from the socket to the bus
    Daemon            weid_daemon.c        the threads as a step relation
    Process           what the process has reported in any of its reachable states
    Clock, Life_Clock the 64-bit millisecond arithmetic of wei_infer.c, wei_track.c and wei_life.c
    Life, Life_Detect, Life_Roster   wei_life.c   roster, four detectors (locale detector), tick
    Life_Race         the tick of wei_life.c with other operations between its locked sections
    Log_Lock          wei_util_file_write in its steps, any number of threads, under the mutex
    Sockdump          tools/wei_sockdump.c

  How code is translated. A C struct is a record with the same fields, an enum a datatype, a
  pointer into a table an index, a pointer that is checked for NULL an option: the entry points
  ending in _ptr are the C signatures, the others their bodies after the checks. Unsigned fields
  that wrap are words of their width; signed times and metrics are integers where the code cannot
  overflow them, and conversions that C leaves undefined give None. File-level static variables are
  fields of an explicit state. The double arithmetic is rounded operation by operation (Float64);
  only exp is a parameter, assumed accurate to one unit in the last place on the clamped range.
  Log calls are left out, except in Util.

  What is a parameter, because its code is not under src/: the size and layout of stats_arg_t and
  the two sigmoid coefficients (run_qmgr.h), the bus functions and their structures, cJSON, the C
  library (files, clock, malloc, exp) and the kernel (every result of socket, bind, poll, recv).
  What the properties ask of them stands in their hypotheses: libm_exp_ok, entries_plausible (no
  entry decodes to a rate above the bound where the rate variance is defined), infer_policy_ok (a
  policy whose variance band has a negation in int32_t), a socket that runs dry, params_ok (the bus keeps its close function).

  Groups of lemmas:

    Scoring. The public score is on the scale and monotone in each metric, rounding included
    (Conn_Scorer); a client's score is total and in range, windows and bands are exactly what the
    history says, attribution names the worst metric, the alarm is a run of low scores
    (Infer_Client, Infer_Window). The variance is defined up to 46.34 Gbit/s and not beyond.

    State over time. Excursions of the tracker refine the maximal runs below the band (Track); the
    ring of episodes refines the unbounded history (Infer_Ledger); the report stream is the sequence
    of changes of the verdict (Perfreport); detectors refine runs beyond their bound (Life_Detect).
    Each is an induction over the list of inputs, from a step lemma.

    Tables. Staging and aging of the engine, lookup and reaping of the tracker, the per-client
    report state and the roster meet one contract, proved once in Slot_Table: no duplicate key, a
    known key keeps its slot, a full table refuses, a reap removes exactly the old.

    Pipeline. The receiver accepts exactly the sender's frames (Wire); a tick is the engine's step
    followed by reporting, which cannot influence it (Infer); what a frame says is what the next
    tick scores (Pipeline); the loop leaks no descriptor, ticks as a timer and is never stuck for
    any client that keeps the contract of poll_client, which the daemon's callbacks do (Poll, Wire).

    Whole program. For each station, what the engine reports is what that station's own machine
    computes from its own records and the ticks (Station); so what the daemon has put on the bus,
    for any answers of the kernel, is one report per change of each station's own verdict sequence
    over the ticks at which the enable flag is on (Run). This is carried to the process with its
    three threads: in every reachable state, whatever the bus thread changes in between and wherever
    the body is cancelled, it is what has gone to the bus (Process). For this the state of the
    process has one field the program does not have, the callbacks made so far (d_calls), which no
    step reads. These hold while at most 64 distinct stations are heard, which is the size of
    the tables; what happens beyond is stated in Report_Table.

    Threads. Operations on the roster that run between the locked sections of a tick leave it
    consistent, and each station that stays gets one tick of its own detectors (Life_Race); writes
    to the log file are atomic and in order (Log_Lock). The models of Life and Util, where a locked
    section is one step, rest on these two.

    Process. An invariant of the reachable states of the three threads: the body runs only on a
    live pipeline, every exit of main releases everything, main finishes unless a thread
    cancelled while logging left the log lock held (Daemon).

    Time. Every stamp of the engine is a reading the clock has shown, so the signed 64-bit sums and
    differences of the scorer, the trackers and the reaps are those of the integers the model
    uses (Clock, Life_Clock).

    Store and bus. Set and load of the enable flag, handle and registration over any sequence of
    opens and closes, the types of the registered data model (Rfc, Connperf_Dml, Bus).

    Defects. Some properties state behaviour that the code's comments do not intend: a poll loop
    that returns leaves the daemon deaf and a shutdown can hang (Daemon), a retuned period that does
    not fit an int (Poll), the 65th station of the process is never reported (Report_Table), a
    station that comes back is degraded for its absence (Rejoin),
    the dump tool's read past its buffer (Sockdump), the loss detector on a cumulative counter and
    the onsets of an unmeasured station (Life), sums that wrap and a conversion out of range
    (Infer_Client, Infer_Window).

  Bounds and termination. Loops over arrays are recursions over index lists; the drain loop runs
  along the list of the kernel's answers, and the poll loop along the list of its events, so the
  length of that list is the number of iterations and no fuel is chosen. The only other recursion,
  the doubling of the JSON buffer, is a partial function proved to return. The tables have 64 slots,
  the windows and the ring 8 entries, the JSON buffer at most 2048 bytes, as in the source.

  Not modelled. The text of log lines and the copy on stdout; cancellation inside a callback or while
  the socket is re-created (it is modelled at poll, at recv and in the log line before a datagram's
  callback); mallopt and signal dispositions. The C compiler is taken not to contract a product and a sum into a
  fused operation. The build files, the service unit and the start script hold no run-time logic of
  the program.
\<close>

end
